(* ===== verification/Prelude.thy ===== *)
theory Prelude
  imports Complex_Main
begin

text \<open>
  The shared base of the development: the collections its proofs are carried by, results of
  code that may throw, the insertion-ordered sets of the language, and the list and option
  lemmas that several components need.

  A function of the program that may throw returns \<open>'e + 'a\<close>: \<open>Inl\<close> is the exception,
  \<open>Inr\<close> the value returned. \<open>andThen\<close> is sequencing: the rest runs only when the first
  part did not throw.
\<close>

named_theorems js_eval \<open>equations that evaluate string literals and character tests\<close>
named_theorems res_simps \<open>equations on results that may be exceptions\<close>
named_theorems parser_shrinks \<open>a parser leaves no more input than it was given\<close>
named_theorems inv_intros \<open>operations that keep an invariant\<close>

section \<open>Results that may be exceptions\<close>

definition andThen :: "'e + 'a \<Rightarrow> ('a \<Rightarrow> 'e + 'b) \<Rightarrow> 'e + 'b" where
  "andThen m f = (case m of Inl e \<Rightarrow> Inl e | Inr a \<Rightarrow> f a)"

lemma andThen_Inl [simp]: "andThen (Inl e) f = Inl e"
  by (simp add: andThen_def)

lemma andThen_Inr [simp]: "andThen (Inr a) f = f a"
  by (simp add: andThen_def)

lemma andThen_eq_Inr [res_simps]:
  "andThen m f = Inr b \<longleftrightarrow> (\<exists>a. m = Inr a \<and> f a = Inr b)"
  by (cases m) simp_all

lemma andThen_eq_Inl [res_simps]:
  "andThen m f = Inl e \<longleftrightarrow> m = Inl e \<or> (\<exists>a. m = Inr a \<and> f a = Inl e)"
  by (cases m) simp_all

lemma andThen_InrE:
  assumes "andThen m f = Inr b"
  obtains a where "m = Inr a" and "f a = Inr b"
  using assms by (auto simp: res_simps)

lemma andThen_assoc: "andThen (andThen m f) g = andThen m (\<lambda>a. andThen (f a) g)"
  by (cases m) simp_all

lemma andThen_cong [fundef_cong]:
  assumes "m = m'" and "\<And>a. m' = Inr a \<Longrightarrow> f a = f' a"
  shows "andThen m f = andThen m' f'"
  using assms by (cases m') simp_all

text \<open>\<open>xs.map(f)\<close> where \<open>f\<close> may throw: left to right, stopping at the first exception.\<close>

fun traverse :: "('a \<Rightarrow> 'e + 'b) \<Rightarrow> 'a list \<Rightarrow> 'e + 'b list" where
  "traverse f [] = Inr []"
| "traverse f (x # xs) = andThen (f x) (\<lambda>y. andThen (traverse f xs) (\<lambda>ys. Inr (y # ys)))"

lemma traverse_cong [fundef_cong]:
  assumes "xs = ys" and "\<And>x. x \<in> set ys \<Longrightarrow> f x = g x"
  shows "traverse f xs = traverse g ys"
proof -
  have "(\<forall>x \<in> set ys. f x = g x) \<longrightarrow> traverse f ys = traverse g ys"
    by (induction ys) simp_all
  with assms show ?thesis by blast
qed

lemma traverse_Inr_iff:
  "traverse f xs = Inr ys \<longleftrightarrow> list_all2 (\<lambda>x y. f x = Inr y) xs ys"
  by (induction xs arbitrary: ys) (auto simp: res_simps list_all2_Cons1)

section \<open>Insertion-ordered sets\<close>

text \<open>
  \<open>[...new Set(xs)]\<close>: the distinct elements of \<open>xs\<close>, each where it first occurs. The accumulator
  is the set filled so far, in insertion order.
\<close>

definition set_add :: "'a list \<Rightarrow> 'a \<Rightarrow> 'a list" where
  "set_add s x = (if x \<in> set s then s else s @ [x])"

definition uniq :: "'a list \<Rightarrow> 'a list" where
  "uniq xs = foldl set_add [] xs"

lemma set_set_add [simp]: "set (set_add s x) = insert x (set s)"
  by (auto simp: set_add_def)

lemma distinct_set_add [simp]: "distinct s \<Longrightarrow> distinct (set_add s x)"
  by (simp add: set_add_def)

lemma foldl_set_add: "set (foldl set_add s xs) = set s \<union> set xs"
  by (induction xs arbitrary: s) auto

lemma foldl_set_add_distinct: "distinct s \<Longrightarrow> distinct (foldl set_add s xs)"
  by (induction xs arbitrary: s) auto

lemma set_uniq [simp]: "set (uniq xs) = set xs"
  by (simp add: uniq_def foldl_set_add)

lemma distinct_uniq [simp]: "distinct (uniq xs)"
  by (simp add: uniq_def foldl_set_add_distinct)

lemma foldl_set_add_distinct_append:
  "distinct (s @ xs) \<Longrightarrow> foldl set_add s xs = s @ xs"
  by (induction xs arbitrary: s) (auto simp: set_add_def)

lemma uniq_distinct [simp]: "distinct xs \<Longrightarrow> uniq xs = xs"
  using foldl_set_add_distinct_append [of "[]" xs] by (simp add: uniq_def)

lemma uniq_idem [simp]: "uniq (uniq xs) = uniq xs"
  by simp

lemma uniq_Nil [simp]: "uniq [] = []"
  by (simp add: uniq_def)

lemma uniq_snoc: "uniq (xs @ [x]) = set_add (uniq xs) x"
  by (simp add: uniq_def)

lemma uniq_eq_Nil [simp]: "uniq xs = [] \<longleftrightarrow> xs = []"
  by (metis empty_set set_empty set_uniq)

section \<open>Association lists in key order of insertion\<close>

text \<open>
  A \<open>Map\<close> of the language: entries in insertion order, an entry that is set again keeps its
  place. \<open>map_put\<close> is \<open>map.set(k, v)\<close>, \<open>map_del\<close> is \<open>map.delete(k)\<close>, \<open>map_of\<close> is
  \<open>map.get(k)\<close>.
\<close>

fun map_put :: "'k \<Rightarrow> 'v \<Rightarrow> ('k \<times> 'v) list \<Rightarrow> ('k \<times> 'v) list" where
  "map_put k v [] = [(k, v)]"
| "map_put k v ((k', v') # m) = (if k = k' then (k, v) # m else (k', v') # map_put k v m)"

definition map_del :: "'k \<Rightarrow> ('k \<times> 'v) list \<Rightarrow> ('k \<times> 'v) list" where
  "map_del k m = filter (\<lambda>(k', _). k' \<noteq> k) m"

lemma map_of_map_put [simp]: "map_of (map_put k v m) = (map_of m)(k \<mapsto> v)"
  by (induction k v m rule: map_put.induct) (auto simp: fun_eq_iff)

lemma map_of_map_del [simp]: "map_of (map_del k m) = (map_of m)(k := None)"
  by (induction m) (auto simp: map_del_def fun_eq_iff)

lemma fst_set_map_put: "fst ` set (map_put k v m) = insert k (fst ` set m)"
  by (induction k v m rule: map_put.induct) auto

lemma distinct_map_put [simp]:
  "distinct (map fst m) \<Longrightarrow> distinct (map fst (map_put k v m))"
  by (induction k v m rule: map_put.induct) (auto simp: fst_set_map_put)

lemma distinct_map_del [simp]:
  "distinct (map fst m) \<Longrightarrow> distinct (map fst (map_del k m))"
  by (induction m) (auto simp: map_del_def)

text \<open>The contract a map of the language meets, and that association lists meet it.\<close>

locale js_map =
  fixes empty :: 'm
    and put :: "'k \<Rightarrow> 'v \<Rightarrow> 'm \<Rightarrow> 'm"
    and del :: "'k \<Rightarrow> 'm \<Rightarrow> 'm"
    and get :: "'m \<Rightarrow> 'k \<Rightarrow> 'v option"
  assumes get_empty: "get empty k = None"
    and get_put: "get (put k v m) k' = (if k' = k then Some v else get m k')"
    and get_del: "get (del k m) k' = (if k' = k then None else get m k')"
begin

lemma get_put_same [simp]: "get (put k v m) k = Some v"
  by (simp add: get_put)

lemma get_put_other [simp]: "k' \<noteq> k \<Longrightarrow> get (put k v m) k' = get m k'"
  by (simp add: get_put)

lemma get_del_same [simp]: "get (del k m) k = None"
  by (simp add: get_del)

lemma get_del_other [simp]: "k' \<noteq> k \<Longrightarrow> get (del k m) k' = get m k'"
  by (simp add: get_del)

end

interpretation alist_map: js_map "[]" map_put map_del map_of
  by unfold_locales auto

section \<open>Lists\<close>

lemma dropWhile_suffix: "\<exists>ys. xs = ys @ dropWhile P xs"
  by (metis takeWhile_dropWhile_id)

lemma length_dropWhile_le' [simp]: "length (dropWhile P xs) \<le> length xs"
  by (rule length_dropWhile_le)

lemma takeWhile_all: "(\<forall>x \<in> set xs. P x) \<Longrightarrow> takeWhile P xs = xs"
  by (simp add: takeWhile_eq_all_conv)

end
