(* ===== verification/JsString.thy ===== *)
theory JsString
  imports Prelude
begin

text \<open>
  Strings of the language: sequences of UTF-16 code units. A code unit is an \<open>int\<close>, as
  \<open>charCodeAt\<close> returns it; \<open>js ''abc''\<close> is the string literal \<open>'abc'\<close>. The operations of
  \<open>String.prototype\<close> the program uses are defined here with the laws its components rest on:
  trimming, splitting and joining, prefixes, suffixes and substrings.
\<close>

type_synonym code_unit = int
type_synonym jsstr = "code_unit list"

definition js :: "string \<Rightarrow> jsstr" where
  "js s = map of_char s"

lemma js_Nil [js_eval, simp]: "js [] = []"
  by (simp add: js_def)

lemma js_Cons [js_eval]: "js (c # cs) = of_char c # js cs"
  by (simp add: js_def)

lemma js_inj [simp]: "js s = js t \<longleftrightarrow> s = t"
  by (simp add: js_def inj_map_eq_map inj_of_char)

lemma js_append: "js (s @ t) = js s @ js t"
  by (simp add: js_def)

lemma js_eq_Nil [simp]: "js s = [] \<longleftrightarrow> s = []"
  by (simp add: js_def)

lemma Nil_eq_js [simp]: "[] = js s \<longleftrightarrow> s = []"
  by (auto simp: js_def)

lemma length_js [simp]: "length (js s) = length s"
  by (simp add: js_def)

section \<open>Characters\<close>

text \<open>White space and line terminators of the language: what \<open>trim\<close> removes and \<open>\s\<close> matches.\<close>

definition is_space :: "code_unit \<Rightarrow> bool" where
  "is_space c \<longleftrightarrow> (9 \<le> c \<and> c \<le> 13) \<or> c = 32 \<or> c = 160 \<or> c = 5760 \<or> (8192 \<le> c \<and> c \<le> 8202)
     \<or> c = 8232 \<or> c = 8233 \<or> c = 8239 \<or> c = 8287 \<or> c = 12288 \<or> c = 65279"

definition is_digit :: "code_unit \<Rightarrow> bool" where
  "is_digit c \<longleftrightarrow> 48 \<le> c \<and> c \<le> 57"

definition is_lower :: "code_unit \<Rightarrow> bool" where
  "is_lower c \<longleftrightarrow> 97 \<le> c \<and> c \<le> 122"

definition is_upper :: "code_unit \<Rightarrow> bool" where
  "is_upper c \<longleftrightarrow> 65 \<le> c \<and> c \<le> 90"

lemma digit_not_space [simp]: "is_digit c \<Longrightarrow> \<not> is_space c"
  by (auto simp: is_digit_def is_space_def)

text \<open>
  \<open>toLowerCase\<close> up to comparison with ASCII words: of the characters outside ASCII only the Kelvin sign has a single ASCII
  letter as its lower case.
\<close>

definition lower_ascii :: "jsstr \<Rightarrow> jsstr" where
  "lower_ascii s = map (\<lambda>c. if is_upper c then c + 32 else if c = 8490 then 107 else c) s"

text \<open>\<open>s[i]\<close>: \<open>undefined\<close> out of range.\<close>

definition char_at :: "jsstr \<Rightarrow> nat \<Rightarrow> code_unit option" where
  "char_at s i = (if i < length s then Some (s ! i) else None)"

lemma char_at_0 [simp]: "char_at [] i = None" "char_at (c # s) 0 = Some c"
  by (simp_all add: char_at_def)

lemma char_at_Suc [simp]: "char_at (c # s) (Suc i) = char_at s i"
  by (simp add: char_at_def)

section \<open>Trimming\<close>

definition trim_start :: "jsstr \<Rightarrow> jsstr" where
  "trim_start s = dropWhile is_space s"

definition trim_end :: "jsstr \<Rightarrow> jsstr" where
  "trim_end s = rev (dropWhile is_space (rev s))"

definition trim :: "jsstr \<Rightarrow> jsstr" where
  "trim s = trim_end (trim_start s)"

lemma trim_Nil [simp]: "trim [] = []"
  by (simp add: trim_def trim_start_def trim_end_def)

lemma trim_end_Cons: "\<not> is_space c \<Longrightarrow> trim_end (c # s) = c # trim_end s"
  by (simp add: trim_end_def dropWhile_append)

lemma trim_id:
  assumes "s \<noteq> [] \<Longrightarrow> \<not> is_space (hd s)" and "s \<noteq> [] \<Longrightarrow> \<not> is_space (last s)"
  shows "trim s = s"
proof (cases s rule: rev_cases)
  case Nil
  then show ?thesis by simp
next
  case (snoc ys y)
  then have "dropWhile is_space s = s"
    using assms(1) by (metis append_is_Nil_conv dropWhile.simps(2) list.collapse list.distinct(1))
  with snoc assms show ?thesis
    by (simp add: trim_def trim_start_def trim_end_def)
qed

lemma hd_trim: "trim s \<noteq> [] \<Longrightarrow> \<not> is_space (hd (trim s))"
proof -
  assume ne: "trim s \<noteq> []"
  let ?t = "dropWhile is_space s"
  have "?t \<noteq> []"
    using ne unfolding trim_def trim_start_def trim_end_def by force
  then obtain c r where t: "?t = c # r" and c: "\<not> is_space c"
    by (metis hd_dropWhile list.exhaust_sel)
  then show ?thesis
    by (simp add: trim_def trim_start_def trim_end_Cons)
qed

lemma last_trim: "trim s \<noteq> [] \<Longrightarrow> \<not> is_space (last (trim s))"
  by (simp add: trim_def trim_end_def last_rev hd_dropWhile)

lemma trim_idem [simp]: "trim (trim s) = trim s"
  by (rule trim_id) (simp_all add: hd_trim last_trim)

lemma set_trim: "set (trim s) \<subseteq> set s"
  unfolding trim_def trim_start_def trim_end_def by (metis set_dropWhileD set_rev subsetI)

lemma length_trim: "length (trim s) \<le> length s"
  by (metis (no_types, lifting) length_dropWhile_le length_rev order_trans trim_def
      trim_end_def trim_start_def)

lemma trim_no_space: "(\<forall>c \<in> set s. \<not> is_space c) \<Longrightarrow> trim s = s"
  by (rule trim_id) simp_all

section \<open>Splitting and joining\<close>

text \<open>\<open>s.split(c)\<close> for a separator of one code unit.\<close>

fun split_on :: "code_unit \<Rightarrow> jsstr \<Rightarrow> jsstr list" where
  "split_on c [] = [[]]"
| "split_on c (x # xs) =
     (if x = c then [] # split_on c xs
      else (case split_on c xs of [] \<Rightarrow> [[x]] | w # ws \<Rightarrow> (x # w) # ws))"

fun join :: "jsstr \<Rightarrow> jsstr list \<Rightarrow> jsstr" where
  "join sep [] = []"
| "join sep [w] = w"
| "join sep (w # ws) = w @ sep @ join sep ws"

lemma join_Cons: "ws \<noteq> [] \<Longrightarrow> join sep (w # ws) = w @ sep @ join sep ws"
  by (cases ws) simp_all

lemma split_on_not_Nil [simp]: "split_on c s \<noteq> []"
  by (induction s) (auto split: list.splits)

lemma join_split_on [simp]: "join [c] (split_on c s) = s"
proof (induction s)
  case (Cons x s)
  then show ?case
    by (cases "split_on c s"; cases "tl (split_on c s)") (auto simp: join_Cons)
qed simp

lemma split_on_no_sep: "w \<in> set (split_on c s) \<Longrightarrow> c \<notin> set w"
  by (induction s arbitrary: w) (auto split: if_splits list.splits)

lemma split_on_append_sep:
  "c \<notin> set w \<Longrightarrow> split_on c (w @ c # s) = w # split_on c s"
  by (induction w) auto

lemma split_on_single: "c \<notin> set w \<Longrightarrow> split_on c w = [w]"
  by (induction w) auto

lemma split_on_join:
  assumes "ws \<noteq> []" and "\<forall>w \<in> set ws. c \<notin> set w"
  shows "split_on c (join [c] ws) = ws"
  using assms by (induction "[c]" ws rule: join.induct) (auto simp: split_on_append_sep split_on_single)

section \<open>Prefixes, suffixes, substrings\<close>

definition starts_with :: "jsstr \<Rightarrow> jsstr \<Rightarrow> bool" where
  "starts_with s p \<longleftrightarrow> take (length p) s = p"

definition ends_with :: "jsstr \<Rightarrow> jsstr \<Rightarrow> bool" where
  "ends_with s p \<longleftrightarrow> starts_with (rev s) (rev p)"

fun str_includes :: "jsstr \<Rightarrow> jsstr \<Rightarrow> bool" where
  "str_includes [] p = (p = [])"
| "str_includes (c # s) p = (starts_with (c # s) p \<or> str_includes s p)"

lemma starts_with_iff: "starts_with s p \<longleftrightarrow> (\<exists>r. s = p @ r)"
  by (metis append_eq_conv_conj append_take_drop_id starts_with_def)

lemma ends_with_iff: "ends_with s p \<longleftrightarrow> (\<exists>r. s = r @ p)"
  by (metis ends_with_def rev_append rev_rev_ident starts_with_iff)

lemma includes_iff: "str_includes s p \<longleftrightarrow> (\<exists>u v. s = u @ p @ v)"
proof (induction s)
  case (Cons c s)
  have "(\<exists>u v. c # s = u @ p @ v) \<longleftrightarrow> (\<exists>v. c # s = p @ v) \<or> (\<exists>u v. s = u @ p @ v)"
    by (metis append_Cons append_Nil list.exhaust list.inject)
  then show ?case
    by (simp add: Cons.IH starts_with_iff)
qed simp

lemma includes_singleton: "str_includes s [c] \<longleftrightarrow> c \<in> set s"
  by (auto simp: includes_iff in_set_conv_decomp)

text \<open>\<open>Boolean(s)\<close> for a string, the predicate of \<open>filter(Boolean)\<close>.\<close>

definition nonempty :: "jsstr \<Rightarrow> bool" where
  "nonempty s \<longleftrightarrow> s \<noteq> []"

end
