(* ===== verification/JsNumber.thy ===== *)
theory JsNumber
  imports JsString
begin

text \<open>
  Numbers of the language: IEEE 754 binary64 values. A finite value is the rational it denotes
  (\<open>Num q\<close>, with \<open>Num 0\<close> for +0), \<open>NegZero\<close> is -0, \<open>Infin neg\<close> an infinity. Every arithmetic
  operation is the exact result on rationals followed by \<open>round64\<close>, rounding to nearest with ties
  to even, with gradual underflow and overflow to infinity; remainder, \<open>floor\<close> and \<open>ceil\<close> are
  exact. \<open>to_number\<close> is \<open>Number(string)\<close>, \<open>number_to_string\<close> is \<open>String(number)\<close>.
\<close>

datatype number = NaN | Infin bool | Num rat | NegZero

section \<open>Rounding to binary64\<close>

function ilog2 :: "int \<Rightarrow> nat" where
  "ilog2 n = (if n < 2 then 0 else Suc (ilog2 (n div 2)))"
  by pat_completeness auto
termination
  by (relation "measure nat") auto

declare ilog2.simps [simp del]

text \<open>The \<open>e\<close> with \<open>2\<^sup>e \<le> n/d < 2\<^sup>e\<^sup>+\<^sup>1\<close>, for positive \<open>n\<close> and \<open>d\<close>.\<close>

definition binexp :: "int \<Rightarrow> int \<Rightarrow> int" where
  "binexp n d =
     (let k = int (ilog2 n) - int (ilog2 d)
      in if (if 0 \<le> k then d * 2 ^ nat k \<le> n else d \<le> n * 2 ^ nat (- k)) then k else k - 1)"

text \<open>The integer nearest to \<open>n/d\<close>, the even one of two at the same distance.\<close>

definition round_div :: "int \<Rightarrow> int \<Rightarrow> int" where
  "round_div n d =
     (let f = n div d; r = n mod d
      in if 2 * r < d then f else if d < 2 * r then f + 1 else if even f then f else f + 1)"

text \<open>\<open>m \<cdot> 2\<^sup>u\<close>.\<close>

definition scale2 :: "int \<Rightarrow> int \<Rightarrow> rat" where
  "scale2 m u = (if 0 \<le> u then of_int (m * 2 ^ nat u) else Fract m (2 ^ nat (- u)))"

definition round_pos :: "int \<Rightarrow> int \<Rightarrow> int \<times> int" where
  "round_pos n d =
     (let u = max (binexp n d - 52) (- 1074)
      in (if 0 \<le> u then round_div n (d * 2 ^ nat u) else round_div (n * 2 ^ nat (- u)) d, u))"

definition round64 :: "rat \<Rightarrow> number" where
  "round64 q =
     (let (n, d) = quotient_of q
      in if n = 0 then Num 0
         else let (m, u) = round_pos \<bar>n\<bar> d
              in if m = 0 then (if n < 0 then NegZero else Num 0)
                 else if 971 < u \<or> (u = 971 \<and> 2 ^ 53 \<le> m) then Infin (n < 0)
                 else Num (if n < 0 then - scale2 m u else scale2 m u))"

section \<open>Classification, comparison\<close>

definition val :: "number \<Rightarrow> rat" where
  "val x = (case x of Num q \<Rightarrow> q | _ \<Rightarrow> 0)"

definition is_finite :: "number \<Rightarrow> bool" where
  "is_finite x \<longleftrightarrow> (case x of Num _ \<Rightarrow> True | NegZero \<Rightarrow> True | _ \<Rightarrow> False)"

definition is_negative :: "number \<Rightarrow> bool" where
  "is_negative x \<longleftrightarrow> (case x of NaN \<Rightarrow> False | Infin b \<Rightarrow> b | Num q \<Rightarrow> q < 0 | NegZero \<Rightarrow> True)"

definition is_zero :: "number \<Rightarrow> bool" where
  "is_zero x \<longleftrightarrow> is_finite x \<and> val x = 0"

definition is_integer :: "number \<Rightarrow> bool" where
  "is_integer x \<longleftrightarrow> is_finite x \<and> snd (quotient_of (val x)) = 1"

definition is_safe_integer :: "number \<Rightarrow> bool" where
  "is_safe_integer x \<longleftrightarrow> is_integer x \<and> \<bar>val x\<bar> \<le> 9007199254740991"

definition truthy_num :: "number \<Rightarrow> bool" where
  "truthy_num x \<longleftrightarrow> x \<noteq> NaN \<and> \<not> is_zero x"

fun num_lt :: "number \<Rightarrow> number \<Rightarrow> bool" where
  "num_lt NaN y = False"
| "num_lt x NaN = False"
| "num_lt (Infin a) (Infin b) = (a \<and> \<not> b)"
| "num_lt (Infin a) y = a"
| "num_lt x (Infin b) = (\<not> b)"
| "num_lt x y = (val x < val y)"

definition num_le :: "number \<Rightarrow> number \<Rightarrow> bool" where
  "num_le x y \<longleftrightarrow> x \<noteq> NaN \<and> y \<noteq> NaN \<and> \<not> num_lt y x"

definition num_gt :: "number \<Rightarrow> number \<Rightarrow> bool" where
  "num_gt x y \<longleftrightarrow> num_lt y x"

definition num_ge :: "number \<Rightarrow> number \<Rightarrow> bool" where
  "num_ge x y \<longleftrightarrow> num_le y x"

text \<open>\<open>x === y\<close> on numbers: \<open>NaN\<close> equals nothing, the two zeros are equal.\<close>

definition num_eq :: "number \<Rightarrow> number \<Rightarrow> bool" where
  "num_eq x y \<longleftrightarrow> x \<noteq> NaN \<and> y \<noteq> NaN \<and> (x = y \<or> (is_zero x \<and> is_zero y))"

section \<open>Arithmetic\<close>

definition zero_signed :: "bool \<Rightarrow> number" where
  "zero_signed s = (if s then NegZero else Num 0)"

definition num_neg :: "number \<Rightarrow> number" where
  "num_neg x = (case x of NaN \<Rightarrow> NaN | Infin b \<Rightarrow> Infin (\<not> b)
     | Num q \<Rightarrow> (if q = 0 then NegZero else Num (- q)) | NegZero \<Rightarrow> Num 0)"

fun num_add :: "number \<Rightarrow> number \<Rightarrow> number" where
  "num_add NaN y = NaN"
| "num_add x NaN = NaN"
| "num_add (Infin a) (Infin b) = (if a = b then Infin a else NaN)"
| "num_add (Infin a) y = Infin a"
| "num_add x (Infin b) = Infin b"
| "num_add NegZero NegZero = NegZero"
| "num_add x y = round64 (val x + val y)"

definition num_sub :: "number \<Rightarrow> number \<Rightarrow> number" where
  "num_sub x y = num_add x (num_neg y)"

definition num_mul :: "number \<Rightarrow> number \<Rightarrow> number" where
  "num_mul x y =
     (if x = NaN \<or> y = NaN then NaN
      else let s = (is_negative x \<noteq> is_negative y)
           in if \<not> is_finite x \<or> \<not> is_finite y
              then (if is_zero x \<or> is_zero y then NaN else Infin s)
              else if is_zero x \<or> is_zero y then zero_signed s
              else round64 (val x * val y))"

definition num_div :: "number \<Rightarrow> number \<Rightarrow> number" where
  "num_div x y =
     (if x = NaN \<or> y = NaN then NaN
      else let s = (is_negative x \<noteq> is_negative y)
           in if \<not> is_finite x then (if is_finite y then Infin s else NaN)
              else if \<not> is_finite y then zero_signed s
              else if is_zero y then (if is_zero x then NaN else Infin s)
              else if is_zero x then zero_signed s
              else round64 (val x / val y))"

text \<open>The quotient of two rationals, cut towards zero; \<open>x % y\<close> is exact and has the sign of \<open>x\<close>.\<close>

definition trunc_rat :: "rat \<Rightarrow> int" where
  "trunc_rat q = (let (n, d) = quotient_of q in if n < 0 then - ((- n) div d) else n div d)"

definition num_rem :: "number \<Rightarrow> number \<Rightarrow> number" where
  "num_rem x y =
     (if x = NaN \<or> y = NaN \<or> \<not> is_finite x \<or> is_zero y then NaN
      else if \<not> is_finite y \<or> is_zero x then x
      else let r = val x - val y * of_int (trunc_rat (val x / val y))
           in if r = 0 then zero_signed (is_negative x) else Num r)"

definition rat_floor :: "rat \<Rightarrow> int" where
  "rat_floor q = (let (n, d) = quotient_of q in n div d)"

definition num_floor :: "number \<Rightarrow> number" where
  "num_floor x = (case x of Num q \<Rightarrow> Num (of_int (rat_floor q)) | _ \<Rightarrow> x)"

definition num_ceil :: "number \<Rightarrow> number" where
  "num_ceil x = num_neg (num_floor (num_neg x))"

definition num_abs :: "number \<Rightarrow> number" where
  "num_abs x = (case x of NaN \<Rightarrow> NaN | Infin _ \<Rightarrow> Infin False | Num q \<Rightarrow> Num \<bar>q\<bar> | NegZero \<Rightarrow> Num 0)"

text \<open>\<open>Math.max\<close> and \<open>Math.min\<close> of two numbers; +0 is above -0.\<close>

definition num_max :: "number \<Rightarrow> number \<Rightarrow> number" where
  "num_max x y =
     (if x = NaN \<or> y = NaN then NaN
      else if num_lt x y then y else if num_lt y x then x
      else if x = NegZero then y else x)"

definition num_min :: "number \<Rightarrow> number \<Rightarrow> number" where
  "num_min x y =
     (if x = NaN \<or> y = NaN then NaN
      else if num_lt x y then x else if num_lt y x then y
      else if y = NegZero then y else x)"

definition math_max :: "number list \<Rightarrow> number" where
  "math_max xs = foldl num_max (Infin True) xs"

definition math_min :: "number list \<Rightarrow> number" where
  "math_min xs = foldl num_min (Infin False) xs"

section \<open>Reading numbers\<close>

definition pow10 :: "int \<Rightarrow> rat" where
  "pow10 e = (if 0 \<le> e then of_int (10 ^ nat e) else Fract 1 (10 ^ nat (- e)))"

definition digits_val :: "jsstr \<Rightarrow> int" where
  "digits_val ds = foldl (\<lambda>a c. 10 * a + (c - 48)) 0 ds"

text \<open>The exact value of a decimal literal without sign; \<open>None\<close> when it is not one.\<close>

definition decimal_exponent :: "jsstr \<Rightarrow> int option" where
  "decimal_exponent t =
     (case t of [] \<Rightarrow> Some 0
      | c # r \<Rightarrow> if c \<noteq> 101 \<and> c \<noteq> 69 then None
        else (let neg = (case r of c' # _ \<Rightarrow> c' = 45 | [] \<Rightarrow> False);
                  ds = (case r of c' # r' \<Rightarrow> if c' = 43 \<or> c' = 45 then r' else r | [] \<Rightarrow> r)
              in if ds = [] \<or> \<not> list_all is_digit ds then None
                 else Some (if neg then - digits_val ds else digits_val ds)))"

definition decimal_value :: "jsstr \<Rightarrow> rat option" where
  "decimal_value t =
     (let ip = takeWhile is_digit t; r = dropWhile is_digit t;
          dot = (case r of c # _ \<Rightarrow> c = 46 | [] \<Rightarrow> False);
          fp = (if dot then takeWhile is_digit (tl r) else []);
          r2 = (if dot then dropWhile is_digit (tl r) else r)
      in if ip = [] \<and> fp = [] then None
         else (case decimal_exponent r2 of None \<Rightarrow> None
               | Some e \<Rightarrow> Some (of_int (digits_val (ip @ fp)) * pow10 (e - int (length fp)))))"

definition hex_digit :: "code_unit \<Rightarrow> int" where
  "hex_digit c = (if is_digit c then c - 48 else if 97 \<le> c \<and> c \<le> 102 then c - 87
     else if 65 \<le> c \<and> c \<le> 70 then c - 55 else - 1)"

definition radix_value :: "int \<Rightarrow> jsstr \<Rightarrow> number" where
  "radix_value b ds =
     (if ds = [] \<or> (\<exists>c \<in> set ds. hex_digit c < 0 \<or> b \<le> hex_digit c) then NaN
      else round64 (of_int (foldl (\<lambda>a c. b * a + hex_digit c) 0 ds)))"

definition unsigned_number :: "jsstr \<Rightarrow> number" where
  "unsigned_number t =
     (if t = js ''Infinity'' then Infin False
      else (case decimal_value t of None \<Rightarrow> NaN | Some q \<Rightarrow> round64 q))"

definition to_number :: "jsstr \<Rightarrow> number" where
  "to_number s =
     (let t = trim s
      in case t of [] \<Rightarrow> Num 0
         | c # r \<Rightarrow>
           if c = 45 then num_neg (unsigned_number r)
           else if c = 43 then unsigned_number r
           else if c = 48 \<and> r \<noteq> [] \<and> (hd r = 120 \<or> hd r = 88) then radix_value 16 (tl r)
           else if c = 48 \<and> r \<noteq> [] \<and> (hd r = 111 \<or> hd r = 79) then radix_value 8 (tl r)
           else if c = 48 \<and> r \<noteq> [] \<and> (hd r = 98 \<or> hd r = 66) then radix_value 2 (tl r)
           else unsigned_number t)"

section \<open>Writing numbers\<close>

function int_digits :: "int \<Rightarrow> jsstr" where
  "int_digits n = (if n < 10 then [48 + n] else int_digits (n div 10) @ [48 + n mod 10])"
  by pat_completeness auto
termination
  by (relation "measure nat") auto

declare int_digits.simps [simp del]

text \<open>The \<open>n\<close> with \<open>10\<^sup>n\<^sup>-\<^sup>1 \<le> q < 10\<^sup>n\<close>, for positive \<open>q\<close>.\<close>

definition dec_exp :: "rat \<Rightarrow> int" where
  "dec_exp q =
     (let (n, d) = quotient_of q; a = int (length (int_digits n)) - int (length (int_digits d))
      in if q < pow10 a then a else a + 1)"

text \<open>
  The shortest decimal significand that reads back as \<open>q\<close>: for \<open>k = 1, 2, \<dots>\<close> digits, the integer
  nearest to \<open>q \<cdot> 10\<^sup>k\<^sup>-\<^sup>n\<close> and the one on the other side of it, with the exponent that goes with it.
  When the significand is \<open>10\<^sup>k\<close> the text is that of the next power of ten.
\<close>

definition significand :: "int \<Rightarrow> nat \<Rightarrow> int \<Rightarrow> int \<times> int" where
  "significand c k n = (if c = 10 ^ k then (1, n + 1) else (c, n))"

fun shortest :: "nat \<Rightarrow> nat \<Rightarrow> rat \<Rightarrow> int \<Rightarrow> int \<times> int" where
  "shortest 0 k q n = significand (rat_floor (q * pow10 (int k - n))) k n"
| "shortest (Suc fuel) k q n =
     (let s = q * pow10 (int k - n); f = rat_floor s;
          ok = (\<lambda>c. round64 (of_int c * pow10 (n - int k)) = Num q);
          near = (if 2 * (s - of_int f) < 1 \<or> (2 * (s - of_int f) = 1 \<and> even f) then f else f + 1);
          far = (if near = f then f + 1 else f)
      in if ok near then significand near k n
         else if ok far then significand far k n
         else shortest fuel (Suc k) q n)"

definition format_positive :: "int \<Rightarrow> int \<Rightarrow> jsstr" where
  "format_positive s n =
     (let ds = int_digits s; k = int (length ds)
      in if k \<le> n \<and> n \<le> 21 then ds @ replicate (nat (n - k)) 48
         else if 0 < n \<and> n \<le> 21 then take (nat n) ds @ [46] @ drop (nat n) ds
         else if - 6 < n \<and> n \<le> 0 then [48, 46] @ replicate (nat (- n)) 48 @ ds
         else let e = n - 1; es = (if e < 0 then 45 else 43) # int_digits \<bar>e\<bar>
              in if k = 1 then ds @ [101] @ es else take 1 ds @ [46] @ drop 1 ds @ [101] @ es)"

definition number_to_string :: "number \<Rightarrow> jsstr" where
  "number_to_string x =
     (case x of NaN \<Rightarrow> js ''NaN'' | Infin b \<Rightarrow> (if b then [45] else []) @ js ''Infinity''
      | NegZero \<Rightarrow> [48]
      | Num q \<Rightarrow> if q = 0 then [48]
          else let a = \<bar>q\<bar>; (c, n) = shortest 17 1 a (dec_exp a); s = format_positive c n
               in if q < 0 then 45 # s else s)"

section \<open>Laws of rounding\<close>

lemma ilog2_bounds: "0 < n \<Longrightarrow> 2 ^ ilog2 n \<le> n \<and> n < 2 ^ Suc (ilog2 n)"
proof (induction n rule: ilog2.induct)
  case (1 n)
  show ?case
  proof (cases "n < 2")
    case True
    with "1.prems" show ?thesis by (simp add: ilog2.simps [of n])
  next
    case False
    then have "2 ^ ilog2 (n div 2) \<le> n div 2 \<and> n div 2 < 2 ^ Suc (ilog2 (n div 2))"
      using "1.IH" by simp
    with False show ?thesis by (simp add: ilog2.simps [of n]) linarith
  qed
qed

lemma ilog2_1 [simp]: "ilog2 1 = 0"
  by (simp add: ilog2.simps)

lemma ilog2_less: "0 < n \<Longrightarrow> n < 2 ^ k \<Longrightarrow> ilog2 n < k"
  using ilog2_bounds [of n] by (meson le_less_trans one_less_numeral_iff power_less_imp_less_exp semiring_norm(76))

lemma binexp_int: "0 < n \<Longrightarrow> binexp n 1 = int (ilog2 n)"
  using ilog2_bounds [of n] by (simp add: binexp_def)

lemma round_div_1 [simp]: "round_div n 1 = n"
  by (simp add: round_div_def)

lemma round_div_mult: "0 < d \<Longrightarrow> round_div (k * d) d = k"
  by (simp add: round_div_def)

lemma round_div_nonneg: "0 \<le> n \<Longrightarrow> 0 < d \<Longrightarrow> 0 \<le> round_div n d"
  by (auto simp: round_div_def Let_def pos_imp_zdiv_nonneg_iff)

lemma scale2_mult: "u < 0 \<Longrightarrow> scale2 (n * 2 ^ nat (- u)) u = of_int n"
  by (simp add: scale2_def Fract_of_int_quotient)

lemma scale2_nonneg: "0 \<le> m \<Longrightarrow> 0 \<le> scale2 m u"
  by (simp add: scale2_def zero_le_Fract_iff)

lemma quotient_of_of_int [simp]: "quotient_of (of_int k) = (k, 1)"
  by (metis Rat.of_int_def rat_number_collapse(1) of_int_rat quotient_of_Fract normalize_stable
      coprime_1_right zero_less_one)

text \<open>Integers of magnitude at most \<open>2\<^sup>5\<^sup>3\<close> are represented exactly.\<close>

lemma round_pos_int:
  assumes "0 < n" and "n \<le> 2 ^ 53"
  obtains m u where "round_pos n 1 = (m, u)" and "scale2 m u = of_int n" and "u \<le> 1" and "0 < m"
proof -
  let ?u = "int (ilog2 n) - 52"
  have le: "ilog2 n < 54"
    by (rule ilog2_less) (use assms in auto)
  have u: "max (binexp n 1 - 52) (- 1074) = ?u"
    using assms by (simp add: binexp_int)
  show ?thesis
  proof (cases "0 \<le> ?u")
    case True
    with le consider "?u = 0" | "?u = 1" by linarith
    then show ?thesis
    proof cases
      case 1
      then have "round_pos n 1 = (n, 0)"
        using u by (simp add: round_pos_def Let_def)
      then show ?thesis
        using assms by (intro that) (auto simp: scale2_def)
    next
      case 2
      then have "ilog2 n = 53" by linarith
      then have "n = 2 ^ 53"
        using ilog2_bounds [of n] assms by simp
      moreover have "round_pos n 1 = (round_div n 2, 1)"
        using u 2 by (simp add: round_pos_def Let_def)
      ultimately show ?thesis
        by (intro that [of "2 ^ 52" 1]) (simp_all add: round_div_def scale2_def)
    qed
  next
    case False
    then have "round_pos n 1 = (n * 2 ^ nat (- ?u), ?u)"
      using u by (simp add: round_pos_def Let_def)
    then show ?thesis
      using False assms scale2_mult [of ?u n] by (intro that [OF \<open>round_pos n 1 = _\<close>]) simp_all
  qed
qed

lemma round64_of_int [simp]:
  assumes "\<bar>k\<bar> \<le> 2 ^ 53"
  shows "round64 (of_int k) = Num (of_int k)"
proof (cases "k = 0")
  case True
  then show ?thesis by (simp add: round64_def)
next
  case False
  then obtain m u where "round_pos \<bar>k\<bar> 1 = (m, u)" and "scale2 m u = of_int \<bar>k\<bar>"
      and "u \<le> 1" and "0 < m"
    using round_pos_int [of "\<bar>k\<bar>"] assms by auto
  with False show ?thesis
    by (simp add: round64_def)
qed

lemma round64_0 [simp]: "round64 0 = Num 0"
  by (simp add: round64_def)

lemma round64_not_NaN [simp]: "round64 q \<noteq> NaN"
  by (auto simp: round64_def Let_def split: prod.splits)

lemma round64_nonneg:
  assumes "0 \<le> q"
  obtains r where "round64 q = Num r" and "0 \<le> r" | "round64 q = Infin False"
proof -
  obtain n d where nd: "quotient_of q = (n, d)" by fastforce
  then have d: "0 < d" by (rule quotient_of_denom_pos)
  have "q = Fract n d"
    using nd by (metis Fract_of_int_quotient quotient_of_div)
  with assms d have n: "0 \<le> n" by (simp add: zero_le_Fract_iff)
  obtain m u where mu: "round_pos \<bar>n\<bar> d = (m, u)" by fastforce
  have "0 \<le> m"
    using mu n d by (auto simp: round_pos_def Let_def split: if_splits intro!: round_div_nonneg)
  then have "(\<exists>r. round64 q = Num r \<and> 0 \<le> r) \<or> round64 q = Infin False"
    using nd mu n by (simp add: round64_def scale2_nonneg)
  with that show ?thesis by blast
qed

section \<open>Laws of classification and comparison\<close>

lemma val_simps [simp]: "val (Num q) = q" "val NegZero = 0"
  by (simp_all add: val_def)

lemma is_finite_simps [simp]:
  "is_finite (Num q)" "is_finite NegZero" "\<not> is_finite NaN" "\<not> is_finite (Infin b)"
  by (simp_all add: is_finite_def)

lemma is_finite_cases:
  assumes "is_finite x"
  obtains q where "x = Num q" | "x = NegZero"
  using assms by (cases x) simp_all

lemma finite_not_NaN: "is_finite x \<Longrightarrow> x \<noteq> NaN"
  by auto

lemma is_zero_Num [simp]: "is_zero (Num q) \<longleftrightarrow> q = 0"
  by (simp add: is_zero_def)

lemma is_zero_simps [simp]: "is_zero NegZero" "\<not> is_zero NaN" "\<not> is_zero (Infin b)"
  by (simp_all add: is_zero_def)

lemma num_lt_finite: "is_finite x \<Longrightarrow> is_finite y \<Longrightarrow> num_lt x y \<longleftrightarrow> val x < val y"
  by (cases x; cases y) simp_all

lemma num_le_finite: "is_finite x \<Longrightarrow> is_finite y \<Longrightarrow> num_le x y \<longleftrightarrow> val x \<le> val y"
  by (auto simp: num_le_def num_lt_finite)

lemma num_eq_finite: "is_finite x \<Longrightarrow> is_finite y \<Longrightarrow> num_eq x y \<longleftrightarrow> val x = val y"
  by (cases x; cases y) (auto simp: num_eq_def)

lemma num_lt_irrefl [simp]: "\<not> num_lt x x"
  by (cases x) simp_all

lemma num_lt_NaN [simp]: "\<not> num_lt x NaN"
  by (cases x) simp_all

lemma num_neg_finite [simp]: "is_finite (num_neg x) \<longleftrightarrow> is_finite x"
  by (cases x) (simp_all add: num_neg_def)

lemma val_num_neg [simp]: "val (num_neg x) = - val x"
  by (cases x) (simp_all add: num_neg_def val_def)

lemma num_add_commute: "num_add x y = num_add y x"
  by (cases x; cases y) (simp_all add: add.commute)

lemma num_mul_commute: "num_mul x y = num_mul y x"
  by (auto simp: num_mul_def Let_def mult.commute eq_commute [of "is_negative x"] not_iff)

lemma is_integer_of_int [simp]: "is_integer (Num (of_int k))"
  by (simp add: is_integer_def)

lemma is_integer_iff: "is_integer x \<longleftrightarrow> is_finite x \<and> (\<exists>k. val x = of_int k)"
proof -
  have "q \<in> \<int>" if "snd (quotient_of q) = 1" for q :: rat
    using that quotient_of_div [of q] by (metis Ints_of_int div_by_1 of_int_1 prod.collapse)
  then show ?thesis
    by (auto simp: is_integer_def elim!: Ints_cases)
qed

lemma rat_floor_eq: "rat_floor q = \<lfloor>q\<rfloor>"
proof -
  obtain n d where nd: "quotient_of q = (n, d)" by fastforce
  then have "q = of_int n / of_int d" by (rule quotient_of_div)
  with nd show ?thesis by (simp add: rat_floor_def floor_divide_of_int_eq)
qed

lemma num_floor_finite [simp]: "is_finite (num_floor x) \<longleftrightarrow> is_finite x"
  by (cases x) (simp_all add: num_floor_def)

lemma num_floor_Num [simp]: "num_floor (Num q) = Num (of_int \<lfloor>q\<rfloor>)"
  by (simp add: num_floor_def rat_floor_eq)

lemma num_floor_integer: "is_finite x \<Longrightarrow> is_integer (num_floor x)"
  by (cases x) (auto simp: num_floor_def is_integer_iff)

lemma num_ceil_finite [simp]: "is_finite (num_ceil x) \<longleftrightarrow> is_finite x"
  by (simp add: num_ceil_def)

lemma val_num_floor: "is_finite x \<Longrightarrow> val (num_floor x) = of_int \<lfloor>val x\<rfloor>"
  by (cases x) (simp_all add: num_floor_def rat_floor_eq)

lemma val_num_ceil: "is_finite x \<Longrightarrow> val (num_ceil x) = of_int \<lceil>val x\<rceil>"
  by (simp add: num_ceil_def val_num_floor ceiling_def)

lemma num_abs_finite [simp]: "is_finite (num_abs x) \<longleftrightarrow> is_finite x"
  by (cases x) (simp_all add: num_abs_def)

lemma num_max_finite: "is_finite x \<Longrightarrow> is_finite y \<Longrightarrow> is_finite (num_max x y)"
  by (auto simp: num_max_def)

lemma num_min_finite: "is_finite x \<Longrightarrow> is_finite y \<Longrightarrow> is_finite (num_min x y)"
  by (auto simp: num_min_def)

lemma val_num_max: "is_finite x \<Longrightarrow> is_finite y \<Longrightarrow> val (num_max x y) = max (val x) (val y)"
  by (cases x; cases y) (auto simp: num_max_def)

lemma val_num_min: "is_finite x \<Longrightarrow> is_finite y \<Longrightarrow> val (num_min x y) = min (val x) (val y)"
  by (cases x; cases y) (auto simp: num_min_def)

lemma num_max_Infin_True [simp]: "is_finite x \<Longrightarrow> num_max (Infin True) x = x"
  by (cases x) (simp_all add: num_max_def)

lemma num_min_Infin_False [simp]: "is_finite x \<Longrightarrow> num_min (Infin False) x = x"
  by (cases x) (simp_all add: num_min_def)

end
