(* ===== verification/BillingLexer.thy ===== *)
theory BillingLexer
  imports JsNumber
begin

text \<open>
  The lexer of billing expressions, \<open>src/apps/web/src/features/pricing/lib/billing-expr.ts\<close>:
  the limits, the values and tokens of the restricted grammar, string literals, and
  \<open>tokenizeExpr\<close>. The source is read from the left: \<open>source[index]\<close> is the head of the part not
  read yet, \<open>index\<close> is carried for the message of an unsupported character. Every \<open>throw\<close> of the
  source is a constructor of \<open>expr_error\<close>, whose text is \<open>error_message\<close>.

  Proved: the token texts, with the white space between them, spell the source, no white space is
  inside a token but in string literals, and every token but the end marker has a text.
\<close>

section \<open>Limits and data\<close>

definition MAX_EXPR_LENGTH :: int where "MAX_EXPR_LENGTH = 16384"
definition MAX_EXPR_TOKENS :: int where "MAX_EXPR_TOKENS = 2048"
definition MAX_EXPR_DEPTH :: nat where "MAX_EXPR_DEPTH = 64"
definition MAX_CALL_ARGUMENTS :: nat where "MAX_CALL_ARGUMENTS = 16"
definition MAX_EVAL_STEPS :: int where "MAX_EVAL_STEPS = 4096"

datatype expr_value = VNum number | VStr jsstr | VBool bool

datatype expr_error =
    ControlCharacter | InvalidEscape | InvalidUnicodeEscape
  | TooLong | TooManyTokens | InvalidExponent | LiteralNotFinite | UnterminatedString
  | UnsupportedCharacter nat
  | UnexpectedToken jsstr | Expected jsstr | NestingTooDeep | TooManyArguments
  | OperandNotFinite | TooComplex | IdentifierNotAllowed jsstr | OperatorNotAllowed jsstr
  | TierArguments | MaxArguments | MinArguments | AbsArguments | CeilArguments | FloorArguments
  | FunctionNotAllowed jsstr
  | TokenUndefined \<comment> \<open>the \<open>TypeError\<close> of a property of \<open>tokens[index]\<close> past the end\<close>
  | OutOfFuel \<comment> \<open>no exception of the code: a loop did not end within the fuel of the model\<close>

text \<open>The message of each \<open>Error\<close>; an empty text is read as the end of the expression.\<close>

definition or_end :: "jsstr \<Rightarrow> jsstr" where
  "or_end t = (if t = [] then js ''end of expression'' else t)"

fun error_message :: "expr_error \<Rightarrow> jsstr" where
  "error_message ControlCharacter = js ''control character in string literal''"
| "error_message InvalidEscape = js ''invalid string escape''"
| "error_message InvalidUnicodeEscape = js ''invalid unicode escape''"
| "error_message TooLong = js ''expression is too long''"
| "error_message TooManyTokens = js ''expression has too many tokens''"
| "error_message InvalidExponent = js ''invalid numeric exponent''"
| "error_message LiteralNotFinite = js ''numeric literal is not finite''"
| "error_message UnterminatedString = js ''unterminated string literal''"
| "error_message (UnsupportedCharacter i) =
     js ''unsupported expression character at '' @ int_digits (int i)"
| "error_message (UnexpectedToken t) = js ''unexpected token: '' @ t"
| "error_message (Expected t) = js ''expected '' @ or_end t"
| "error_message NestingTooDeep = js ''expression nesting is too deep''"
| "error_message TooManyArguments = js ''too many call arguments''"
| "error_message OperandNotFinite = js ''numeric operand must be finite''"
| "error_message TooComplex = js ''expression is too complex''"
| "error_message (IdentifierNotAllowed n) = js ''identifier is not allowed: '' @ n"
| "error_message (OperatorNotAllowed n) = js ''operator is not allowed: '' @ n"
| "error_message TierArguments = js ''tier expects a label and numeric value''"
| "error_message MaxArguments = js ''max expects an argument''"
| "error_message MinArguments = js ''min expects an argument''"
| "error_message AbsArguments = js ''abs expects one argument''"
| "error_message CeilArguments = js ''ceil expects one argument''"
| "error_message FloorArguments = js ''floor expects one argument''"
| "error_message (FunctionNotAllowed n) = js ''function is not allowed: '' @ n"
| "error_message TokenUndefined = js ''undefined is not an object''"
| "error_message OutOfFuel = []"

datatype token_kind = KNumber | KString | KIdentifier | KOperator | KEof

record expr_token =
  kind :: token_kind
  ttext :: jsstr
  tvalue :: "expr_value option"

definition eof_token :: expr_token where
  "eof_token = \<lparr>kind = KEof, ttext = [], tvalue = None\<rparr>"

section \<open>Version prefix\<close>

text \<open>
  \<open>/^v(\d+):([\s\S]*)$/\<close>: the version number and the text after the colon.
\<close>

definition stripExprVersion :: "jsstr \<Rightarrow> number \<times> jsstr" where
  "stripExprVersion s =
     (case s of [] \<Rightarrow> (Num 1, [])
      | c # r \<Rightarrow>
        let ds = takeWhile is_digit r; t = dropWhile is_digit r
        in if c = 118 \<and> ds \<noteq> [] \<and> t \<noteq> [] \<and> hd t = 58 then (to_number ds, tl t)
           else (Num 1, s))"

section \<open>Characters\<close>

definition isDigit :: "code_unit option \<Rightarrow> bool" where
  "isDigit ch = (case ch of None \<Rightarrow> False | Some c \<Rightarrow> 48 \<le> c \<and> c \<le> 57)"

definition isIdentifierStart :: "code_unit option \<Rightarrow> bool" where
  "isIdentifierStart ch =
     (case ch of None \<Rightarrow> False
      | Some c \<Rightarrow> (97 \<le> c \<and> c \<le> 122) \<or> (65 \<le> c \<and> c \<le> 90) \<or> c = 95)"

definition isIdentifierPart :: "code_unit option \<Rightarrow> bool" where
  "isIdentifierPart ch = (isIdentifierStart ch \<or> isDigit ch)"

definition hexValue :: "code_unit option \<Rightarrow> int" where
  "hexValue ch =
     (case ch of None \<Rightarrow> - 1
      | Some c \<Rightarrow> if 48 \<le> c \<and> c \<le> 57 then c - 48
                  else if 97 \<le> c \<and> c \<le> 102 then c - 87
                  else if 65 \<le> c \<and> c \<le> 70 then c - 55 else - 1)"

section \<open>String literals\<close>

definition simple_escape :: "code_unit \<Rightarrow> code_unit option" where
  "simple_escape c =
     (if c = 34 \<or> c = 92 \<or> c = 47 then Some c
      else if c = 98 then Some 8 else if c = 102 then Some 12 else if c = 110 then Some 10
      else if c = 114 then Some 13 else if c = 116 then Some 9 else None)"

text \<open>
  The loop of \<open>decodeStringLiteral\<close>, on \<open>text.slice(index)\<close>: it stops when one code unit is left,
  the closing quote. \<open>index + 4 >= text.length\<close> reads \<open>length r < 4\<close> on the part after the \<open>u\<close>.
\<close>

function decode_loop :: "jsstr \<Rightarrow> jsstr \<Rightarrow> expr_error + jsstr" where
  "decode_loop decoded [] = Inr decoded"
| "decode_loop decoded [q] = Inr decoded"
| "decode_loop decoded (c # e # r) =
     (if c \<noteq> 92 then
        (if c < 32 then Inl ControlCharacter else decode_loop (decoded @ [c]) (e # r))
      else (case simple_escape e of
          Some x \<Rightarrow> decode_loop (decoded @ [x]) r
        | None \<Rightarrow>
            if e \<noteq> 117 \<or> length r < 4 then Inl InvalidEscape
            else if \<exists>d \<in> set (take 4 r). hexValue (Some d) < 0 then Inl InvalidUnicodeEscape
            else decode_loop
                   (decoded @ [foldl (\<lambda>u d. u * 16 + hexValue (Some d)) 0 (take 4 r)]) (drop 4 r)))"
  by pat_completeness auto
termination
  by (relation "measure (\<lambda>(_, r). length r)") auto

definition decodeStringLiteral :: "jsstr \<Rightarrow> expr_error + jsstr" where
  "decodeStringLiteral text = decode_loop [] (tl text)"

definition tryDecodeStringLiteral :: "jsstr \<Rightarrow> jsstr option" where
  "tryDecodeStringLiteral text = (case decodeStringLiteral text of Inl _ \<Rightarrow> None | Inr s \<Rightarrow> Some s)"

section \<open>Scanners\<close>

text \<open>
  Each scanner reads one token from the front of the source and returns its text and what is left.
\<close>

definition digit_run :: "jsstr \<Rightarrow> jsstr \<times> jsstr" where
  "digit_run s = (takeWhile is_digit s, dropWhile is_digit s)"

definition scan_fraction :: "jsstr \<Rightarrow> jsstr \<times> jsstr" where
  "scan_fraction s =
     (case s of c # r \<Rightarrow> if c = 46 then (let (ds, r') = digit_run r in (46 # ds, r')) else ([], s)
      | [] \<Rightarrow> ([], s))"

definition scan_exponent :: "jsstr \<Rightarrow> expr_error + jsstr \<times> jsstr" where
  "scan_exponent s =
     (case s of [] \<Rightarrow> Inr ([], s)
      | c # r \<Rightarrow>
        if c = 101 \<or> c = 69 then
          (let sg = (case r of x # _ \<Rightarrow> if x = 43 \<or> x = 45 then [x] else [] | [] \<Rightarrow> []);
               (ds, r') = digit_run (drop (length sg) r)
           in if ds = [] then Inl InvalidExponent else Inr (c # sg @ ds, r'))
        else Inr ([], s))"

definition scan_number :: "jsstr \<Rightarrow> expr_error + jsstr \<times> jsstr" where
  "scan_number s =
     (let (ip, r) = digit_run s; (fp, r') = scan_fraction r
      in andThen (scan_exponent r') (\<lambda>(ep, r''). Inr (ip @ fp @ ep, r'')))"

fun scan_string :: "bool \<Rightarrow> jsstr \<Rightarrow> jsstr \<times> jsstr \<times> bool" where
  "scan_string escaped [] = ([], [], False)"
| "scan_string escaped (c # r) =
     (if escaped then (let (t, r', isClosed) = scan_string False r in (c # t, r', isClosed))
      else if c = 92 then (let (t, r', isClosed) = scan_string True r in (c # t, r', isClosed))
      else if c = 34 then ([c], r, True)
      else (let (t, r', isClosed) = scan_string False r in (c # t, r', isClosed)))"

definition operator_pairs :: "jsstr list" where
  "operator_pairs = map js [''&&'', ''||'', ''=='', ''!='', ''<='', ''>='']"

definition operator_chars :: jsstr where
  "operator_chars = js ''+-*/%<>!?:(),''"

definition blank :: "code_unit \<Rightarrow> bool" where
  "blank c \<longleftrightarrow> c = 32 \<or> c = 9 \<or> c = 10 \<or> c = 13"

definition push :: "expr_token list \<Rightarrow> expr_token \<Rightarrow> expr_error + expr_token list" where
  "push tokens t =
     (if MAX_EXPR_TOKENS < int (length (tokens @ [t])) then Inl TooManyTokens else Inr (tokens @ [t]))"

definition mk_token :: "token_kind \<Rightarrow> jsstr \<Rightarrow> expr_value option \<Rightarrow> expr_token" where
  "mk_token k t v = \<lparr>kind = k, ttext = t, tvalue = v\<rparr>"

text \<open>
  One round of the loop of \<open>tokenizeExpr\<close> at a character that is not blank: the token read, and the
  source after it.
\<close>

definition next_token :: "nat \<Rightarrow> jsstr \<Rightarrow> expr_error + expr_token \<times> jsstr" where
  "next_token index s =
     (case s of [] \<Rightarrow> Inl TokenUndefined
      | c # r \<Rightarrow>
        if isDigit (Some c) \<or> (c = 46 \<and> isDigit (char_at r 0)) then
          andThen (scan_number s) (\<lambda>(text, rest).
            let value = to_number text
            in if \<not> is_finite value then Inl LiteralNotFinite
               else Inr (mk_token KNumber text (Some (VNum value)), rest))
        else if c = 34 then
          (let (t, rest, isClosed) = scan_string False r; text = c # t
           in if \<not> isClosed then Inl UnterminatedString
              else andThen (decodeStringLiteral text) (\<lambda>v.
                Inr (mk_token KString text (Some (VStr v)), rest)))
        else if isIdentifierStart (Some c) then
          (let text = c # takeWhile (\<lambda>x. isIdentifierPart (Some x)) r
           in Inr (mk_token KIdentifier text None, dropWhile (\<lambda>x. isIdentifierPart (Some x)) r))
        else if take 2 s \<in> set operator_pairs then
          Inr (mk_token KOperator (take 2 s) None, drop 2 s)
        else if c \<in> set operator_chars then Inr (mk_token KOperator [c] None, r)
        else Inl (UnsupportedCharacter index))"

section \<open>What a scanner reads and leaves is its input\<close>

lemma digit_run_append: "digit_run s = (a, b) \<Longrightarrow> s = a @ b"
  by (auto simp: digit_run_def)

lemma scan_fraction_append: "scan_fraction s = (a, b) \<Longrightarrow> s = a @ b"
  by (auto simp: scan_fraction_def digit_run_def split: list.splits if_splits prod.splits)

lemma scan_exponent_append: "scan_exponent s = Inr (a, b) \<Longrightarrow> s = a @ b"
  by (auto simp: scan_exponent_def digit_run_def Let_def split: list.splits if_splits)

lemma scan_number_append: "scan_number s = Inr (a, b) \<Longrightarrow> s = a @ b"
  by (auto simp: scan_number_def res_simps split: prod.splits
      dest!: digit_run_append scan_fraction_append scan_exponent_append)

lemma scan_string_append: "scan_string e s = (t, r, isClosed) \<Longrightarrow> s = t @ r"
  by (induction e s arbitrary: t r isClosed rule: scan_string.induct)
    (auto split: if_splits prod.splits)

lemma scan_number_nonempty:
  assumes "scan_number (c # r) = Inr (a, b)"
    and "isDigit (Some c) \<or> (c = 46 \<and> isDigit (char_at r 0))"
  shows "a \<noteq> []"
  using assms
  by (auto simp: scan_number_def digit_run_def scan_fraction_def isDigit_def is_digit_def res_simps
      split: prod.splits if_splits)

lemma operator_pairs_length: "p \<in> set operator_pairs \<Longrightarrow> length p = 2"
  by (auto simp: operator_pairs_def js_def)

lemma next_token_append:
  "next_token i s = Inr (t, rest) \<Longrightarrow> s = ttext t @ rest \<and> ttext t \<noteq> []"
  by (auto simp: next_token_def mk_token_def res_simps Let_def
      split: list.splits if_splits prod.splits
      dest: scan_number_append scan_number_nonempty scan_string_append operator_pairs_length)

lemma next_token_shrinks [parser_shrinks]:
  "next_token i s = Inr (t, rest) \<Longrightarrow> length rest < length s"
  by (drule next_token_append) (auto simp: neq_Nil_conv)

section \<open>The lexer\<close>

function tokenize_loop :: "nat \<Rightarrow> jsstr \<Rightarrow> expr_token list \<Rightarrow> expr_error + expr_token list" where
  "tokenize_loop index s tokens =
     (case s of [] \<Rightarrow> Inr tokens
      | c # r \<Rightarrow>
        if blank c then tokenize_loop (Suc index) r tokens
        else andThen (next_token index s) (\<lambda>tr.
               andThen (push tokens (fst tr)) (\<lambda>ts.
                 tokenize_loop (index + length (ttext (fst tr))) (snd tr) ts)))"
  by pat_completeness auto
termination
  by (relation "measure (\<lambda>(_, s, _). length s)")
    (auto dest: next_token_shrinks simp: prod_eq_iff)

declare tokenize_loop.simps [simp del]

definition tokenizeExpr :: "jsstr \<Rightarrow> expr_error + expr_token list" where
  "tokenizeExpr source =
     (if MAX_EXPR_LENGTH < int (length source) then Inl TooLong
      else andThen (tokenize_loop 0 source []) (\<lambda>tokens. Inr (tokens @ [eof_token])))"

section \<open>The tokens spell the source\<close>

text \<open>
  The reference the lexer is compared with: the source without the blanks that stand outside
  string literals. A literal runs to the next quote that no backslash escapes.
\<close>

fun squeeze :: "jsstr \<Rightarrow> jsstr" and squeeze_literal :: "bool \<Rightarrow> jsstr \<Rightarrow> jsstr" where
  "squeeze [] = []"
| "squeeze (c # r) =
     (if blank c then squeeze r
      else if c = 34 then c # squeeze_literal False r else c # squeeze r)"
| "squeeze_literal escaped [] = []"
| "squeeze_literal escaped (c # r) =
     c # (if escaped then squeeze_literal False r
          else if c = 92 then squeeze_literal True r
          else if c = 34 then squeeze r else squeeze_literal False r)"

definition plain :: "code_unit \<Rightarrow> bool" where
  "plain c \<longleftrightarrow> \<not> blank c \<and> c \<noteq> 34"

lemma plain_digit: "is_digit c \<Longrightarrow> plain c"
  by (auto simp: plain_def blank_def is_digit_def)

lemma plain_identifier: "isIdentifierPart (Some c) \<Longrightarrow> plain c"
  by (auto simp: plain_def blank_def isIdentifierPart_def isIdentifierStart_def isDigit_def)

lemma plain_operator_chars: "c \<in> set operator_chars \<Longrightarrow> plain c"
  by (auto simp: operator_chars_def js_def plain_def blank_def)

lemma plain_operator_pairs: "p \<in> set operator_pairs \<Longrightarrow> list_all plain p"
  by (auto simp: operator_pairs_def js_def plain_def blank_def)

lemma squeeze_plain: "list_all plain t \<Longrightarrow> squeeze (t @ r) = t @ squeeze r"
  by (induction t) (auto simp: plain_def)

lemma squeeze_scan_string:
  "scan_string e s = (t, r, True) \<Longrightarrow> squeeze_literal e s = t @ squeeze r"
  by (induction e s arbitrary: t r rule: scan_string.induct) (auto split: if_splits prod.splits)

lemma digit_run_plain: "digit_run s = (a, b) \<Longrightarrow> list_all plain a"
  by (auto simp: digit_run_def list_all_iff dest!: set_takeWhileD intro: plain_digit)

lemma scan_fraction_plain: "scan_fraction s = (a, b) \<Longrightarrow> list_all plain a"
  by (auto simp: scan_fraction_def plain_def blank_def split: list.splits if_splits prod.splits
      dest: digit_run_plain)

lemma scan_exponent_plain: "scan_exponent s = Inr (a, b) \<Longrightarrow> list_all plain a"
  by (auto simp: scan_exponent_def Let_def plain_def blank_def
      split: list.splits if_splits prod.splits dest!: digit_run_plain)

lemma scan_number_plain: "scan_number s = Inr (a, b) \<Longrightarrow> list_all plain a"
  by (auto simp: scan_number_def res_simps split: prod.splits
      dest!: digit_run_plain scan_fraction_plain scan_exponent_plain)

lemma takeWhile_identifier_plain:
  "list_all plain (takeWhile (\<lambda>x. isIdentifierPart (Some x)) r)"
  by (auto simp: list_all_iff dest!: set_takeWhileD intro: plain_identifier)

lemma identifier_start_plain: "isIdentifierStart (Some c) \<Longrightarrow> plain c"
  by (auto intro: plain_identifier simp: isIdentifierPart_def)

lemma squeeze_next_token:
  assumes "next_token i (c # r) = Inr (t, rest)" and "\<not> blank c"
  shows "squeeze (c # r) = ttext t @ squeeze rest"
proof (cases "c = 34")
  case True
  with assms(1) obtain u where "scan_string False r = (u, rest, True)" and "ttext t = c # u"
    by (auto simp: next_token_def isDigit_def mk_token_def Let_def res_simps
        split: prod.splits if_splits)
  with True assms(2) show ?thesis by (simp add: squeeze_scan_string)
next
  case False
  with assms have "list_all plain (ttext t)"
    by (auto simp: next_token_def mk_token_def Let_def res_simps
        split: prod.splits if_splits
        intro: takeWhile_identifier_plain plain_operator_chars identifier_start_plain
        dest: scan_number_plain plain_operator_pairs)
  moreover have "c # r = ttext t @ rest"
    using assms(1) next_token_append by blast
  ultimately show ?thesis by (metis squeeze_plain)
qed

lemma tokenize_loop_squeeze:
  "tokenize_loop i s tokens = Inr ts \<Longrightarrow>
   \<exists>us. ts = tokens @ us \<and> concat (map ttext us) = squeeze s \<and> (\<forall>t \<in> set us. ttext t \<noteq> [])"
proof (induction i s tokens arbitrary: ts rule: tokenize_loop.induct)
  case (1 i s tokens)
  show ?case
  proof (cases s)
    case Nil
    with "1.prems" show ?thesis by (simp add: tokenize_loop.simps)
  next
    case (Cons c r)
    show ?thesis
    proof (cases "blank c")
      case True
      with Cons "1.prems" "1.IH"(1) [OF Cons True] show ?thesis
        by (simp add: tokenize_loop.simps [of i "c # r"])
    next
      case False
      with "1.prems" Cons obtain t rest ts1 where
        nt: "next_token i s = Inr (t, rest)" and ps: "push tokens t = Inr ts1"
        and rec: "tokenize_loop (i + length (ttext t)) rest ts1 = Inr ts"
        by (auto simp: tokenize_loop.simps [of i "c # r"] res_simps)
      from ps have ts1: "ts1 = tokens @ [t]"
        by (auto simp: push_def split: if_splits)
      have "\<exists>us. ts = ts1 @ us \<and> concat (map ttext us) = squeeze rest \<and> (\<forall>t \<in> set us. ttext t \<noteq> [])"
        using "1.IH"(2) [OF Cons False nt] ps rec by simp
      then obtain us where
        "ts = ts1 @ us" and "concat (map ttext us) = squeeze rest" and "\<forall>t \<in> set us. ttext t \<noteq> []"
        by blast
      with ts1 Cons False nt squeeze_next_token [of i c r t rest] next_token_append [OF nt]
      show ?thesis by (intro exI [of _ "t # us"]) auto
    qed
  qed
qed

lemma tokenize_loop_length:
  "tokenize_loop i s tokens = Inr ts \<Longrightarrow> int (length tokens) \<le> MAX_EXPR_TOKENS \<Longrightarrow>
   int (length ts) \<le> MAX_EXPR_TOKENS"
proof (induction i s tokens arbitrary: ts rule: tokenize_loop.induct)
  case (1 i s tokens)
  then show ?case
    by (subst (asm) (3) tokenize_loop.simps)
      (fastforce simp: push_def res_simps split: list.splits if_splits)
qed

lemma decode_loop_errors:
  "decode_loop acc s = Inl e \<Longrightarrow> e \<in> {ControlCharacter, InvalidEscape, InvalidUnicodeEscape}"
  by (induction acc s rule: decode_loop.induct) (auto split: if_splits option.splits)

lemma scan_number_errors: "scan_number s = Inl e \<Longrightarrow> e = InvalidExponent"
  by (auto simp: scan_number_def scan_exponent_def Let_def res_simps
      split: prod.splits list.splits if_splits)

lemma next_token_errors:
  "next_token i (c # r) = Inl e \<Longrightarrow> e \<noteq> TokenUndefined \<and> e \<noteq> OutOfFuel \<and> e \<noteq> TooComplex"
  by (auto simp: next_token_def Let_def res_simps decodeStringLiteral_def
      split: prod.splits if_splits dest!: scan_number_errors decode_loop_errors)

lemma tokenize_loop_errors:
  "tokenize_loop i s tokens = Inl e \<Longrightarrow> e \<noteq> TokenUndefined \<and> e \<noteq> OutOfFuel \<and> e \<noteq> TooComplex"
proof (induction i s tokens rule: tokenize_loop.induct)
  case (1 i s tokens)
  then show ?case
    by (subst (asm) (3) tokenize_loop.simps)
      (fastforce simp: push_def res_simps split: list.splits if_splits dest: next_token_errors)
qed

section \<open>Properties\<close>

definition the_tokens :: "jsstr \<Rightarrow> expr_token list" where
  "the_tokens s = (case tokenizeExpr s of Inl _ \<Rightarrow> [] | Inr ts \<Rightarrow> ts)"

text \<open>Tokenizing loses nothing and invents nothing: the texts of the tokens, put together, are the
  source without the blanks that stand outside string literals, and no token but the final one is
  empty. The number of tokens is within the limit.\<close>

lemma tokenizeExpr_lossless:
  assumes "tokenizeExpr s = Inr ts"
  shows "\<exists>us. ts = us @ [eof_token] \<and> concat (map ttext us) = squeeze s \<and>
    (\<forall>t \<in> set us. ttext t \<noteq> []) \<and> int (length us) \<le> MAX_EXPR_TOKENS"
proof -
  from assms obtain us where us: "tokenize_loop 0 s [] = Inr us" and ts: "ts = us @ [eof_token]"
    by (auto simp: tokenizeExpr_def res_simps split: if_splits)
  from tokenize_loop_squeeze [OF us] tokenize_loop_length [OF us] show ?thesis
    by (auto simp: ts MAX_EXPR_TOKENS_def)
qed

end
