(* ===== verification/BillingParser.thy ===== *)
theory BillingParser
  imports BillingLexer
begin

text \<open>
  The parser of billing expressions, the class \<open>RestrictedExprParser\<close> of
  \<open>src/apps/web/src/features/pricing/lib/billing-expr.ts\<close>. The state of the parser is the list of
  tokens from \<open>this.index\<close> on; a method takes it and returns the node with the tokens left.

  A method of the class that calls \<open>parseConditional\<close> takes it as its argument \<open>cond\<close>, so that the
  recursion is that of \<open>parseConditional\<close> alone. Its fuel is two more than \<open>MAX_EXPR_DEPTH\<close>, since the
  code refuses a depth above that; the loop of \<open>parseBinary\<close> consumes a token in each round, and its
  fuel is one more than the number of tokens left. Proved: on tokens that end with the end marker no
  method runs out of fuel or reads past the end, and a node is no larger than the tokens it was read
  from.
\<close>

section \<open>Nodes and parser steps\<close>

datatype expr_node =
    Literal expr_value
  | Identifier jsstr
  | Unary jsstr expr_node
  | Binary jsstr expr_node expr_node
  | Conditional expr_node expr_node expr_node
  | Call jsstr "expr_node list"

type_synonym 'a parser = "expr_token list \<Rightarrow> expr_error + 'a \<times> expr_token list"

definition peek :: "expr_token list \<Rightarrow> expr_error + expr_token" where
  "peek ts = (case ts of [] \<Rightarrow> Inl TokenUndefined | t # _ \<Rightarrow> Inr t)"

definition take_token :: "jsstr option \<Rightarrow> expr_token parser" where
  "take_token text ts =
     andThen (peek ts) (\<lambda>token.
       case text of None \<Rightarrow> Inr (token, tl ts)
       | Some s \<Rightarrow> if ttext token \<noteq> s then Inl (Expected s) else Inr (token, tl ts))"

section \<open>Binary operators\<close>

fun binary_loop :: "nat \<Rightarrow> expr_node parser \<Rightarrow> jsstr list \<Rightarrow> expr_node \<Rightarrow> expr_node parser" where
  "binary_loop 0 next operators node ts = Inl OutOfFuel"
| "binary_loop (Suc fuel) next operators node ts =
     andThen (peek ts) (\<lambda>t.
       if ttext t \<in> set operators then
         andThen (take_token None ts) (\<lambda>(op, ts1).
           andThen (next ts1) (\<lambda>(right, ts2).
             binary_loop fuel next operators (Binary (ttext op) node right) ts2))
       else Inr (node, ts))"

definition parseBinary :: "nat \<Rightarrow> expr_node parser \<Rightarrow> jsstr list \<Rightarrow> expr_node parser" where
  "parseBinary depth next operators ts =
     (if MAX_EXPR_DEPTH < depth then Inl NestingTooDeep
      else andThen (next ts) (\<lambda>(node, ts1).
             binary_loop (Suc (length ts1)) next operators node ts1))"

section \<open>Primary and unary expressions\<close>

text \<open>The loop over call arguments; \<open>slots\<close> is \<open>MAX_CALL_ARGUMENTS - args.length\<close>.\<close>

fun args_loop :: "nat \<Rightarrow> expr_node parser \<Rightarrow> expr_node list \<Rightarrow> expr_node list parser" where
  "args_loop 0 cond args ts = Inl TooManyArguments"
| "args_loop (Suc slots) cond args ts =
     andThen (cond ts) (\<lambda>(arg, ts1).
       andThen (peek ts1) (\<lambda>t.
         if ttext t \<noteq> js '','' then Inr (args @ [arg], ts1)
         else andThen (take_token (Some (js '','')) ts1) (\<lambda>(_, ts2).
                args_loop slots cond (args @ [arg]) ts2)))"

text \<open>The arguments of a call and its closing parenthesis, after the opening one.\<close>

definition call_arguments :: "expr_node parser \<Rightarrow> expr_node list parser" where
  "call_arguments cond ts =
     andThen (peek ts) (\<lambda>t.
       andThen (if ttext t \<noteq> js '')'' then args_loop MAX_CALL_ARGUMENTS cond [] ts else Inr ([], ts))
         (\<lambda>(args, ts1). andThen (take_token (Some (js '')'')) ts1) (\<lambda>(_, ts2). Inr (args, ts2))))"

definition parsePrimary :: "(nat \<Rightarrow> expr_node parser) \<Rightarrow> nat \<Rightarrow> expr_node parser" where
  "parsePrimary cond depth ts =
     andThen (peek ts) (\<lambda>token.
       if kind token = KNumber \<or> kind token = KString then
         andThen (take_token None ts) (\<lambda>(_, ts1).
           Inr (Literal (case tvalue token of Some v \<Rightarrow> v | None \<Rightarrow> VBool False), ts1))
       else if kind token = KIdentifier then
         andThen (take_token None ts) (\<lambda>(_, ts1).
           if ttext token = js ''true'' \<or> ttext token = js ''false''
           then Inr (Literal (VBool (ttext token = js ''true'')), ts1)
           else andThen (peek ts1) (\<lambda>p.
             if ttext p \<noteq> js ''('' then Inr (Identifier (ttext token), ts1)
             else andThen (take_token (Some (js ''('')) ts1) (\<lambda>(_, ts2).
               andThen (call_arguments (cond (Suc depth)) ts2) (\<lambda>(args, ts3).
                 Inr (Call (ttext token) args, ts3)))))
       else if ttext token = js ''('' then
         andThen (take_token (Some (js ''('')) ts) (\<lambda>(_, ts1).
           andThen (cond (Suc depth) ts1) (\<lambda>(node, ts2).
             andThen (take_token (Some (js '')'')) ts2) (\<lambda>(_, ts3). Inr (node, ts3))))
       else Inl (UnexpectedToken (or_end (ttext token))))"

definition unary_operators :: "jsstr list" where
  "unary_operators = [js ''+'', js ''-'', js ''!'']"

fun unary_loop :: "jsstr list \<Rightarrow> jsstr list parser" where
  "unary_loop operators [] = Inl TokenUndefined"
| "unary_loop operators (t # ts) =
     (if ttext t \<in> set unary_operators then
        (if MAX_EXPR_DEPTH \<le> length operators then Inl NestingTooDeep
         else unary_loop (operators @ [ttext t]) ts)
      else Inr (operators, t # ts))"

text \<open>The operators are popped from the end: the last one read is the innermost.\<close>

definition parseUnary :: "(nat \<Rightarrow> expr_node parser) \<Rightarrow> nat \<Rightarrow> expr_node parser" where
  "parseUnary cond depth ts =
     andThen (unary_loop [] ts) (\<lambda>(operators, ts1).
       andThen (parsePrimary cond depth ts1) (\<lambda>(node, ts2).
         Inr (foldr Unary operators node, ts2)))"

section \<open>The levels of precedence\<close>

definition parseMultiplicative :: "(nat \<Rightarrow> expr_node parser) \<Rightarrow> nat \<Rightarrow> expr_node parser" where
  "parseMultiplicative cond depth =
     parseBinary depth (parseUnary cond depth) [js ''*'', js ''/'', js ''%'']"

definition parseAdditive :: "(nat \<Rightarrow> expr_node parser) \<Rightarrow> nat \<Rightarrow> expr_node parser" where
  "parseAdditive cond depth =
     parseBinary depth (parseMultiplicative cond depth) [js ''+'', js ''-'']"

definition parseComparison :: "(nat \<Rightarrow> expr_node parser) \<Rightarrow> nat \<Rightarrow> expr_node parser" where
  "parseComparison cond depth =
     parseBinary depth (parseAdditive cond depth) [js ''<'', js ''<='', js ''>'', js ''>='']"

definition parseEquality :: "(nat \<Rightarrow> expr_node parser) \<Rightarrow> nat \<Rightarrow> expr_node parser" where
  "parseEquality cond depth =
     parseBinary depth (parseComparison cond depth) [js ''=='', js ''!='']"

definition parseAnd :: "(nat \<Rightarrow> expr_node parser) \<Rightarrow> nat \<Rightarrow> expr_node parser" where
  "parseAnd cond depth = parseBinary depth (parseEquality cond depth) [js ''&&'']"

definition parseOr :: "(nat \<Rightarrow> expr_node parser) \<Rightarrow> nat \<Rightarrow> expr_node parser" where
  "parseOr cond depth = parseBinary depth (parseAnd cond depth) [js ''||'']"

fun parseConditional :: "nat \<Rightarrow> nat \<Rightarrow> expr_node parser" where
  "parseConditional 0 depth ts = Inl OutOfFuel"
| "parseConditional (Suc fuel) depth ts =
     (if MAX_EXPR_DEPTH < depth then Inl NestingTooDeep
      else andThen (parseOr (parseConditional fuel) depth ts) (\<lambda>(test, ts1).
        andThen (peek ts1) (\<lambda>t.
          if ttext t \<noteq> js ''?'' then Inr (test, ts1)
          else andThen (take_token (Some (js ''?'')) ts1) (\<lambda>(_, ts2).
            andThen (parseConditional fuel (Suc depth) ts2) (\<lambda>(consequent, ts3).
              andThen (take_token (Some (js '':'')) ts3) (\<lambda>(_, ts4).
                andThen (parseConditional fuel (Suc depth) ts4) (\<lambda>(alternate, ts5).
                  Inr (Conditional test consequent alternate, ts5))))))))"

definition parser_fuel :: nat where
  "parser_fuel = MAX_EXPR_DEPTH + 2"

definition parse :: "expr_token list \<Rightarrow> expr_error + expr_node" where
  "parse tokens =
     andThen (parseConditional parser_fuel 0 tokens) (\<lambda>(node, ts).
       andThen (peek ts) (\<lambda>t.
         if kind t \<noteq> KEof then Inl (UnexpectedToken (ttext t)) else Inr node))"

definition parseRestrictedExpr :: "jsstr \<Rightarrow> expr_error + expr_node" where
  "parseRestrictedExpr exprStr =
     (if MAX_EXPR_LENGTH < int (length exprStr) then Inl TooLong
      else andThen (tokenizeExpr (snd (stripExprVersion (trim exprStr)))) parse)"

section \<open>The contract of a parser\<close>

text \<open>The number of nodes of an expression.\<close>

fun esize :: "expr_node \<Rightarrow> nat" where
  "esize (Literal v) = 1"
| "esize (Identifier x) = 1"
| "esize (Unary op a) = Suc (esize a)"
| "esize (Binary op a b) = Suc (esize a + esize b)"
| "esize (Conditional a b c) = Suc (esize a + esize b + esize c)"
| "esize (Call f args) = Suc (sum_list (map esize args))"

text \<open>What every state of the parser is: the end marker is the last token and is not read over.\<close>

definition ends_in_eof :: "expr_token list \<Rightarrow> bool" where
  "ends_in_eof ts \<longleftrightarrow> ts \<noteq> [] \<and> last ts = eof_token"

text \<open>
  The interface between the levels of the parser: a method keeps the end marker, reads at least as
  many tokens as its node has nodes, and fails only with exceptions of the code.
\<close>

locale sub_parser =
  fixes next_level :: "expr_node parser"
  assumes keeps: "ends_in_eof ts \<Longrightarrow> next_level ts = Inr (n, ts') \<Longrightarrow>
                    ends_in_eof ts' \<and> esize n + length ts' \<le> length ts"
    and fails: "ends_in_eof ts \<Longrightarrow> next_level ts = Inl e \<Longrightarrow> e \<noteq> TokenUndefined \<and> e \<noteq> OutOfFuel \<and> e \<noteq> TooComplex"

lemma ends_in_eof_not_Nil [simp]: "\<not> ends_in_eof []"
  by (simp add: ends_in_eof_def)

lemma ends_in_eof_Cons: "ends_in_eof (t # ts) \<Longrightarrow> t \<noteq> eof_token \<Longrightarrow> ends_in_eof ts"
  by (auto simp: ends_in_eof_def split: if_splits)

lemma ends_in_eof_text: "ends_in_eof (t # ts) \<Longrightarrow> ttext t \<noteq> [] \<Longrightarrow> ends_in_eof ts"
  by (rule ends_in_eof_Cons) (auto simp: eof_token_def)

lemma ends_in_eof_js: "ends_in_eof (t # ts) \<Longrightarrow> ttext t = js s \<Longrightarrow> s \<noteq> [] \<Longrightarrow> ends_in_eof ts"
  by (rule ends_in_eof_text [of t]) simp_all

lemma ends_in_eof_kind: "ends_in_eof (t # ts) \<Longrightarrow> kind t \<noteq> KEof \<Longrightarrow> ends_in_eof ts"
  by (rule ends_in_eof_Cons) (auto simp: eof_token_def)

lemma peek_eof: "ends_in_eof ts \<Longrightarrow> \<exists>t ts'. ts = t # ts' \<and> peek ts = Inr t"
  by (cases ts) (simp_all add: peek_def)

lemma peek_Cons [simp]: "peek (t # ts) = Inr t"
  by (simp add: peek_def)

lemma peek_Nil [simp]: "peek [] = Inl TokenUndefined"
  by (simp add: peek_def)

lemma take_token_None [simp]: "take_token None (t # ts) = Inr (t, ts)"
  by (simp add: take_token_def)

lemma take_token_Some [simp]:
  "take_token (Some s) (t # ts) = (if ttext t = s then Inr (t, ts) else Inl (Expected s))"
  by (simp add: take_token_def)

lemma take_text_eof:
  "ends_in_eof ts \<Longrightarrow> take_token (Some s) ts = Inr (t, ts') \<Longrightarrow> s \<noteq> [] \<Longrightarrow>
   ends_in_eof ts' \<and> length ts = Suc (length ts')"
  by (cases ts) (auto split: if_splits intro: ends_in_eof_text)

lemma take_text_fails:
  "ends_in_eof ts \<Longrightarrow> take_token (Some s) ts = Inl e \<Longrightarrow> e = Expected s"
  by (cases ts) (auto split: if_splits)

context sub_parser
begin

lemma binary_loop_keeps:
  assumes "[] \<notin> set ops"
  shows "ends_in_eof ts \<Longrightarrow> binary_loop fuel next_level ops node ts = Inr (n, ts') \<Longrightarrow>
         ends_in_eof ts' \<and> esize n + length ts' \<le> esize node + length ts"
proof (induction fuel arbitrary: node ts)
  case (Suc fuel)
  then obtain t ts0 where ts: "ts = t # ts0" using peek_eof by blast
  show ?case
  proof (cases "ttext t \<in> set ops")
    case True
    with Suc.prems ts obtain right ts2 where
      r: "next_level ts0 = Inr (right, ts2)"
      and rec: "binary_loop fuel next_level ops (Binary (ttext t) node right) ts2 = Inr (n, ts')"
      by (auto simp: res_simps)
    have "ends_in_eof ts0"
      using Suc.prems(1) ts True assms by (metis ends_in_eof_text)
    then have "ends_in_eof ts2 \<and> esize right + length ts2 \<le> length ts0"
      using r by (rule keeps)
    then show ?thesis
      using Suc.IH [OF _ rec] ts by fastforce
  next
    case False
    with Suc.prems ts show ?thesis by simp
  qed
qed simp

lemma binary_loop_fails:
  assumes "[] \<notin> set ops"
  shows "ends_in_eof ts \<Longrightarrow> length ts < fuel \<Longrightarrow> binary_loop fuel next_level ops node ts = Inl e \<Longrightarrow>
         e \<noteq> TokenUndefined \<and> e \<noteq> OutOfFuel \<and> e \<noteq> TooComplex"
proof (induction fuel arbitrary: node ts)
  case (Suc fuel)
  then obtain t ts0 where ts: "ts = t # ts0" using peek_eof by blast
  show ?case
  proof (cases "ttext t \<in> set ops")
    case True
    have eof: "ends_in_eof ts0"
      using Suc.prems(1) ts True assms by (metis ends_in_eof_text)
    from True Suc.prems ts consider "next_level ts0 = Inl e"
      | right ts2 where "next_level ts0 = Inr (right, ts2)"
        and "binary_loop fuel next_level ops (Binary (ttext t) node right) ts2 = Inl e"
      by (auto simp: res_simps)
    then show ?thesis
    proof cases
      case 1
      with eof show ?thesis by (rule fails)
    next
      case 2
      with keeps [OF eof] have "ends_in_eof ts2" and "length ts2 \<le> length ts0" by fastforce+
      with 2 Suc.IH [of ts2] Suc.prems(2) ts show ?thesis by simp
    qed
  next
    case False
    with Suc.prems ts show ?thesis by simp
  qed
qed simp

lemma parseBinary_sub_parser:
  assumes "[] \<notin> set ops"
  shows "sub_parser (parseBinary depth next_level ops)"
proof
  fix ts n ts'
  assume eof: "ends_in_eof ts" and "parseBinary depth next_level ops ts = Inr (n, ts')"
  then obtain node ts1 where "next_level ts = Inr (node, ts1)"
      and "binary_loop (Suc (length ts1)) next_level ops node ts1 = Inr (n, ts')"
    by (auto simp: parseBinary_def res_simps split: if_splits)
  then show "ends_in_eof ts' \<and> esize n + length ts' \<le> length ts"
    using keeps [OF eof, of node ts1] binary_loop_keeps [OF assms, of ts1 "Suc (length ts1)" node n ts']
    by (auto simp del: binary_loop.simps)
next
  fix ts e
  assume eof: "ends_in_eof ts" and e: "parseBinary depth next_level ops ts = Inl e"
  show "e \<noteq> TokenUndefined \<and> e \<noteq> OutOfFuel \<and> e \<noteq> TooComplex"
  proof (cases "next_level ts")
    case (Inl e')
    with e fails [OF eof, of e'] show ?thesis by (auto simp: parseBinary_def split: if_splits)
  next
    case (Inr r)
    then obtain node ts1 where r: "next_level ts = Inr (node, ts1)" by (cases r) auto
    with keeps [OF eof] have "ends_in_eof ts1" by blast
    with e r binary_loop_fails [OF assms, of ts1 "Suc (length ts1)" node e] show ?thesis
      by (auto simp: parseBinary_def simp del: binary_loop.simps split: if_splits)
  qed
qed

lemma args_loop_keeps:
  "ends_in_eof ts \<Longrightarrow> args_loop slots next_level args ts = Inr (args', ts') \<Longrightarrow>
   ends_in_eof ts' \<and> sum_list (map esize args') + length ts' \<le> sum_list (map esize args) + length ts"
proof (induction slots arbitrary: args ts)
  case (Suc slots)
  then obtain arg ts1 where arg: "next_level ts = Inr (arg, ts1)"
    by (auto simp: res_simps)
  with keeps [OF Suc.prems(1)] have eof: "ends_in_eof ts1" and le: "esize arg + length ts1 \<le> length ts"
    by auto
  from eof obtain t ts2 where ts1: "ts1 = t # ts2" using peek_eof by blast
  show ?case
  proof (cases "ttext t = js '',''")
    case True
    with eof ts1 have "ends_in_eof ts2" by (auto dest: ends_in_eof_js)
    with Suc.IH [of ts2 "args @ [arg]"] Suc.prems(2) arg ts1 True le show ?thesis by auto
  next
    case False
    with Suc.prems(2) arg ts1 eof le show ?thesis by auto
  qed
qed simp

lemma args_loop_fails:
  "ends_in_eof ts \<Longrightarrow> args_loop slots next_level args ts = Inl e \<Longrightarrow>
   e \<noteq> TokenUndefined \<and> e \<noteq> OutOfFuel \<and> e \<noteq> TooComplex"
proof (induction slots arbitrary: args ts)
  case (Suc slots)
  show ?case
  proof (cases "next_level ts")
    case (Inl e')
    with Suc.prems show ?thesis using fails by auto
  next
    case (Inr r)
    then obtain arg ts1 where arg: "next_level ts = Inr (arg, ts1)" by (cases r) auto
    with keeps [OF Suc.prems(1)] have eof: "ends_in_eof ts1" by auto
    then obtain t ts2 where ts1: "ts1 = t # ts2" using peek_eof by blast
    show ?thesis
    proof (cases "ttext t = js '',''")
      case True
      with eof ts1 have "ends_in_eof ts2" by (auto dest: ends_in_eof_js)
      with Suc.IH [of ts2 "args @ [arg]"] Suc.prems(2) arg ts1 True show ?thesis by auto
    next
      case False
      with Suc.prems(2) arg ts1 show ?thesis by auto
    qed
  qed
qed simp

lemma call_arguments_keeps:
  assumes "ends_in_eof ts" and "call_arguments next_level ts = Inr (args, ts')"
  shows "ends_in_eof ts' \<and> sum_list (map esize args) + length ts' < length ts"
  using assms args_loop_keeps [OF assms(1), of MAX_CALL_ARGUMENTS "[]"] peek_eof [OF assms(1)]
  by (fastforce simp: call_arguments_def res_simps split: if_splits dest: take_text_eof)

lemma call_arguments_fails:
  assumes "ends_in_eof ts" and "call_arguments next_level ts = Inl e"
  shows "e \<noteq> TokenUndefined \<and> e \<noteq> OutOfFuel \<and> e \<noteq> TooComplex"
  using assms args_loop_keeps [OF assms(1), of MAX_CALL_ARGUMENTS "[]"] peek_eof [OF assms(1)]
    args_loop_fails [OF assms(1), of MAX_CALL_ARGUMENTS "[]"]
  by (fastforce simp: call_arguments_def res_simps split: if_splits dest: take_text_fails)

end

section \<open>Every level meets the contract\<close>

lemma parsePrimary_sub_parser:
  assumes p: "sub_parser (cond (Suc depth))"
  shows "sub_parser (parsePrimary cond depth)"
proof
  fix ts n ts'
  assume eof: "ends_in_eof ts" and r: "parsePrimary cond depth ts = Inr (n, ts')"
  from eof obtain t ts0 where ts: "ts = t # ts0" using peek_eof by blast
  have eof0: "ends_in_eof ts0" if "kind t \<noteq> KEof \<or> ttext t \<noteq> []"
    using eof ts that ends_in_eof_kind ends_in_eof_text by blast
  show "ends_in_eof ts' \<and> esize n + length ts' \<le> length ts"
  proof (cases "kind t = KNumber \<or> kind t = KString")
    case True
    with r ts eof0 show ?thesis by (auto simp: parsePrimary_def)
  next
    case nlit: False
    show ?thesis
    proof (cases "kind t = KIdentifier")
      case True
      then have "ends_in_eof ts0" using eof0 by simp
      moreover from this obtain t1 ts1 where "ts0 = t1 # ts1" using peek_eof by blast
      ultimately show ?thesis
        using r ts True
        by (auto simp: parsePrimary_def res_simps split: if_splits
            dest: ends_in_eof_js dest!: sub_parser.call_arguments_keeps [OF p, rotated])
    next
      case False
      with nlit r ts obtain t2 ts2 where "ttext t = js ''(''"
          and n: "cond (Suc depth) ts0 = Inr (n, ts2)" and "take_token (Some (js '')'')) ts2 = Inr (t2, ts')"
        by (auto simp: parsePrimary_def res_simps split: if_splits)
      moreover from this eof0 have "ends_in_eof ts0" by simp
      ultimately show ?thesis
        using sub_parser.keeps [OF p _ n] take_text_eof [of ts2 "js '')''" t2 ts'] ts by auto
    qed
  qed
next
  fix ts e
  assume eof: "ends_in_eof ts" and r: "parsePrimary cond depth ts = Inl e"
  from eof obtain t ts0 where ts: "ts = t # ts0" using peek_eof by blast
  have eof0: "ends_in_eof ts0" if "kind t \<noteq> KEof \<or> ttext t \<noteq> []"
    using eof ts that ends_in_eof_kind ends_in_eof_text by blast
  show "e \<noteq> TokenUndefined \<and> e \<noteq> OutOfFuel \<and> e \<noteq> TooComplex"
  proof (cases "kind t = KIdentifier")
    case True
    then have "ends_in_eof ts0" using eof0 by simp
    moreover from this obtain t1 ts1 where "ts0 = t1 # ts1" using peek_eof by blast
    ultimately show ?thesis
      using r ts True
      by (auto simp: parsePrimary_def res_simps split: if_splits
          dest: ends_in_eof_js dest!: sub_parser.call_arguments_fails [OF p, rotated])
  next
    case False
    show ?thesis
    proof (cases "ttext t = js ''(''")
      case True
      then have "ends_in_eof ts0" using eof0 by simp
      with False True r ts sub_parser.keeps [OF p, of ts0] sub_parser.fails [OF p, of ts0 e]
      show ?thesis
        by (auto simp: parsePrimary_def res_simps split: if_splits dest: take_text_fails)
    next
      case False
      with r ts \<open>kind t \<noteq> KIdentifier\<close> show ?thesis
        by (auto simp: parsePrimary_def split: if_splits)
    qed
  qed
qed

lemma unary_loop_keeps:
  "ends_in_eof ts \<Longrightarrow> unary_loop ops ts = Inr (ops', ts') \<Longrightarrow>
   ends_in_eof ts' \<and> length ops' + length ts' = length ops + length ts"
  by (induction ops ts rule: unary_loop.induct)
    (auto simp: unary_operators_def split: if_splits dest: ends_in_eof_js)

lemma unary_loop_fails:
  "ends_in_eof ts \<Longrightarrow> unary_loop ops ts = Inl e \<Longrightarrow> e = NestingTooDeep"
  by (induction ops ts rule: unary_loop.induct)
    (auto simp: unary_operators_def split: if_splits dest: ends_in_eof_js)

lemma esize_foldr_Unary: "esize (foldr Unary ops n) = length ops + esize n"
  by (induction ops) auto

lemma parseUnary_sub_parser:
  assumes "sub_parser (cond (Suc depth))"
  shows "sub_parser (parseUnary cond depth)"
proof -
  have p: "sub_parser (parsePrimary cond depth)"
    using assms by (rule parsePrimary_sub_parser)
  show ?thesis
  proof
    fix ts n ts'
    assume eof: "ends_in_eof ts" and "parseUnary cond depth ts = Inr (n, ts')"
    then obtain ops ts1 node where o: "unary_loop [] ts = Inr (ops, ts1)"
        and n: "parsePrimary cond depth ts1 = Inr (node, ts')" and "n = foldr Unary ops node"
      by (auto simp: parseUnary_def res_simps)
    with unary_loop_keeps [OF eof o] sub_parser.keeps [OF p _ n]
    show "ends_in_eof ts' \<and> esize n + length ts' \<le> length ts"
      by (simp add: esize_foldr_Unary)
  next
    fix ts e
    assume eof: "ends_in_eof ts" and r: "parseUnary cond depth ts = Inl e"
    show "e \<noteq> TokenUndefined \<and> e \<noteq> OutOfFuel \<and> e \<noteq> TooComplex"
    proof (cases "unary_loop [] ts")
      case (Inl e')
      with r unary_loop_fails [OF eof Inl] show ?thesis by (simp add: parseUnary_def)
    next
      case (Inr x)
      then obtain ops ts1 where o: "unary_loop [] ts = Inr (ops, ts1)" by (cases x) auto
      with r have "parsePrimary cond depth ts1 = Inl e" by (auto simp: parseUnary_def res_simps)
      with unary_loop_keeps [OF eof o] sub_parser.fails [OF p] show ?thesis by blast
    qed
  qed
qed

lemmas parse_level_defs =
  parseMultiplicative_def parseAdditive_def parseComparison_def parseEquality_def
  parseAnd_def parseOr_def

lemma parseOr_sub_parser:
  assumes "sub_parser (cond (Suc depth))"
  shows "sub_parser (parseOr cond depth)"
  unfolding parse_level_defs
  by (intro sub_parser.parseBinary_sub_parser parseUnary_sub_parser assms) simp_all

lemma parseConditional_sub_parser:
  "depth \<le> Suc MAX_EXPR_DEPTH \<Longrightarrow> MAX_EXPR_DEPTH + 2 \<le> fuel + depth \<Longrightarrow>
   sub_parser (parseConditional fuel depth)"
proof (induction fuel arbitrary: depth)
  case (Suc fuel)
  show ?case
  proof (cases "MAX_EXPR_DEPTH < depth")
    case True
    then show ?thesis by unfold_locales auto
  next
    case False
    then have c: "sub_parser (parseConditional fuel (Suc depth))"
      using Suc by simp
    then have o: "sub_parser (parseOr (parseConditional fuel) depth)"
      by (rule parseOr_sub_parser)
    show ?thesis
    proof
      fix ts n ts'
      assume eof: "ends_in_eof ts" and r: "parseConditional (Suc fuel) depth ts = Inr (n, ts')"
      then obtain test ts1 where t: "parseOr (parseConditional fuel) depth ts = Inr (test, ts1)"
        using False by (auto simp: res_simps)
      note k = sub_parser.keeps [OF o eof t]
      then obtain x ts2 where ts1: "ts1 = x # ts2" using peek_eof by blast
      show "ends_in_eof ts' \<and> esize n + length ts' \<le> length ts"
      proof (cases "ttext x = js ''?''")
        case True
        with r t ts1 False obtain a ts3 s ts4 b where
          a: "parseConditional fuel (Suc depth) ts2 = Inr (a, ts3)"
          and s: "take_token (Some (js '':'')) ts3 = Inr (s, ts4)"
          and b: "parseConditional fuel (Suc depth) ts4 = Inr (b, ts')"
          and n: "n = Conditional test a b"
          by (auto simp: res_simps)
        have "ends_in_eof ts2" using k ts1 True by (auto dest: ends_in_eof_js)
        from sub_parser.keeps [OF c this a] take_text_eof [OF _ s] sub_parser.keeps [OF c _ b] k ts1 n
        show ?thesis by auto
      next
        case False
        with r t ts1 k \<open>\<not> MAX_EXPR_DEPTH < depth\<close> show ?thesis by auto
      qed
    next
      fix ts e
      assume eof: "ends_in_eof ts" and r: "parseConditional (Suc fuel) depth ts = Inl e"
      show "e \<noteq> TokenUndefined \<and> e \<noteq> OutOfFuel \<and> e \<noteq> TooComplex"
      proof (cases "parseOr (parseConditional fuel) depth ts")
        case (Inl e')
        with r False sub_parser.fails [OF o eof] show ?thesis by auto
      next
        case (Inr tr)
        then obtain test ts1 where t: "parseOr (parseConditional fuel) depth ts = Inr (test, ts1)"
          by (cases tr) auto
        note k = sub_parser.keeps [OF o eof t]
        then obtain x ts2 where ts1: "ts1 = x # ts2" using peek_eof by blast
        show ?thesis
        proof (cases "ttext x = js ''?''")
          case True
          then have eof2: "ends_in_eof ts2" using k ts1 by (auto dest: ends_in_eof_js)
          from True r t ts1 False show ?thesis
            using eof2 sub_parser.keeps [OF c eof2]
            by (auto simp: res_simps dest: take_text_fails
                dest!: take_text_eof [rotated] sub_parser.fails [OF c, rotated])
        next
          case False
          with r t ts1 \<open>\<not> MAX_EXPR_DEPTH < depth\<close> show ?thesis by auto
        qed
      qed
    qed
  qed
qed simp

interpretation top_level: sub_parser "parseConditional parser_fuel 0"
  by (rule parseConditional_sub_parser) (simp_all add: parser_fuel_def)

lemma parse_size:
  assumes "ends_in_eof tokens" and "parse tokens = Inr node"
  shows "esize node < length tokens"
  using assms top_level.keeps [OF assms(1)]
  by (fastforce simp: parse_def res_simps split: if_splits dest: peek_eof)

lemma parse_fails:
  assumes "ends_in_eof tokens" and "parse tokens = Inl e"
  shows "e \<noteq> TokenUndefined \<and> e \<noteq> OutOfFuel \<and> e \<noteq> TooComplex"
  using assms top_level.keeps [OF assms(1)] top_level.fails [OF assms(1)]
  by (fastforce simp: parse_def res_simps split: if_splits dest: peek_eof)

lemma tokenizeExpr_eof: "tokenizeExpr s = Inr ts \<Longrightarrow> ends_in_eof ts"
  by (auto simp: tokenizeExpr_def ends_in_eof_def res_simps split: if_splits)

lemma tokenizeExpr_length: "tokenizeExpr s = Inr ts \<Longrightarrow> int (length ts) \<le> MAX_EXPR_TOKENS + 1"
  by (auto simp: tokenizeExpr_def res_simps MAX_EXPR_TOKENS_def split: if_splits dest!: tokenize_loop_length)

lemma parseRestrictedExpr_size:
  assumes "parseRestrictedExpr s = Inr node"
  shows "int (esize node) \<le> MAX_EXPR_TOKENS"
proof -
  from assms obtain ts where "tokenizeExpr (snd (stripExprVersion (trim s))) = Inr ts"
      and "parse ts = Inr node"
    by (auto simp: parseRestrictedExpr_def res_simps split: if_splits)
  then show ?thesis
    using parse_size tokenizeExpr_eof tokenizeExpr_length by fastforce
qed

lemma tokenizeExpr_fails: "tokenizeExpr s = Inl e \<Longrightarrow> e \<noteq> TokenUndefined \<and> e \<noteq> OutOfFuel \<and> e \<noteq> TooComplex"
  by (auto simp: tokenizeExpr_def res_simps split: if_splits dest: tokenize_loop_errors)

lemma parseRestrictedExpr_fails:
  "parseRestrictedExpr s = Inl e \<Longrightarrow> e \<noteq> TokenUndefined \<and> e \<noteq> OutOfFuel \<and> e \<noteq> TooComplex"
  by (auto simp: parseRestrictedExpr_def res_simps split: if_splits
      dest: tokenizeExpr_fails parse_fails [OF tokenizeExpr_eof])

end
