(* ===== verification/BillingEval.thy ===== *)
theory BillingEval
  imports BillingParser
begin

text \<open>
  Tiers and evaluation of billing expressions,
  \<open>src/apps/web/src/features/pricing/lib/billing-expr.ts\<close>: the registry of billing variables, the
  reading of tiers out of a parsed expression (\<open>parseTiersFromExpr\<close>), and the evaluator
  (\<open>evaluateBillingExpression\<close>), whose state is the number of steps taken and the label of the tier
  reached last.

  Proved: a step is taken once per node, so that the limit on steps is never reached by an expression
  the parser accepts; the result is finite, depends on the registered variables only, and its tier
  label is a string literal of the expression; and on a chain of tiers the evaluator selects the first
  tier read by \<open>parseTiersFromExpr\<close> whose conditions hold.
\<close>

section \<open>The registry of variables\<close>

datatype var_side = SideInput | SideOutput | SideCondition

record billing_var =
  vkey :: jsstr
  vfield :: "jsstr option"
  tierField :: "jsstr option"
  vlabel :: jsstr
  shortLabel :: jsstr
  side :: var_side
  isBase :: bool
  isConditionOnly :: bool
  vgroup :: "jsstr option"

definition price_var ::
  "string \<Rightarrow> string \<Rightarrow> string \<Rightarrow> string \<Rightarrow> string \<Rightarrow> var_side \<Rightarrow> bool \<Rightarrow> string option \<Rightarrow> billing_var" where
  "price_var k f tf l sl sd base g =
     \<lparr>vkey = js k, vfield = Some (js f), tierField = Some (js tf), vlabel = js l, shortLabel = js sl,
      side = sd, isBase = base, isConditionOnly = False, vgroup = map_option js g\<rparr>"

definition BILLING_VARS :: "billing_var list" where
  "BILLING_VARS =
    [price_var ''p'' ''inputPrice'' ''input_unit_cost'' ''Input price'' ''Input'' SideInput True None,
     price_var ''c'' ''outputPrice'' ''output_unit_cost'' ''Completion price'' ''Output'' SideOutput True None,
     \<lparr>vkey = js ''len'', vfield = None, tierField = None, vlabel = js ''Input length'',
      shortLabel = js ''Length'', side = SideCondition, isBase = False, isConditionOnly = True,
      vgroup = None\<rparr>,
     price_var ''cr'' ''cacheReadPrice'' ''cache_read_unit_cost'' ''Cache read price'' ''Cache Read''
       SideInput False (Some ''cache''),
     price_var ''cc'' ''cacheCreatePrice'' ''cache_create_unit_cost'' ''Cache create price''
       ''Cache Write'' SideInput False (Some ''cache''),
     price_var ''cc1h'' ''cacheCreate1hPrice'' ''cache_create_1h_unit_cost''
       ''Cache create (1h) price'' ''Cache Write (1h)'' SideInput False (Some ''cache''),
     price_var ''img'' ''imagePrice'' ''image_unit_cost'' ''Image input price'' ''Image In''
       SideInput False (Some ''media''),
     price_var ''img_o'' ''imageOutputPrice'' ''image_output_unit_cost'' ''Image output price''
       ''Image Out'' SideOutput False (Some ''media''),
     price_var ''ai'' ''audioInputPrice'' ''audio_input_unit_cost'' ''Audio input price'' ''Audio In''
       SideInput False (Some ''media''),
     price_var ''ao'' ''audioOutputPrice'' ''audio_output_unit_cost'' ''Audio output price''
       ''Audio Out'' SideOutput False (Some ''media'')]"

definition BILLING_PRICING_VARS :: "billing_var list" where
  "BILLING_PRICING_VARS = filter (\<lambda>v. \<not> isConditionOnly v) BILLING_VARS"

definition BILLING_CONDITION_VARS :: "jsstr list" where
  "BILLING_CONDITION_VARS = map vkey (filter (\<lambda>v. isBase v \<or> isConditionOnly v) BILLING_VARS)"

definition text_or_empty :: "jsstr option \<Rightarrow> jsstr" where
  "text_or_empty t = (case t of Some s \<Rightarrow> s | None \<Rightarrow> [])"

definition BILLING_VAR_KEY_TO_FIELD :: "(jsstr \<times> jsstr) list" where
  "BILLING_VAR_KEY_TO_FIELD = map (\<lambda>v. (vkey v, text_or_empty (vfield v))) BILLING_PRICING_VARS"

definition BILLING_EXTRA_VARS :: "billing_var list" where
  "BILLING_EXTRA_VARS = filter (\<lambda>v. \<not> isBase v \<and> \<not> isConditionOnly v) BILLING_VARS"

text \<open>Pairs of a tier field and the variable it prices.\<close>

definition BILLING_CACHE_VAR_MAP :: "(jsstr \<times> jsstr) list" where
  "BILLING_CACHE_VAR_MAP = map (\<lambda>v. (text_or_empty (tierField v), vkey v)) BILLING_EXTRA_VARS"

section \<open>Reading tiers\<close>

record tier_condition =
  cvar :: jsstr
  cop :: jsstr
  cvalue :: number

record parsed_tier =
  tlabel :: jsstr
  tconditions :: "tier_condition list"
  tprices :: "(jsstr \<times> number) list"

definition numericLiteral :: "expr_node \<Rightarrow> number option" where
  "numericLiteral node =
     (case node of
        Literal (VNum x) \<Rightarrow> Some x
      | Unary op (Literal (VNum x)) \<Rightarrow>
          if op = js ''+'' \<or> op = js ''-'' then Some (if op = js ''-'' then num_neg x else x) else None
      | _ \<Rightarrow> None)"

text \<open>The operands of a nest of one operator, from left to right: the closure \<open>collect\<close>.\<close>

fun operands :: "jsstr \<Rightarrow> expr_node \<Rightarrow> expr_node list" where
  "operands op (Binary o' l r) =
     (if o' = op then operands op l @ operands op r else [Binary o' l r])"
| "operands op n = [n]"

definition comparison_operators :: "jsstr list" where
  "comparison_operators = [js ''<'', js ''<='', js ''>'', js ''>='']"

definition tier_condition_of :: "expr_node \<Rightarrow> tier_condition option" where
  "tier_condition_of part =
     (case part of
        Binary op (Identifier x) r \<Rightarrow>
          if op \<notin> set comparison_operators \<or> x \<notin> set BILLING_CONDITION_VARS then None
          else map_option (\<lambda>v. \<lparr>cvar = x, cop = op, cvalue = v\<rparr>) (numericLiteral r)
      | _ \<Rightarrow> None)"

text \<open>All parts or nothing, in order.\<close>

fun collect_all :: "('a \<Rightarrow> 'b option) \<Rightarrow> 'a list \<Rightarrow> 'b list option" where
  "collect_all f [] = Some []"
| "collect_all f (x # xs) =
     (case f x of None \<Rightarrow> None | Some y \<Rightarrow> map_option ((#) y) (collect_all f xs))"

definition tierConditions :: "expr_node \<Rightarrow> tier_condition list option" where
  "tierConditions node = collect_all tier_condition_of (operands (js ''&&'') node)"

text \<open>\<open>x || 0\<close>.\<close>

definition or_zero :: "number option \<Rightarrow> number" where
  "or_zero x = (case x of None \<Rightarrow> Num 0 | Some n \<Rightarrow> if truthy_num n then n else Num 0)"

definition nullish_NaN :: "number option \<Rightarrow> number" where
  "nullish_NaN x = (case x of None \<Rightarrow> NaN | Some n \<Rightarrow> n)"

text \<open>The variable of a term and its coefficient; \<open>None\<close> for \<open>name === null\<close>.\<close>

definition price_term :: "expr_node \<Rightarrow> (jsstr \<times> number) option" where
  "price_term term =
     (case term of
        Identifier x \<Rightarrow> Some (x, Num 1)
      | Binary op l r \<Rightarrow>
          if op = js ''*'' then
            (case l of Identifier x \<Rightarrow> Some (x, nullish_NaN (numericLiteral r))
             | _ \<Rightarrow> (case r of Identifier x \<Rightarrow> Some (x, nullish_NaN (numericLiteral l)) | _ \<Rightarrow> None))
          else None
      | _ \<Rightarrow> None)"

fun add_terms :: "(jsstr \<times> number) list \<Rightarrow> expr_node list \<Rightarrow> (jsstr \<times> number) list option" where
  "add_terms coefficients [] = Some coefficients"
| "add_terms coefficients (t # ts) =
     (case price_term t of None \<Rightarrow> None
      | Some (name, k) \<Rightarrow>
          if name = [] \<or> map_of BILLING_VAR_KEY_TO_FIELD name = None \<or> \<not> is_finite k then None
          else add_terms (map_put name (num_add (or_zero (map_of coefficients name)) k) coefficients) ts)"

definition priceCoefficients :: "expr_node \<Rightarrow> (jsstr \<times> number) list option" where
  "priceCoefficients node = add_terms [] (operands (js ''+'') node)"

definition parsedTier :: "expr_node \<Rightarrow> tier_condition list \<Rightarrow> parsed_tier option" where
  "parsedTier node conditions =
     (case node of
        Call f [Literal (VStr label), body] \<Rightarrow>
          if f \<noteq> js ''tier'' then None
          else map_option (\<lambda>coefficients.
                 \<lparr>tlabel = label, tconditions = conditions,
                  tprices = map (\<lambda>(v, field). (field, or_zero (map_of coefficients v)))
                              BILLING_VAR_KEY_TO_FIELD\<rparr>) (priceCoefficients body)
      | _ \<Rightarrow> None)"

text \<open>\<open>collectParsedTiers\<close> appends to its argument \<open>tiers\<close>; here, the tiers it appends.\<close>

fun collectParsedTiers :: "expr_node \<Rightarrow> parsed_tier list" where
  "collectParsedTiers (Conditional test consequent alternate) =
     (case (case tierConditions test of None \<Rightarrow> None | Some cs \<Rightarrow> parsedTier consequent cs) of
        Some tier \<Rightarrow> [tier]
      | None \<Rightarrow> collectParsedTiers consequent) @ collectParsedTiers alternate"
| "collectParsedTiers (Binary op l r) =
     (case parsedTier (Binary op l r) [] of Some tier \<Rightarrow> [tier]
      | None \<Rightarrow> collectParsedTiers l @ collectParsedTiers r)"
| "collectParsedTiers (Unary op a) =
     (case parsedTier (Unary op a) [] of Some tier \<Rightarrow> [tier] | None \<Rightarrow> collectParsedTiers a)"
| "collectParsedTiers (Call f args) =
     (case parsedTier (Call f args) [] of Some tier \<Rightarrow> [tier]
      | None \<Rightarrow> concat (map collectParsedTiers args))"
| "collectParsedTiers node = (case parsedTier node [] of Some tier \<Rightarrow> [tier] | None \<Rightarrow> [])"

definition parseTiersFromExpr :: "jsstr \<Rightarrow> parsed_tier list" where
  "parseTiersFromExpr exprStr =
     (if exprStr = [] then []
      else case parseRestrictedExpr exprStr of Inl _ \<Rightarrow> [] | Inr node \<Rightarrow> collectParsedTiers node)"

section \<open>Evaluation\<close>

definition requireNumber :: "expr_value \<Rightarrow> expr_error + number" where
  "requireNumber v =
     (case v of VNum x \<Rightarrow> if is_finite x then Inr x else Inl OperandNotFinite
      | _ \<Rightarrow> Inl OperandNotFinite)"

definition truthy :: "expr_value \<Rightarrow> bool" where
  "truthy v = (case v of VNum x \<Rightarrow> truthy_num x | VStr s \<Rightarrow> s \<noteq> [] | VBool b \<Rightarrow> b)"

definition strict_eq :: "expr_value \<Rightarrow> expr_value \<Rightarrow> bool" where
  "strict_eq a b =
     (case (a, b) of (VNum x, VNum y) \<Rightarrow> num_eq x y | (VStr s, VStr t) \<Rightarrow> s = t
      | (VBool x, VBool y) \<Rightarrow> x = y | _ \<Rightarrow> False)"

record eval_state =
  steps :: nat
  matchedTier :: jsstr

definition tick :: "eval_state \<Rightarrow> expr_error + eval_state" where
  "tick s =
     (let s' = s\<lparr>steps := Suc (steps s)\<rparr>
      in if MAX_EVAL_STEPS < int (steps s') then Inl TooComplex else Inr s')"

definition allowedVariables :: "jsstr list" where
  "allowedVariables = map vkey BILLING_VARS"

text \<open>The operators that need both operands to be finite numbers.\<close>

definition numeric_operator :: "jsstr \<Rightarrow> (number \<Rightarrow> number \<Rightarrow> expr_value) option" where
  "numeric_operator op =
     (if op = js ''<'' then Some (\<lambda>x y. VBool (num_lt x y))
      else if op = js ''<='' then Some (\<lambda>x y. VBool (num_le x y))
      else if op = js ''>'' then Some (\<lambda>x y. VBool (num_gt x y))
      else if op = js ''>='' then Some (\<lambda>x y. VBool (num_ge x y))
      else if op = js ''+'' then Some (\<lambda>x y. VNum (num_add x y))
      else if op = js ''-'' then Some (\<lambda>x y. VNum (num_sub x y))
      else if op = js ''*'' then Some (\<lambda>x y. VNum (num_mul x y))
      else if op = js ''/'' then Some (\<lambda>x y. VNum (num_div x y))
      else if op = js ''%'' then Some (\<lambda>x y. VNum (num_rem x y))
      else None)"

definition apply_operator :: "jsstr \<Rightarrow> expr_value \<Rightarrow> expr_value \<Rightarrow> expr_error + expr_value" where
  "apply_operator op left right =
     (if op = js ''=='' then Inr (VBool (strict_eq left right))
      else if op = js ''!='' then Inr (VBool (\<not> strict_eq left right))
      else case numeric_operator op of
        Some f \<Rightarrow> andThen (requireNumber left) (\<lambda>x. andThen (requireNumber right) (\<lambda>y. Inr (f x y)))
      | None \<Rightarrow> Inl (OperatorNotAllowed op))"

definition apply_function :: "jsstr \<Rightarrow> number list \<Rightarrow> expr_error + expr_value" where
  "apply_function f numbers =
     (if f = js ''max'' then
        (if numbers = [] then Inl MaxArguments else Inr (VNum (math_max numbers)))
      else if f = js ''min'' then
        (if numbers = [] then Inl MinArguments else Inr (VNum (math_min numbers)))
      else if f = js ''abs'' then
        (case numbers of [x] \<Rightarrow> Inr (VNum (num_abs x)) | _ \<Rightarrow> Inl AbsArguments)
      else if f = js ''ceil'' then
        (case numbers of [x] \<Rightarrow> Inr (VNum (num_ceil x)) | _ \<Rightarrow> Inl CeilArguments)
      else if f = js ''floor'' then
        (case numbers of [x] \<Rightarrow> Inr (VNum (num_floor x)) | _ \<Rightarrow> Inl FloorArguments)
      else Inl (FunctionNotAllowed f))"

definition apply_call :: "jsstr \<Rightarrow> expr_value list \<Rightarrow> eval_state \<Rightarrow> expr_error + expr_value \<times> eval_state" where
  "apply_call f args s =
     (if f = js ''tier'' then
        (case args of
           [VStr label, v] \<Rightarrow>
             andThen (requireNumber v) (\<lambda>x. Inr (VNum x, s\<lparr>matchedTier := label\<rparr>))
         | _ \<Rightarrow> Inl TierArguments)
      else andThen (traverse requireNumber args) (\<lambda>numbers.
             andThen (apply_function f numbers) (\<lambda>v. Inr (v, s))))"

fun evaluate :: "(jsstr \<rightharpoonup> number) \<Rightarrow> expr_node \<Rightarrow> eval_state \<Rightarrow> expr_error + expr_value \<times> eval_state"
  and evaluate_args :: "(jsstr \<rightharpoonup> number) \<Rightarrow> expr_node list \<Rightarrow> eval_state \<Rightarrow> expr_error + expr_value list \<times> eval_state"
where
  "evaluate vars (Literal v) s = andThen (tick s) (\<lambda>s. Inr (v, s))"
| "evaluate vars (Identifier x) s =
     andThen (tick s) (\<lambda>s.
       if x \<notin> set allowedVariables then Inl (IdentifierNotAllowed x)
       else andThen (requireNumber (VNum (case vars x of Some n \<Rightarrow> n | None \<Rightarrow> Num 0)))
              (\<lambda>n. Inr (VNum n, s)))"
| "evaluate vars (Unary op a) s =
     andThen (tick s) (\<lambda>s. andThen (evaluate vars a s) (\<lambda>(v, s).
       if op = js ''!'' then Inr (VBool (\<not> truthy v), s)
       else andThen (requireNumber v) (\<lambda>n. Inr (VNum (if op = js ''-'' then num_neg n else n), s))))"
| "evaluate vars (Conditional test consequent alternate) s =
     andThen (tick s) (\<lambda>s. andThen (evaluate vars test s) (\<lambda>(v, s).
       if truthy v then evaluate vars consequent s else evaluate vars alternate s))"
| "evaluate vars (Binary op l r) s =
     andThen (tick s) (\<lambda>s.
       if op = js ''&&'' then
         andThen (evaluate vars l s) (\<lambda>(v, s).
           if truthy v then andThen (evaluate vars r s) (\<lambda>(w, s). Inr (VBool (truthy w), s))
           else Inr (VBool False, s))
       else if op = js ''||'' then
         andThen (evaluate vars l s) (\<lambda>(v, s).
           if truthy v then Inr (VBool True, s)
           else andThen (evaluate vars r s) (\<lambda>(w, s). Inr (VBool (truthy w), s)))
       else
         andThen (evaluate vars l s) (\<lambda>(v, s). andThen (evaluate vars r s) (\<lambda>(w, s).
           andThen (apply_operator op v w) (\<lambda>x. Inr (x, s)))))"
| "evaluate vars (Call f args) s =
     andThen (tick s) (\<lambda>s. andThen (evaluate_args vars args s) (\<lambda>(vs, s). apply_call f vs s))"
| "evaluate_args vars [] s = Inr ([], s)"
| "evaluate_args vars (a # as) s =
     andThen (evaluate vars a s) (\<lambda>(v, s).
       andThen (evaluate_args vars as s) (\<lambda>(vs, s). Inr (v # vs, s)))"

definition evaluateBillingExpression ::
  "jsstr \<Rightarrow> (jsstr \<rightharpoonup> number) \<Rightarrow> expr_error + number \<times> jsstr" where
  "evaluateBillingExpression exprStr vars =
     andThen (parseRestrictedExpr exprStr) (\<lambda>root.
       andThen (evaluate vars root \<lparr>steps = 0, matchedTier = []\<rparr>) (\<lambda>(v, s).
         andThen (requireNumber v) (\<lambda>x. Inr (x, matchedTier s))))"

section \<open>Steps\<close>

lemma tick_eq_Inr [res_simps]:
  "tick s = Inr s' \<longleftrightarrow> s' = s\<lparr>steps := Suc (steps s)\<rparr> \<and> int (Suc (steps s)) \<le> MAX_EVAL_STEPS"
  by (auto simp: tick_def Let_def)

lemma tick_eq_Inl [res_simps]: "tick s = Inl e \<longleftrightarrow> e = TooComplex \<and> MAX_EVAL_STEPS \<le> int (steps s)"
  by (auto simp: tick_def Let_def)

lemma requireNumber_eq_Inr [res_simps]: "requireNumber v = Inr x \<longleftrightarrow> v = VNum x \<and> is_finite x"
  by (auto simp: requireNumber_def split: expr_value.splits)

lemma requireNumber_eq_Inl [res_simps]:
  "requireNumber v = Inl e \<longleftrightarrow> e = OperandNotFinite \<and> \<not> (\<exists>x. v = VNum x \<and> is_finite x)"
  by (auto simp: requireNumber_def split: expr_value.splits)

lemma traverse_requireNumber_Inl: "traverse requireNumber vs = Inl e \<Longrightarrow> e = OperandNotFinite"
  by (induction vs) (auto simp: res_simps)

lemma apply_operator_Inl:
  "apply_operator op v w = Inl e \<Longrightarrow> e \<in> {OperandNotFinite, OperatorNotAllowed op}"
  by (auto simp: apply_operator_def res_simps split: if_splits option.splits)

lemma apply_function_Inl:
  "apply_function f ns = Inl e \<Longrightarrow>
   e \<in> {MaxArguments, MinArguments, AbsArguments, CeilArguments, FloorArguments, FunctionNotAllowed f}"
  by (auto simp: apply_function_def split: if_splits list.splits)

lemma apply_call_tier:
  "apply_call (js ''tier'') vs s = Inr (v, s') \<longleftrightarrow>
   (\<exists>label x. vs = [VStr label, VNum x] \<and> is_finite x \<and> v = VNum x \<and> s' = s\<lparr>matchedTier := label\<rparr>)"
  by (auto simp: apply_call_def res_simps split: list.splits expr_value.splits)

lemma apply_call_Inr:
  assumes "apply_call f vs s = Inr (v, s')"
  shows "steps s' = steps s" and "s' = s \<or> VStr (matchedTier s') \<in> set vs" and "\<exists>x. v = VNum x"
  using assms
  by (auto simp: apply_call_def apply_function_def res_simps
      split: if_splits list.splits expr_value.splits)

lemma apply_call_Inl:
  assumes "apply_call f vs s = Inl e"
  shows "e \<in> {TierArguments, OperandNotFinite, MaxArguments, MinArguments, AbsArguments, CeilArguments,
              FloorArguments, FunctionNotAllowed f}"
  using assms
  by (auto simp: apply_call_def res_simps split: if_splits list.splits expr_value.splits
      dest!: traverse_requireNumber_Inl apply_function_Inl)

text \<open>A step is taken at most once per node, and only the counter of steps reports complexity.\<close>

lemma evaluate_steps:
  "evaluate vars n s = Inr (v, s') \<Longrightarrow> steps s' \<le> steps s + esize n"
  "evaluate_args vars ns s = Inr (vs, s') \<Longrightarrow> steps s' \<le> steps s + sum_list (map esize ns)"
  by (induction vars n s and vars ns s arbitrary: v s' and vs s' rule: evaluate_evaluate_args.induct)
     (fastforce simp: res_simps apply_call_Inr(1) split: if_splits prod.splits)+

text \<open>The exceptions of the code that evaluation can throw.\<close>

definition eval_errors :: "expr_error set" where
  "eval_errors = {OperandNotFinite, TierArguments, MaxArguments, MinArguments, AbsArguments,
     CeilArguments, FloorArguments} \<union> range IdentifierNotAllowed \<union> range OperatorNotAllowed \<union>
     range FunctionNotAllowed"

lemma evaluate_fails:
  "evaluate vars n s = Inl e \<Longrightarrow> int (steps s + esize n) \<le> MAX_EVAL_STEPS \<Longrightarrow> e \<in> eval_errors"
  "evaluate_args vars ns s = Inl e \<Longrightarrow> int (steps s + sum_list (map esize ns)) \<le> MAX_EVAL_STEPS \<Longrightarrow>
   e \<in> eval_errors"
proof (induction vars n s and vars ns s arbitrary: e and e rule: evaluate_evaluate_args.induct)
  case (6 vars f args s)
  then show ?case
    by (fastforce simp: res_simps eval_errors_def dest: apply_call_Inl)
qed (fastforce simp: res_simps eval_errors_def dest: evaluate_steps apply_operator_Inl split: if_splits)+

section \<open>What evaluation depends on\<close>

text \<open>The string literals of an expression.\<close>

fun string_literals :: "expr_node \<Rightarrow> jsstr set" where
  "string_literals (Literal v) = (case v of VStr t \<Rightarrow> {t} | _ \<Rightarrow> {})"
| "string_literals (Identifier x) = {}"
| "string_literals (Unary op a) = string_literals a"
| "string_literals (Binary op a b) = string_literals a \<union> string_literals b"
| "string_literals (Conditional a b c) = string_literals a \<union> string_literals b \<union> string_literals c"
| "string_literals (Call f args) = (\<Union>a \<in> set args. string_literals a)"

lemma apply_operator_not_VStr: "apply_operator op v w \<noteq> Inr (VStr t)"
  by (auto simp: apply_operator_def numeric_operator_def res_simps split: if_splits)

lemma evaluate_strings:
  "evaluate vars n s = Inr (v, s') \<Longrightarrow>
   (\<forall>t. v = VStr t \<longrightarrow> t \<in> string_literals n) \<and>
   matchedTier s' \<in> insert (matchedTier s) (string_literals n)"
  "evaluate_args vars ns s = Inr (vs, s') \<Longrightarrow>
   (\<forall>t. VStr t \<in> set vs \<longrightarrow> t \<in> (\<Union>n \<in> set ns. string_literals n)) \<and>
   matchedTier s' \<in> insert (matchedTier s) (\<Union>n \<in> set ns. string_literals n)"
proof (induction vars n s and vars ns s arbitrary: v s' and vs s' rule: evaluate_evaluate_args.induct)
  case (6 vars f args s)
  from 6(2) obtain vs s1 where args: "evaluate_args vars args (s\<lparr>steps := Suc (steps s)\<rparr>) = Inr (vs, s1)"
      and call: "apply_call f vs s1 = Inr (v, s')" and tick: "tick s = Inr (s\<lparr>steps := Suc (steps s)\<rparr>)"
    by (auto simp: res_simps)
  from 6(1) [OF tick args] apply_call_Inr(2,3) [OF call] show ?case
    by auto
next
  case (5 vars op l r s)
  then show ?case
    by (fastforce simp: res_simps apply_operator_not_VStr split: if_splits)
qed (fastforce simp: res_simps split: if_splits)+

text \<open>Only the registered variables are read.\<close>

lemma evaluate_vars:
  "(\<And>x. x \<in> set allowedVariables \<Longrightarrow> vars x = vars' x) \<Longrightarrow> evaluate vars n s = evaluate vars' n s"
  "(\<And>x. x \<in> set allowedVariables \<Longrightarrow> vars x = vars' x) \<Longrightarrow>
   evaluate_args vars ns s = evaluate_args vars' ns s"
proof (induction vars n s and vars ns s rule: evaluate_evaluate_args.induct)
  case (4 vars test consequent alternate s)
  then show ?case
    by (auto intro!: andThen_cong split: prod.splits)
next
  case (5 vars op l r s)
  then show ?case
    by (auto intro!: andThen_cong split: prod.splits)
qed (auto intro!: andThen_cong split: prod.splits)

section \<open>Chains of tiers\<close>

lemma collect_all_append:
  "collect_all f (xs @ ys) = Some zs \<longleftrightarrow>
   (\<exists>us ws. collect_all f xs = Some us \<and> collect_all f ys = Some ws \<and> zs = us @ ws)"
  by (induction xs arbitrary: zs) (auto split: option.splits)

text \<open>What a condition means: a comparison of exact values.\<close>

definition variable_value :: "(jsstr \<rightharpoonup> number) \<Rightarrow> jsstr \<Rightarrow> number" where
  "variable_value vars x = (case vars x of Some n \<Rightarrow> n | None \<Rightarrow> Num 0)"

definition condition_holds :: "(jsstr \<rightharpoonup> number) \<Rightarrow> tier_condition \<Rightarrow> bool" where
  "condition_holds vars c \<longleftrightarrow>
     (let x = val (variable_value vars (cvar c)); y = val (cvalue c)
      in (cop c = js ''<'' \<and> x < y) \<or> (cop c = js ''<='' \<and> x \<le> y) \<or>
         (cop c = js ''>'' \<and> y < x) \<or> (cop c = js ''>='' \<and> y \<le> x))"

definition tier_applies :: "(jsstr \<rightharpoonup> number) \<Rightarrow> parsed_tier \<Rightarrow> bool" where
  "tier_applies vars t \<longleftrightarrow> list_all (condition_holds vars) (tconditions t)"

text \<open>A chain \<open>c1 ? tier(...) : c2 ? tier(...) : ... : tier(...)\<close> of tiers that can all be read.\<close>

fun tier_chain :: "expr_node \<Rightarrow> bool" where
  "tier_chain (Conditional test consequent alternate) =
     ((case tierConditions test of None \<Rightarrow> False | Some cs \<Rightarrow> parsedTier consequent cs \<noteq> None) \<and>
      tier_chain alternate)"
| "tier_chain n = (parsedTier n [] \<noteq> None)"

lemma numericLiteral_eval:
  assumes "numericLiteral n = Some x" and "evaluate vars n s = Inr (v, s')"
  shows "v = VNum x \<and> matchedTier s' = matchedTier s"
  using assms
  by (auto simp: numericLiteral_def res_simps split: expr_node.splits expr_value.splits if_splits)

lemma comparison_eval:
  assumes "apply_operator op (VNum x) (VNum y) = Inr v" and "op \<in> set comparison_operators"
  shows "v = VBool ((op = js ''<'' \<and> val x < val y) \<or> (op = js ''<='' \<and> val x \<le> val y) \<or>
           (op = js ''>'' \<and> val y < val x) \<or> (op = js ''>='' \<and> val y \<le> val x))"
  using assms
  by (auto simp: apply_operator_def numeric_operator_def comparison_operators_def res_simps
      num_lt_finite num_le_finite num_gt_def num_ge_def)

lemma tier_condition_eval:
  assumes c: "tier_condition_of part = Some c" and ev: "evaluate vars part s = Inr (v, s')"
  shows "v = VBool (condition_holds vars c) \<and> matchedTier s' = matchedTier s"
proof -
  from c obtain op x r y where part: "part = Binary op (Identifier x) r"
      and op: "op \<in> set comparison_operators" and y: "numericLiteral r = Some y"
      and c': "c = \<lparr>cvar = x, cop = op, cvalue = y\<rparr>"
    by (auto simp: tier_condition_of_def split: expr_node.splits if_splits)
  from op have "op \<noteq> js ''&&''" and "op \<noteq> js ''||''"
    by (auto simp: comparison_operators_def)
  with ev obtain v2 where r: "evaluate vars r (s\<lparr>steps := Suc (Suc (steps s))\<rparr>) = Inr (v2, s')"
      and v: "apply_operator op (VNum (variable_value vars x)) v2 = Inr v"
    by (auto simp: part res_simps variable_value_def split: if_splits)
  from numericLiteral_eval [OF y r] have "v2 = VNum y" and "matchedTier s' = matchedTier s"
    by simp_all
  moreover from this v have "apply_operator op (VNum (variable_value vars x)) (VNum y) = Inr v"
    by simp
  ultimately show ?thesis
    using comparison_eval [OF _ op] by (simp add: c' condition_holds_def Let_def)
qed

lemma tierConditions_eval:
  assumes "tierConditions n = Some cs" and "evaluate vars n s = Inr (v, s')"
  shows "v = VBool (list_all (condition_holds vars) cs) \<and> matchedTier s' = matchedTier s"
  using assms unfolding tierConditions_def
proof (induction "js ''&&''" n arbitrary: cs v s s' rule: operands.induct)
  case (1 o' l r)
  show ?case
  proof (cases "o' = js ''&&''")
    case True
    with 1(3) obtain us ws where "collect_all tier_condition_of (operands (js ''&&'') l) = Some us"
        and "collect_all tier_condition_of (operands (js ''&&'') r) = Some ws" and "cs = us @ ws"
      by (auto simp: collect_all_append)
    with 1(1) [OF True] 1(2) [OF True] 1(4) True show ?thesis
      by (fastforce simp: res_simps truthy_def split: if_splits)
  next
    case False
    with 1(3) obtain c where "tier_condition_of (Binary o' l r) = Some c" and "cs = [c]"
      by (auto split: option.splits)
    with tier_condition_eval 1(4) show ?thesis
      by fastforce
  qed
qed (auto simp: tier_condition_of_def)

lemma parsedTier_eval:
  assumes "parsedTier n cs = Some t" and "evaluate vars n s = Inr (v, s')"
  shows "matchedTier s' = tlabel t"
  using assms
  by (auto simp: parsedTier_def res_simps apply_call_tier split: expr_node.splits list.splits expr_value.splits if_splits)

lemma parsedTier_conditions: "parsedTier n cs = Some t \<Longrightarrow> tconditions t = cs"
  by (auto simp: parsedTier_def split: expr_node.splits list.splits expr_value.splits if_splits)

lemma parsedTier_single:
  assumes "parsedTier n [] = Some t" and "evaluate vars n s = Inr (v, s')"
  shows "tier_applies vars t \<and> matchedTier s' = tlabel t"
  using parsedTier_eval [OF assms] parsedTier_conditions [OF assms(1)] by (simp add: tier_applies_def)

lemma tier_chain_eval:
  assumes "tier_chain n" and "evaluate vars n s = Inr (v, s')"
  shows "\<exists>t. find (tier_applies vars) (collectParsedTiers n) = Some t \<and> matchedTier s' = tlabel t"
  using assms
proof (induction n arbitrary: s v s' rule: tier_chain.induct)
  case (1 test consequent alternate)
  from 1(2) obtain cs t where cs: "tierConditions test = Some cs" and t: "parsedTier consequent cs = Some t"
    and chain: "tier_chain alternate"
    by (auto split: option.splits)
  from 1(3) obtain w s1 where test: "evaluate vars test (s\<lparr>steps := Suc (steps s)\<rparr>) = Inr (w, s1)"
    and rest: "(if truthy w then evaluate vars consequent s1 else evaluate vars alternate s1) = Inr (v, s')"
    by (auto simp: res_simps)
  from tierConditions_eval [OF cs test] parsedTier_conditions [OF t] have w: "truthy w = tier_applies vars t"
    by (simp add: truthy_def tier_applies_def)
  show ?case
    using rest w parsedTier_eval [OF t] 1(1) [OF chain] by (auto simp: cs t split: if_splits)
qed (auto dest: parsedTier_single simp del: evaluate.simps)

section \<open>Properties\<close>

lemma parseRestrictedExpr_Nil: "parseRestrictedExpr [] \<noteq> Inr n"
proof -
  have "\<not> (case parseRestrictedExpr [] of Inl _ \<Rightarrow> False | Inr _ \<Rightarrow> True)"
    by code_simp
  then show ?thesis
    by (cases "parseRestrictedExpr []") simp_all
qed

text \<open>C2: Take an expression that is a chain of tiers, \<open>c1 ? tier(..) : c2 ? tier(..) : .. : tier(..)\<close>,
  every tier of which \<open>parseTiersFromExpr\<close> can read. When \<open>evaluateBillingExpression\<close> returns, the
  tier it reports is the first one of \<open>parseTiersFromExpr\<close> whose conditions, read as comparisons of
  exact values, hold: the table of tiers shown to the user and the price estimate agree.\<close>

theorem evaluated_tier_is_first_match:
  assumes "parseRestrictedExpr s = Inr n" and "tier_chain n"
    and "evaluateBillingExpression s vars = Inr (x, label)"
  shows "\<exists>t. find (tier_applies vars) (parseTiersFromExpr s) = Some t \<and> label = tlabel t"
proof -
  from assms obtain v st where "evaluate vars n \<lparr>steps = 0, matchedTier = []\<rparr> = Inr (v, st)"
      and "label = matchedTier st"
    by (auto simp: evaluateBillingExpression_def res_simps)
  moreover have "s \<noteq> []"
    using assms(1) parseRestrictedExpr_Nil by auto
  ultimately show ?thesis
    using tier_chain_eval [OF assms(2)] assms(1) by (auto simp: parseTiersFromExpr_def)
qed

definition sample_chain :: jsstr where
  "sample_chain = js ''p<=5&&c<9?tier(\"a\",p*2):tier(\"b\",p*3+c)''"

definition sample_vars :: "jsstr \<rightharpoonup> number" where
  "sample_vars = map_of [(js ''p'', Num 7), (js ''c'', Num 1)]"

theorem evaluated_tier_is_first_match_witness:
  "\<exists>t. find (tier_applies sample_vars) (parseTiersFromExpr sample_chain) = Some t \<and> js ''b'' = tlabel t"
proof -
  have "case parseRestrictedExpr sample_chain of Inl _ \<Rightarrow> False | Inr n \<Rightarrow> tier_chain n"
    by code_simp
  then obtain n where n: "parseRestrictedExpr sample_chain = Inr n" and chain: "tier_chain n"
    by (cases "parseRestrictedExpr sample_chain") simp_all
  have "evaluateBillingExpression sample_chain sample_vars = Inr (Num 22, js ''b'')"
    by code_simp
  from evaluated_tier_is_first_match [OF n chain this] show ?thesis .
qed

text \<open>C33: \<open>evaluateBillingExpression\<close> never throws "expression is too complex": the limits on the
  parser keep every accepted expression under the limit on evaluation steps. Nor does the parser read a
  token past the end of the array, and its model never runs out of fuel.\<close>

theorem evaluation_within_limits:
  "evaluateBillingExpression s vars \<notin> Inl ` {TooComplex, TokenUndefined, OutOfFuel}"
proof -
  have "e \<notin> {TooComplex, TokenUndefined, OutOfFuel}"
    if e: "evaluateBillingExpression s vars = Inl e" for e
  proof (cases "parseRestrictedExpr s")
    case (Inl e')
    with e parseRestrictedExpr_fails [OF Inl] show ?thesis
      by (simp add: evaluateBillingExpression_def)
  next
    case (Inr n)
    have le: "int (0 + esize n) \<le> MAX_EVAL_STEPS"
      using parseRestrictedExpr_size [OF Inr] by (simp add: MAX_EXPR_TOKENS_def MAX_EVAL_STEPS_def)
    from e Inr evaluate_fails(1) [of vars n "\<lparr>steps = 0, matchedTier = []\<rparr>" e] le show ?thesis
      by (auto simp: evaluateBillingExpression_def res_simps eval_errors_def)
  qed
  then show ?thesis by auto
qed

text \<open>What \<open>evaluateBillingExpression\<close> returns is a finite number together with a label that is
  empty or one of the string literals written in the expression: no label is made up by evaluation.\<close>

lemma evaluation_result:
  assumes "evaluateBillingExpression s vars = Inr (x, label)"
  shows "is_finite x \<and> (\<exists>n. parseRestrictedExpr s = Inr n \<and> label \<in> insert [] (string_literals n))"
  using assms evaluate_strings(1) by (fastforce simp: evaluateBillingExpression_def res_simps)

text \<open>Evaluation reads only the registered billing variables: two environments that agree on
  them give the same result or the same exception for every expression.\<close>

lemma evaluation_reads_registered_variables:
  assumes "\<forall>x \<in> set allowedVariables. vars x = vars' x"
  shows "evaluateBillingExpression s vars = evaluateBillingExpression s vars'"
  using evaluate_vars(1) [of vars vars'] assms by (simp add: evaluateBillingExpression_def)

end
