(* ===== verification/JsValue.thy ===== *)
theory JsValue
  imports JsNumber
begin

text \<open>
  Values of the language as data that arrives from outside the program (responses, stored text,
  messages of other tabs): property access, truthiness, \<open>JSON.stringify\<close> and \<open>JSON.parse\<close>.

  An object is the list of its own properties in the order they were created. Functions and inherited
  properties are not values here: the program reads no property of such data under an inherited name.
\<close>

datatype jsval =
    Undefined
  | Null
  | Bool bool
  | Number number
  | Str jsstr
  | Arr "jsval list"
  | Obj "(jsstr \<times> jsval) list"

section \<open>Access and tests\<close>

definition is_Str :: "jsval \<Rightarrow> bool" where
  "is_Str v = (case v of Str _ \<Rightarrow> True | _ \<Rightarrow> False)"

definition is_Number :: "jsval \<Rightarrow> bool" where
  "is_Number v = (case v of Number _ \<Rightarrow> True | _ \<Rightarrow> False)"

definition is_Bool :: "jsval \<Rightarrow> bool" where
  "is_Bool v = (case v of Bool _ \<Rightarrow> True | _ \<Rightarrow> False)"

definition is_array :: "jsval \<Rightarrow> bool" where
  "is_array v = (case v of Arr _ \<Rightarrow> True | _ \<Rightarrow> False)"

text \<open>\<open>typeof v === 'object'\<close> and not \<open>null\<close>: an object or an array.\<close>

definition is_object :: "jsval \<Rightarrow> bool" where
  "is_object v = (case v of Obj _ \<Rightarrow> True | Arr _ \<Rightarrow> True | _ \<Rightarrow> False)"

definition nullish :: "jsval \<Rightarrow> bool" where
  "nullish v \<longleftrightarrow> v = Undefined \<or> v = Null"

definition truthy_val :: "jsval \<Rightarrow> bool" where
  "truthy_val v =
     (case v of Undefined \<Rightarrow> False | Null \<Rightarrow> False | Bool b \<Rightarrow> b | Number n \<Rightarrow> truthy_num n
      | Str s \<Rightarrow> s \<noteq> [] | Arr _ \<Rightarrow> True | Obj _ \<Rightarrow> True)"

text \<open>\<open>a ?? b\<close> and \<open>a || b\<close>.\<close>

definition coalesce :: "jsval \<Rightarrow> jsval \<Rightarrow> jsval" where
  "coalesce a b = (if nullish a then b else a)"

definition or_else :: "jsval \<Rightarrow> jsval \<Rightarrow> jsval" where
  "or_else a b = (if truthy_val a then a else b)"

text \<open>A property of an object; anything else has none of the properties the program reads.\<close>

definition get_prop :: "jsval \<Rightarrow> jsstr \<Rightarrow> jsval" where
  "get_prop v k =
     (case v of Obj ps \<Rightarrow> (case map_of ps k of Some x \<Rightarrow> x | None \<Rightarrow> Undefined) | _ \<Rightarrow> Undefined)"

lemma get_prop_simps [simp]:
  "get_prop (Obj ps) k = (case map_of ps k of Some x \<Rightarrow> x | None \<Rightarrow> Undefined)"
  "get_prop Undefined k = Undefined" "get_prop Null k = Undefined" "get_prop (Bool b) k = Undefined"
  "get_prop (Number n) k = Undefined" "get_prop (Str s) k = Undefined" "get_prop (Arr xs) k = Undefined"
  by (simp_all add: get_prop_def)

lemma is_simps [simp]:
  "is_Str (Str s)" "\<not> is_Str Undefined" "\<not> is_Str Null" "\<not> is_Str (Bool b)" "\<not> is_Str (Number n)"
  "is_Number (Number n)" "\<not> is_Number Undefined" "\<not> is_Number Null" "\<not> is_Number (Str s)"
  "is_Bool (Bool b)" "\<not> is_Bool Undefined" "\<not> is_Bool Null" "\<not> is_Bool (Str s)"
  by (simp_all add: is_Str_def is_Number_def is_Bool_def)

lemma truthy_val_simps [simp]:
  "\<not> truthy_val Undefined" "\<not> truthy_val Null" "truthy_val (Bool b) \<longleftrightarrow> b"
  "truthy_val (Number n) \<longleftrightarrow> truthy_num n" "truthy_val (Str s) \<longleftrightarrow> s \<noteq> []"
  "truthy_val (Arr xs)" "truthy_val (Obj ps)"
  by (simp_all add: truthy_val_def)

lemma is_object_truthy: "is_object v \<Longrightarrow> truthy_val v"
  by (cases v) (simp_all add: is_object_def)

text \<open>\<open>typeof v === 'string' ? v : d\<close> and the like, as the code unpacks what it has tested.\<close>

definition str_of :: "jsval \<Rightarrow> jsstr" where
  "str_of v = (case v of Str s \<Rightarrow> s | _ \<Rightarrow> [])"

definition num_of :: "jsval \<Rightarrow> number" where
  "num_of v = (case v of Number n \<Rightarrow> n | _ \<Rightarrow> NaN)"

text \<open>\<open>Number.isInteger\<close>, \<open>Number.isFinite\<close> and \<open>Number.isSafeInteger\<close> of any value.\<close>

definition val_is_integer :: "jsval \<Rightarrow> bool" where
  "val_is_integer v = (case v of Number n \<Rightarrow> is_integer n | _ \<Rightarrow> False)"

definition val_is_finite :: "jsval \<Rightarrow> bool" where
  "val_is_finite v = (case v of Number n \<Rightarrow> is_finite n | _ \<Rightarrow> False)"

definition val_is_safe_integer :: "jsval \<Rightarrow> bool" where
  "val_is_safe_integer v = (case v of Number n \<Rightarrow> is_safe_integer n | _ \<Rightarrow> False)"

lemma val_is_simps [simp]:
  "val_is_finite (Number n) \<longleftrightarrow> is_finite n" "val_is_integer (Number n) \<longleftrightarrow> is_integer n"
  "val_is_safe_integer (Number n) \<longleftrightarrow> is_safe_integer n"
  by (simp_all add: val_is_finite_def val_is_integer_def val_is_safe_integer_def)

text \<open>\<open>String(v)\<close>.\<close>

fun string_of_val :: "jsval \<Rightarrow> jsstr" where
  "string_of_val Undefined = js ''undefined''"
| "string_of_val Null = js ''null''"
| "string_of_val (Bool b) = (if b then js ''true'' else js ''false'')"
| "string_of_val (Number n) = number_to_string n"
| "string_of_val (Str s) = s"
| "string_of_val (Arr xs) = join [44] (map (\<lambda>x. if nullish x then [] else string_of_val x) xs)"
| "string_of_val (Obj ps) = js ''[object Object]''"

section \<open>Own properties in order\<close>

text \<open>
  The order of \<open>Object.keys\<close>: array indices first, in ascending order, then the other keys in the
  order they were created.
\<close>

definition array_index :: "jsstr \<Rightarrow> int option" where
  "array_index k =
     (if k \<noteq> [] \<and> list_all is_digit k \<and> (length k = 1 \<or> hd k \<noteq> 48) \<and> length k \<le> 10
         \<and> digits_val k < 4294967295 then Some (digits_val k) else None)"

definition index_key :: "jsstr \<times> 'a \<Rightarrow> int" where
  "index_key p = (case array_index (fst p) of Some i \<Rightarrow> i | None \<Rightarrow> 0)"

definition own_entries :: "(jsstr \<times> 'a) list \<Rightarrow> (jsstr \<times> 'a) list" where
  "own_entries ps =
     sort_key index_key (filter (\<lambda>p. array_index (fst p) \<noteq> None) ps) @
     filter (\<lambda>p. array_index (fst p) = None) ps"

lemma set_own_entries [simp]: "set (own_entries ps) = set ps"
  by (auto simp: own_entries_def)

lemma own_entries_id: "list_all (\<lambda>p. array_index (fst p) = None) ps \<Longrightarrow> own_entries ps = ps"
  by (auto simp: own_entries_def list_all_iff filter_empty_conv)

section \<open>Writing JSON\<close>

definition hex_char :: "int \<Rightarrow> code_unit" where
  "hex_char d = (if d < 10 then 48 + d else 87 + d)"

definition unicode_escape :: "code_unit \<Rightarrow> jsstr" where
  "unicode_escape c =
     [92, 117, hex_char (c div 4096 mod 16), hex_char (c div 256 mod 16), hex_char (c div 16 mod 16),
      hex_char (c mod 16)]"

definition is_lead :: "code_unit \<Rightarrow> bool" where
  "is_lead c \<longleftrightarrow> 55296 \<le> c \<and> c \<le> 56319"

definition is_trail :: "code_unit \<Rightarrow> bool" where
  "is_trail c \<longleftrightarrow> 56320 \<le> c \<and> c \<le> 57343"

definition escape_unit :: "code_unit \<Rightarrow> jsstr" where
  "escape_unit c =
     (if c = 8 then [92, 98] else if c = 9 then [92, 116] else if c = 10 then [92, 110]
      else if c = 12 then [92, 102] else if c = 13 then [92, 114] else if c = 34 then [92, 34]
      else if c = 92 then [92, 92]
      else if c < 32 \<or> is_lead c \<or> is_trail c then unicode_escape c else [c])"

text \<open>Surrogate pairs are written as they are; a surrogate on its own is escaped.\<close>

fun quote_body :: "jsstr \<Rightarrow> jsstr" where
  "quote_body [] = []"
| "quote_body [c] = escape_unit c"
| "quote_body (c # d # s) =
     (if is_lead c \<and> is_trail d then c # d # quote_body s else escape_unit c @ quote_body (d # s))"

definition quote_json :: "jsstr \<Rightarrow> jsstr" where
  "quote_json s = [34] @ quote_body s @ [34]"

text \<open>\<open>JSON.stringify(v)\<close>; \<open>None\<close> is \<open>undefined\<close>.\<close>

fun json_stringify :: "jsval \<Rightarrow> jsstr option" where
  "json_stringify Undefined = None"
| "json_stringify Null = Some (js ''null'')"
| "json_stringify (Bool b) = Some (if b then js ''true'' else js ''false'')"
| "json_stringify (Number n) = Some (if is_finite n then number_to_string n else js ''null'')"
| "json_stringify (Str s) = Some (quote_json s)"
| "json_stringify (Arr xs) =
     Some ([91] @ join [44] (map (\<lambda>x. case json_stringify x of Some t \<Rightarrow> t | None \<Rightarrow> js ''null'') xs) @ [93])"
| "json_stringify (Obj ps) =
     Some ([123] @ join [44] (map (\<lambda>(k, t). quote_json k @ [58] @ t)
        (List.map_filter (\<lambda>(k, t). map_option (\<lambda>u. (k, u)) t)
          (own_entries (map (\<lambda>(k, x). (k, json_stringify x)) ps)))) @ [125])"

section \<open>Reading JSON\<close>

text \<open>\<open>None\<close> is a \<open>SyntaxError\<close>. Readers return what they read and the rest of the text.\<close>

definition json_space :: "code_unit \<Rightarrow> bool" where
  "json_space c \<longleftrightarrow> c = 32 \<or> c = 9 \<or> c = 10 \<or> c = 13"

definition skip_space :: "jsstr \<Rightarrow> jsstr" where
  "skip_space s = dropWhile json_space s"

fun read_string :: "jsstr \<Rightarrow> (jsstr \<times> jsstr) option" where
  "read_string [] = None"
| "read_string (c # s) =
     (if c = 34 then Some ([], s)
      else if c < 32 then None
      else if c \<noteq> 92 then map_option (\<lambda>(t, r). (c # t, r)) (read_string s)
      else case s of [] \<Rightarrow> None
        | e # s' \<Rightarrow>
          (if e = 117 then
             (case s' of h1 # h2 # h3 # h4 # r \<Rightarrow>
                if list_all (\<lambda>h. 0 \<le> hex_digit h) [h1, h2, h3, h4] then
                  map_option (\<lambda>(t, r'). ((((hex_digit h1 * 16 + hex_digit h2) * 16 + hex_digit h3) * 16 + hex_digit h4) # t, r'))
                    (read_string r)
                else None
              | _ \<Rightarrow> None)
           else case map_of [(34, 34), (92, 92), (47, 47), (98, 8), (102, 12), (110, 10), (114, 13), (116, 9)] e of
             None \<Rightarrow> None
           | Some d \<Rightarrow> map_option (\<lambda>(t, r). (d # t, r)) (read_string s')))"

definition read_digits :: "jsstr \<Rightarrow> jsstr \<times> jsstr" where
  "read_digits s = (takeWhile is_digit s, dropWhile is_digit s)"

definition read_fraction :: "jsstr \<Rightarrow> (jsstr \<times> jsstr) option" where
  "read_fraction s =
     (case s of c # r \<Rightarrow>
        if c = 46 then (let (ds, r') = read_digits r in if ds = [] then None else Some (c # ds, r'))
        else Some ([], s)
      | [] \<Rightarrow> Some ([], []))"

definition read_exponent :: "jsstr \<Rightarrow> (jsstr \<times> jsstr) option" where
  "read_exponent s =
     (case s of c # r \<Rightarrow>
        if c = 101 \<or> c = 69 then
          (let (sg, r1) = (case r of d # r' \<Rightarrow> if d = 43 \<or> d = 45 then ([d], r') else ([], r) | [] \<Rightarrow> ([], []));
               (ds, r2) = read_digits r1
           in if ds = [] then None else Some (c # sg @ ds, r2))
        else Some ([], s)
      | [] \<Rightarrow> Some ([], []))"

definition read_number :: "jsstr \<Rightarrow> (jsval \<times> jsstr) option" where
  "read_number s =
     (let (sg, s1) = (case s of c # r \<Rightarrow> if c = 45 then ([c], r) else ([], s) | [] \<Rightarrow> ([], []));
          (ds, s2) = read_digits s1
      in if ds = [] \<or> (hd ds = 48 \<and> length ds \<noteq> 1) then None
         else case read_fraction s2 of None \<Rightarrow> None
           | Some (fr, s3) \<Rightarrow>
             (case read_exponent s3 of None \<Rightarrow> None
              | Some (ex, s4) \<Rightarrow> Some (Number (to_number (sg @ ds @ fr @ ex)), s4)))"

definition read_word :: "string \<Rightarrow> jsval \<Rightarrow> jsstr \<Rightarrow> (jsval \<times> jsstr) option" where
  "read_word w v s = (if starts_with s (js w) then Some (v, drop (length w) s) else None)"

text \<open>Every nested value consumes a character, so the length of the text bounds the recursion.\<close>

fun read_value :: "nat \<Rightarrow> jsstr \<Rightarrow> (jsval \<times> jsstr) option"
  and read_elements :: "nat \<Rightarrow> jsstr \<Rightarrow> (jsval list \<times> jsstr) option"
  and read_members :: "nat \<Rightarrow> jsstr \<Rightarrow> ((jsstr \<times> jsval) list \<times> jsstr) option"
where
  "read_value 0 s = None"
| "read_value (Suc n) s =
     (case skip_space s of [] \<Rightarrow> None
      | c # r \<Rightarrow>
        if c = 34 then map_option (\<lambda>(t, r'). (Str t, r')) (read_string r)
        else if c = 91 then
          (case skip_space r of d # r' \<Rightarrow>
             if d = 93 then Some (Arr [], r') else map_option (\<lambda>(xs, u). (Arr xs, u)) (read_elements n r)
           | [] \<Rightarrow> None)
        else if c = 123 then
          (case skip_space r of d # r' \<Rightarrow>
             if d = 125 then Some (Obj [], r')
             else map_option (\<lambda>(ps, u). (Obj (foldl (\<lambda>o' (k, v). map_put k v o') [] ps), u)) (read_members n r)
           | [] \<Rightarrow> None)
        else if c = 116 then read_word ''true'' (Bool True) (c # r)
        else if c = 102 then read_word ''false'' (Bool False) (c # r)
        else if c = 110 then read_word ''null'' Null (c # r)
        else read_number (c # r))"
| "read_elements 0 s = None"
| "read_elements (Suc n) s =
     (case read_value n s of None \<Rightarrow> None
      | Some (x, r) \<Rightarrow>
        (case skip_space r of [] \<Rightarrow> None
         | c # r' \<Rightarrow>
           if c = 93 then Some ([x], r')
           else if c = 44 then map_option (\<lambda>(xs, u). (x # xs, u)) (read_elements n r')
           else None))"
| "read_members 0 s = None"
| "read_members (Suc n) s =
     (case skip_space s of [] \<Rightarrow> None
      | q # r \<Rightarrow>
        if q \<noteq> 34 then None
        else case read_string r of None \<Rightarrow> None
          | Some (k, r1) \<Rightarrow>
            (case skip_space r1 of [] \<Rightarrow> None
             | c # r2 \<Rightarrow>
               if c \<noteq> 58 then None
               else case read_value n r2 of None \<Rightarrow> None
                 | Some (v, r3) \<Rightarrow>
                   (case skip_space r3 of [] \<Rightarrow> None
                    | d # r4 \<Rightarrow>
                      if d = 125 then Some ([(k, v)], r4)
                      else if d = 44 then map_option (\<lambda>(ps, u). ((k, v) # ps, u)) (read_members n r4)
                      else None)))"

definition json_parse :: "jsstr \<Rightarrow> jsval option" where
  "json_parse s =
     (case read_value (2 * length s + 2) s of
        Some (v, r) \<Rightarrow> if skip_space r = [] then Some v else None
      | None \<Rightarrow> None)"

end
