(* ===== verification/RequestRules.thy ===== *)
theory RequestRules
  imports BillingEval JsValue
begin

text \<open>
  The request rules of billing expressions, the second half of
  \<open>src/apps/web/src/features/pricing/lib/billing-expr.ts\<close>: rules multiply the price of a request when
  conditions on its parameters, headers or time hold. The editor writes rules as text
  (\<open>buildRequestRuleExpr\<close>), joins them to the price (\<open>combineBillingExpr\<close>) and reads both back
  (\<open>splitBillingExprAndRequestRules\<close>, \<open>tryParseRequestRuleExpr\<close>).

  A regular expression of the code is a sequence of matchers: \<open>match_lit\<close> for literal text and
  \<open>match_run\<close> for a repeated class of characters. In every expression used, the character after a
  repetition is not in its class, so the longest run is the only one that can match.
\<close>

section \<open>Constants and types\<close>

definition MATCH_EQ :: jsstr where "MATCH_EQ = js ''eq''"
definition MATCH_CONTAINS :: jsstr where "MATCH_CONTAINS = js ''contains''"
definition MATCH_GT :: jsstr where "MATCH_GT = js ''gt''"
definition MATCH_GTE :: jsstr where "MATCH_GTE = js ''gte''"
definition MATCH_LT :: jsstr where "MATCH_LT = js ''lt''"
definition MATCH_LTE :: jsstr where "MATCH_LTE = js ''lte''"
definition MATCH_EXISTS :: jsstr where "MATCH_EXISTS = js ''exists''"
definition MATCH_RANGE :: jsstr where "MATCH_RANGE = js ''range''"

lemmas match_defs = MATCH_EQ_def MATCH_CONTAINS_def MATCH_GT_def MATCH_GTE_def MATCH_LT_def MATCH_LTE_def
  MATCH_EXISTS_def MATCH_RANGE_def

definition TIME_FUNCS :: "jsstr list" where
  "TIME_FUNCS = [js ''hour'', js ''minute'', js ''weekday'', js ''month'', js ''day'']"

datatype ph_source = SOURCE_PARAM | SOURCE_HEADER

datatype request_condition =
    ParamHeaderCondition (psource: ph_source) (path: jsstr) (cmode: jsstr) (cvalue: jsstr)
  | TimeCondition (timeFunc: jsstr) (timezone: jsstr) (cmode: jsstr) (cvalue: jsstr)
      (rangeStart: jsstr) (rangeEnd: jsstr)

record rule_group =
  conditions :: "request_condition list"
  multiplier :: jsstr
  conditionText :: "jsstr option"
  matched :: "bool option"

record rule_trace =
  trace_cond :: jsstr
  trace_multiplier :: number
  trace_matched :: bool

section \<open>Matchers\<close>

definition match_lit :: "jsstr \<Rightarrow> jsstr \<Rightarrow> jsstr option" where
  "match_lit l s = (if starts_with s l then Some (drop (length l) s) else None)"

definition match_run :: "(code_unit \<Rightarrow> bool) \<Rightarrow> jsstr \<Rightarrow> (jsstr \<times> jsstr) option" where
  "match_run P s = (case takeWhile P s of [] \<Rightarrow> None | t \<Rightarrow> Some (t, dropWhile P s))"

text \<open>\<open>[\d.eE+-]\<close> and \<open>[^"]\<close>\<close>

definition num_char :: "code_unit \<Rightarrow> bool" where
  "num_char c \<longleftrightarrow> is_digit c \<or> c = 46 \<or> c = 101 \<or> c = 69 \<or> c = 43 \<or> c = 45"

definition not_quote :: "code_unit \<Rightarrow> bool" where
  "not_quote c \<longleftrightarrow> c \<noteq> 34"

text \<open>What \<open>.\<close> does not match.\<close>

definition line_end :: "code_unit \<Rightarrow> bool" where
  "line_end c \<longleftrightarrow> c = 10 \<or> c = 13 \<or> c = 8232 \<or> c = 8233"

text \<open>\<open>name("text")\<close>, giving the text and the rest.\<close>

definition match_call :: "jsstr \<Rightarrow> jsstr \<Rightarrow> (jsstr \<times> jsstr) option" where
  "match_call name s =
     (case match_lit (name @ js ''(\"'') s of None \<Rightarrow> None
      | Some s1 \<Rightarrow>
        (case match_run not_quote s1 of None \<Rightarrow> None
         | Some (t, s2) \<Rightarrow> map_option (\<lambda>r. (t, r)) (match_lit (js ''\")'') s2)))"

text \<open>\<open>"(?:[^"\\]|\\.)*"\<close> up to its closing quote, giving the whole literal and the rest.\<close>

fun literal_body :: "jsstr \<Rightarrow> (jsstr \<times> jsstr) option" where
  "literal_body [] = None"
| "literal_body (c # s) =
     (if c = 34 then Some ([c], s)
      else if c = 92 then
        (case s of [] \<Rightarrow> None
         | d # s' \<Rightarrow> if line_end d then None else map_option (\<lambda>(t, r). (c # d # t, r)) (literal_body s'))
      else map_option (\<lambda>(t, r). (c # t, r)) (literal_body s))"

definition match_literal :: "jsstr \<Rightarrow> (jsstr \<times> jsstr) option" where
  "match_literal s =
     (case s of c # r \<Rightarrow> if c = 34 then map_option (\<lambda>(t, u). (c # t, u)) (literal_body r) else None
      | [] \<Rightarrow> None)"

text \<open>\<open>NUMERIC_LITERAL_REGEX\<close>\<close>

definition numeric_exponent :: "jsstr \<Rightarrow> bool" where
  "numeric_exponent s =
     (case s of [] \<Rightarrow> True
      | c # r \<Rightarrow>
        (c = 101 \<or> c = 69) \<and>
        (let ds = (case r of d # r' \<Rightarrow> if d = 43 \<or> d = 45 then r' else r | [] \<Rightarrow> [])
         in ds \<noteq> [] \<and> list_all is_digit ds))"

definition is_numeric_literal :: "jsstr \<Rightarrow> bool" where
  "is_numeric_literal s =
     (let s1 = (case s of c # r \<Rightarrow> if c = 45 then r else s | [] \<Rightarrow> []);
          whole = takeWhile is_digit s1; s2 = dropWhile is_digit s1;
          (dot, s3) = (case s2 of c # r \<Rightarrow> if c = 46 then (True, r) else (False, s2) | [] \<Rightarrow> (False, []));
          frac = (if dot then takeWhile is_digit s3 else []);
          s4 = (if dot then dropWhile is_digit s3 else s3)
      in (whole \<noteq> [] \<or> (dot \<and> frac \<noteq> [])) \<and> numeric_exponent s4)"

section \<open>Splitting at the top level\<close>

definition paren :: "code_unit \<Rightarrow> int" where
  "paren c = (if c = 40 then 1 else if c = 41 then - 1 else 0)"

text \<open>The loop of both splitters; \<open>acc\<close> is the current part, reversed.\<close>

function split_top :: "jsstr \<Rightarrow> int \<Rightarrow> jsstr \<Rightarrow> jsstr \<Rightarrow> jsstr list" where
  "split_top sep depth acc [] = [trim (rev acc)]"
| "split_top sep depth acc (c # r) =
     (let depth' = depth + paren c
      in if depth' = 0 \<and> starts_with (c # r) sep
         then trim (rev acc) # split_top sep depth' [] (drop (length sep - 1) r)
         else split_top sep depth' (c # acc) r)"
  by pat_completeness auto
termination
  by (relation "measure (\<lambda>(_, _, _, s). length s)") auto

definition splitTopLevelMultiply :: "jsstr \<Rightarrow> jsstr list" where
  "splitTopLevelMultiply expr = filter nonempty (split_top (js '' * '') 0 [] expr)"

definition splitTopLevelAnd :: "jsstr \<Rightarrow> jsstr list" where
  "splitTopLevelAnd expr = filter nonempty (split_top (js '' && '') 0 [] expr)"

section \<open>Reading rules\<close>

definition parseExprLiteral :: "jsstr \<Rightarrow> jsval option" where
  "parseExprLiteral raw =
     (let text = trim raw
      in if text = js ''true'' \<or> text = js ''false'' then Some (Str text)
         else if is_numeric_literal text then Some (Str text)
         else case json_parse text of None \<Rightarrow> None | Some v \<Rightarrow> if v = Null then None else Some v)"

text \<open>The first of \<open>TIME_FUNCS\<close> with which the text is a call.\<close>

fun match_time_call :: "jsstr list \<Rightarrow> jsstr \<Rightarrow> (jsstr \<times> jsstr \<times> jsstr) option" where
  "match_time_call [] s = None"
| "match_time_call (f # fs) s =
     (case match_call f s of Some (tz, r) \<Rightarrow> Some (f, tz, r) | None \<Rightarrow> match_time_call fs s)"

text \<open>\<open>f("tz") >= a || f("tz") < b\<close> and what follows.\<close>

definition match_time_range :: "jsstr \<Rightarrow> (request_condition \<times> jsstr) option" where
  "match_time_range s =
     (case match_time_call TIME_FUNCS s of None \<Rightarrow> None
      | Some (f, tz, s1) \<Rightarrow>
        (case match_lit (js '' >= '') s1 of None \<Rightarrow> None
         | Some s2 \<Rightarrow>
           (case match_run num_char s2 of None \<Rightarrow> None
            | Some (a, s3) \<Rightarrow>
              (case match_lit (js '' || '' @ f @ js ''(\"'' @ tz @ js ''\") < '') s3 of None \<Rightarrow> None
               | Some s4 \<Rightarrow>
                 (case match_run num_char s4 of None \<Rightarrow> None
                  | Some (b, s5) \<Rightarrow> Some (TimeCondition f tz MATCH_RANGE [] a b, s5))))))"

text \<open>The operators of a comparison, tried in the order of the alternatives.\<close>

fun match_operator :: "(jsstr \<times> jsstr) list \<Rightarrow> jsstr \<Rightarrow> (jsstr \<times> jsstr) option" where
  "match_operator [] s = None"
| "match_operator ((op, mode) # ops) s =
     (case match_lit (js '' '' @ op @ js '' '') s of
        None \<Rightarrow> match_operator ops s
      | Some r \<Rightarrow>
          (case match_run num_char r of
             Some (v, []) \<Rightarrow> Some (mode, v)
           | _ \<Rightarrow> match_operator ops s))"

definition time_operators :: "(jsstr \<times> jsstr) list" where
  "time_operators = [(js ''=='', MATCH_EQ), (js ''>='', MATCH_GTE), (js ''<'', MATCH_LT)]"

definition param_operators :: "(jsstr \<times> jsstr) list" where
  "param_operators = [(js ''>'', MATCH_GT), (js ''>='', MATCH_GTE), (js ''<'', MATCH_LT), (js ''<='', MATCH_LTE)]"

definition tryParseTimeCondition :: "jsstr \<Rightarrow> request_condition option" where
  "tryParseTimeCondition expr =
     (case match_time_range expr of
        Some (c, []) \<Rightarrow> Some c
      | _ \<Rightarrow>
        (case (case match_lit (js ''('') expr of None \<Rightarrow> None | Some s \<Rightarrow> match_time_range s) of
           Some (c, [q]) \<Rightarrow> if q = 41 then Some c else None
         | _ \<Rightarrow>
           (case match_time_call TIME_FUNCS expr of None \<Rightarrow> None
            | Some (f, tz, s) \<Rightarrow>
              map_option (\<lambda>(mode, v). TimeCondition f tz mode v [] []) (match_operator time_operators s))))"

text \<open>\<open>has(source("path"), "literal")\<close> to the end of the text.\<close>

definition match_has :: "jsstr \<Rightarrow> jsstr \<Rightarrow> (jsstr \<times> jsstr) option" where
  "match_has name s =
     (case match_lit (js ''has('') s of None \<Rightarrow> None
      | Some s1 \<Rightarrow>
        (case match_call name s1 of None \<Rightarrow> None
         | Some (p, s2) \<Rightarrow>
           (case match_lit (js '', '') s2 of None \<Rightarrow> None
            | Some s3 \<Rightarrow>
              (case match_literal s3 of
                 Some (l, s4) \<Rightarrow> if s4 = js '')'' then Some (p, l) else None
               | None \<Rightarrow> None))))"

definition contains_condition :: "ph_source \<Rightarrow> jsstr \<Rightarrow> jsstr \<Rightarrow> request_condition option" where
  "contains_condition src p l =
     map_option (ParamHeaderCondition src p MATCH_CONTAINS) (tryDecodeStringLiteral l)"

text \<open>\<open>param("path") != nil && \<dots>\<close>: the path and what is guarded.\<close>

definition match_guard :: "jsstr \<Rightarrow> (jsstr \<times> jsstr) option" where
  "match_guard s =
     (case match_call (js ''param'') s of None \<Rightarrow> None
      | Some (p, r) \<Rightarrow> map_option (\<lambda>r'. (p, r')) (match_lit (js '' != nil && '') r))"

definition guarded_contains :: "jsstr \<Rightarrow> (jsstr \<times> jsstr) option" where
  "guarded_contains s =
     (case match_guard s of None \<Rightarrow> None
      | Some (p, r) \<Rightarrow>
        (case match_has (js ''param'') r of
           Some (p', l) \<Rightarrow> if p = p' then Some (p, l) else None
         | None \<Rightarrow> None))"

definition guarded_comparison :: "jsstr \<Rightarrow> request_condition option" where
  "guarded_comparison s =
     (case match_guard s of None \<Rightarrow> None
      | Some (p, r) \<Rightarrow>
        (case match_call (js ''param'') r of None \<Rightarrow> None
         | Some (p', r') \<Rightarrow>
           if p \<noteq> p' then None
           else map_option (\<lambda>(mode, v). ParamHeaderCondition SOURCE_PARAM p mode v)
                  (match_operator param_operators r')))"

definition match_equality :: "jsstr \<Rightarrow> (ph_source \<times> jsstr \<times> jsstr) option" where
  "match_equality s =
     (case (case match_call (js ''param'') s of Some (p, r) \<Rightarrow> Some (SOURCE_PARAM, p, r)
            | None \<Rightarrow> map_option (\<lambda>(p, r). (SOURCE_HEADER, p, r)) (match_call (js ''header'') s)) of
        None \<Rightarrow> None
      | Some (src, p, r) \<Rightarrow>
        (case match_lit (js '' == '') r of
           Some v \<Rightarrow> if v \<noteq> [] \<and> \<not> list_ex line_end v then Some (src, p, v) else None
         | None \<Rightarrow> None))"

definition exists_condition :: "jsstr \<Rightarrow> request_condition option" where
  "exists_condition s =
     (case match_call (js ''header'') s of
        Some (p, r) \<Rightarrow>
          if r = js '' != \"\"'' then Some (ParamHeaderCondition SOURCE_HEADER p MATCH_EXISTS []) else None
      | None \<Rightarrow>
          (case match_call (js ''param'') s of
             Some (p, r) \<Rightarrow>
               if r = js '' != nil'' then Some (ParamHeaderCondition SOURCE_PARAM p MATCH_EXISTS []) else None
           | None \<Rightarrow> None))"

definition tryParseRequestCondition :: "jsstr \<Rightarrow> request_condition option" where
  "tryParseRequestCondition expr =
     (case tryParseTimeCondition expr of Some c \<Rightarrow> Some c
      | None \<Rightarrow>
        (case exists_condition expr of Some c \<Rightarrow> Some c
         | None \<Rightarrow>
           (case match_has (js ''header'') expr of Some (p, l) \<Rightarrow> contains_condition SOURCE_HEADER p l
            | None \<Rightarrow>
              (case guarded_contains expr of Some (p, l) \<Rightarrow> contains_condition SOURCE_PARAM p l
               | None \<Rightarrow>
                 (case guarded_comparison expr of Some c \<Rightarrow> Some c
                  | None \<Rightarrow>
                    (case match_equality expr of None \<Rightarrow> None
                     | Some (src, p, v) \<Rightarrow>
                       map_option (\<lambda>x. ParamHeaderCondition src p MATCH_EQ (string_of_val x))
                         (parseExprLiteral v)))))))"

definition tryParseRequestConditions :: "jsstr \<Rightarrow> request_condition list option" where
  "tryParseRequestConditions conditionStr =
     (case collect_all (\<lambda>part. tryParseRequestCondition (trim part)) (splitTopLevelAnd conditionStr) of
        Some (c # cs) \<Rightarrow> Some (c # cs) | _ \<Rightarrow> None)"

text \<open>\<open>/^\((.+) \? ([\d.eE+-]+) : 1\)$/s\<close>: the condition and the multiplier.\<close>

definition match_factor :: "jsstr \<Rightarrow> (jsstr \<times> jsstr) option" where
  "match_factor part =
     (case match_lit (js ''('') part of None \<Rightarrow> None
      | Some s \<Rightarrow>
        if \<not> ends_with s (js '' : 1)'') then None
        else let body = take (length s - 5) s;
                 m = rev (takeWhile num_char (rev body));
                 front = take (length body - length m) body
             in if m = [] \<or> \<not> ends_with front (js '' ? '') then None
                else let c = take (length front - 3) front in if c = [] then None else Some (c, m))"

definition tryParseRuleGroupFactor :: "jsstr \<Rightarrow> rule_group option" where
  "tryParseRuleGroupFactor part =
     (case match_factor part of None \<Rightarrow> None
      | Some (c, m) \<Rightarrow>
        map_option (\<lambda>cs. \<lparr>conditions = cs, multiplier = m, conditionText = None, matched = None\<rparr>)
          (tryParseRequestConditions c))"

definition requestRuleGroupsFromTrace :: "rule_trace list \<Rightarrow> rule_group list" where
  "requestRuleGroupsFromTrace rules =
     map (\<lambda>rule. let text = trim (trace_cond rule)
          in \<lparr>conditions = (case tryParseRequestConditions text of Some cs \<Rightarrow> cs | None \<Rightarrow> []),
              multiplier = number_to_string (trace_multiplier rule),
              conditionText = Some text, matched = Some (trace_matched rule)\<rparr>) rules"

definition tryParseRequestRuleExpr :: "jsstr \<Rightarrow> rule_group list option" where
  "tryParseRequestRuleExpr expr =
     (let trimmed = trim expr
      in if trimmed = [] then Some []
         else collect_all tryParseRuleGroupFactor (splitTopLevelMultiply trimmed))"

section \<open>Joining and separating price and rules\<close>

text \<open>The depth after each character is 0 only at the end.\<close>

fun outer_parens_loop :: "int \<Rightarrow> jsstr \<Rightarrow> bool" where
  "outer_parens_loop depth [] = (depth = 0)"
| "outer_parens_loop depth (c # r) =
     (if depth + paren c = 0 \<and> r \<noteq> [] then False else outer_parens_loop (depth + paren c) r)"

definition hasFullOuterParens :: "jsstr \<Rightarrow> bool" where
  "hasFullOuterParens expr \<longleftrightarrow>
     starts_with expr (js ''('') \<and> ends_with expr (js '')'') \<and> outer_parens_loop 0 expr"

definition inner :: "jsstr \<Rightarrow> jsstr" where
  "inner s = trim (butlast (tl s))"

lemma inner_shorter: "s \<noteq> [] \<Longrightarrow> length (inner s) < length s"
  unfolding inner_def using length_trim [of "butlast (tl s)"] by (cases s) auto

lemma hasFullOuterParens_nonempty: "hasFullOuterParens s \<Longrightarrow> s \<noteq> []"
  by (auto simp: hasFullOuterParens_def starts_with_def js_def)

function unwrap_loop :: "jsstr \<Rightarrow> jsstr" where
  "unwrap_loop current = (if hasFullOuterParens current then unwrap_loop (inner current) else current)"
  by pat_completeness auto
termination
  by (relation "measure length") (auto dest: hasFullOuterParens_nonempty intro: inner_shorter)

declare unwrap_loop.simps [simp del]

definition unwrapOuterParens :: "jsstr \<Rightarrow> jsstr" where
  "unwrapOuterParens expr = unwrap_loop (trim expr)"

definition splitBillingExprAndRequestRules :: "jsstr \<Rightarrow> jsstr \<times> jsstr" where
  "splitBillingExprAndRequestRules expr =
     (let trimmed = trim expr
      in if trimmed = [] then ([], [])
         else let parts = splitTopLevelMultiply trimmed
              in if length parts \<le> 1 then (trimmed, [])
                 else let is_rule = (\<lambda>part. case tryParseRequestRuleExpr part of
                            Some groups \<Rightarrow> groups \<noteq> [] | None \<Rightarrow> False);
                          ruleParts = filter is_rule parts;
                          baseParts = filter (\<lambda>part. \<not> is_rule part) parts
                      in if ruleParts = [] \<or> length baseParts \<noteq> 1 then (trimmed, [])
                         else (unwrapOuterParens (hd baseParts), join (js '' * '') ruleParts))"

definition combineBillingExpr :: "jsstr \<Rightarrow> jsstr \<Rightarrow> jsstr" where
  "combineBillingExpr baseExpr requestRuleExpr =
     (let base = trim baseExpr; rules = trim requestRuleExpr
      in if base = [] then [] else if rules = [] then base
         else js ''('' @ base @ js '') * '' @ rules)"

section \<open>The editor\<close>

definition createEmptyCondition :: request_condition where
  "createEmptyCondition = ParamHeaderCondition SOURCE_PARAM [] MATCH_EQ []"

definition createEmptyTimeCondition :: request_condition where
  "createEmptyTimeCondition = TimeCondition (js ''hour'') (js ''Asia/Shanghai'') MATCH_GTE [] [] []"

definition createEmptyRuleGroup :: rule_group where
  "createEmptyRuleGroup =
     \<lparr>conditions = [createEmptyCondition], multiplier = [], conditionText = None, matched = None\<rparr>"

definition createEmptyTimeRuleGroup :: rule_group where
  "createEmptyTimeRuleGroup =
     \<lparr>conditions = [createEmptyTimeCondition], multiplier = [], conditionText = None, matched = None\<rparr>"

text \<open>The match options of a source, by value and label.\<close>

definition getRequestRuleMatchOptions :: "jsstr \<Rightarrow> (jsstr \<times> jsstr) list" where
  "getRequestRuleMatchOptions source =
     (if source = js ''time'' then
        [(MATCH_EQ, js ''Equals''), (MATCH_GTE, js ''Greater than or equal''), (MATCH_LT, js ''Less than''),
         (MATCH_RANGE, js ''Overnight range'')]
      else let base = [(MATCH_EQ, js ''Equals''), (MATCH_CONTAINS, js ''Contains''), (MATCH_EXISTS, js ''Exists'')]
           in if source = js ''header'' then base
              else base @ [(MATCH_GT, js ''Greater than''), (MATCH_GTE, js ''Greater than or equal''),
                           (MATCH_LT, js ''Less than''), (MATCH_LTE, js ''Less than or equal'')])"

definition isTimeFunc :: "jsval \<Rightarrow> bool" where
  "isTimeFunc value = (case value of Str s \<Rightarrow> s \<in> set TIME_FUNCS | _ \<Rightarrow> False)"

definition option_mode :: "jsstr \<Rightarrow> jsval \<Rightarrow> jsstr \<Rightarrow> jsstr" where
  "option_mode source mode default_mode =
     (case mode of
        Str m \<Rightarrow> if m \<in> fst ` set (getRequestRuleMatchOptions source) then m else default_mode
      | _ \<Rightarrow> default_mode)"

definition text_or_blank :: "jsval \<Rightarrow> jsstr" where
  "text_or_blank v = (if nullish v then [] else string_of_val v)"

text \<open>\<open>normalizeCondition\<close>, on any value: \<open>cond?.x\<close> of something else is \<open>undefined\<close>.\<close>

definition normalizeCondition :: "jsval \<Rightarrow> request_condition" where
  "normalizeCondition cond =
     (let src = get_prop cond (js ''source'')
      in if src = Str (js ''time'') then
           TimeCondition
             (if isTimeFunc (get_prop cond (js ''timeFunc'')) then str_of (get_prop cond (js ''timeFunc'')) else js ''hour'')
             (str_of (or_else (get_prop cond (js ''timezone'')) (Str (js ''Asia/Shanghai''))))
             (option_mode (js ''time'') (get_prop cond (js ''mode'')) MATCH_GTE)
             (text_or_blank (get_prop cond (js ''value'')))
             (text_or_blank (get_prop cond (js ''rangeStart'')))
             (text_or_blank (get_prop cond (js ''rangeEnd'')))
         else let header = (src = Str (js ''header''))
              in ParamHeaderCondition (if header then SOURCE_HEADER else SOURCE_PARAM)
                   (str_of (or_else (get_prop cond (js ''path'')) (Str [])))
                   (option_mode (if header then js ''header'' else js ''param'') (get_prop cond (js ''mode'')) MATCH_EQ)
                   (text_or_blank (get_prop cond (js ''value''))))"

text \<open>A condition as the object it is.\<close>

fun cond_val :: "request_condition \<Rightarrow> jsval" where
  "cond_val (ParamHeaderCondition src p m v) =
     Obj [(js ''source'', Str (case src of SOURCE_PARAM \<Rightarrow> js ''param'' | SOURCE_HEADER \<Rightarrow> js ''header'')),
          (js ''path'', Str p), (js ''mode'', Str m), (js ''value'', Str v)]"
| "cond_val (TimeCondition f tz m v a b) =
     Obj [(js ''source'', Str (js ''time'')), (js ''timeFunc'', Str f), (js ''timezone'', Str tz),
          (js ''mode'', Str m), (js ''value'', Str v), (js ''rangeStart'', Str a), (js ''rangeEnd'', Str b)]"

section \<open>Writing rules\<close>

definition buildExprLiteral :: "jsstr \<Rightarrow> jsstr \<Rightarrow> jsstr" where
  "buildExprLiteral mode value =
     (let text = trim value
      in if mode = MATCH_CONTAINS then quote_json text
         else if text = js ''true'' \<or> text = js ''false'' then text
         else if is_numeric_literal text then text
         else quote_json text)"

definition build_time :: "jsstr \<Rightarrow> jsstr \<Rightarrow> jsstr \<Rightarrow> jsstr \<Rightarrow> jsstr \<Rightarrow> jsstr \<Rightarrow> jsstr" where
  "build_time func tz mode value start0 end0 =
     (let fn = func @ js ''('' @ quote_json tz @ js '')''
      in if mode = MATCH_RANGE then
           (let s = trim start0; e = trim end0
            in if \<not> is_numeric_literal s \<or> \<not> is_numeric_literal e then []
               else fn @ js '' >= '' @ s @ js '' || '' @ fn @ js '' < '' @ e)
         else let v = trim value
              in if \<not> is_numeric_literal v then []
                 else fn @ js '' '' @
                   (if mode = MATCH_GTE then js ''>='' else if mode = MATCH_LT then js ''<'' else js ''=='') @
                   js '' '' @ v)"

definition build_ph :: "ph_source \<Rightarrow> jsstr \<Rightarrow> jsstr \<Rightarrow> jsstr \<Rightarrow> jsstr" where
  "build_ph src path0 mode value =
     (let path = trim path0;
          sourceExpr = (case src of SOURCE_HEADER \<Rightarrow> js ''header('' | SOURCE_PARAM \<Rightarrow> js ''param('') @
            quote_json path @ js '')''
      in if path = [] then []
         else if mode = MATCH_EXISTS then
           sourceExpr @ (case src of SOURCE_HEADER \<Rightarrow> js '' != \"\"'' | SOURCE_PARAM \<Rightarrow> js '' != nil'')
         else if mode = MATCH_CONTAINS then
           (case src of SOURCE_HEADER \<Rightarrow> [] | SOURCE_PARAM \<Rightarrow> sourceExpr @ js '' != nil && '') @
           js ''has('' @ sourceExpr @ js '', '' @ buildExprLiteral mode value @ js '')''
         else if mode \<in> {MATCH_GT, MATCH_GTE, MATCH_LT, MATCH_LTE} then
           (let numText = trim value
            in if \<not> is_numeric_literal numText then []
               else sourceExpr @ js '' != nil && '' @ sourceExpr @ js '' '' @
                 (if mode = MATCH_GT then js ''>'' else if mode = MATCH_GTE then js ''>=''
                  else if mode = MATCH_LT then js ''<'' else js ''<='') @ js '' '' @ numText)
         else sourceExpr @ js '' == '' @ buildExprLiteral mode value)"

definition buildRequestConditionExpr :: "request_condition \<Rightarrow> jsstr" where
  "buildRequestConditionExpr cond =
     (case normalizeCondition (cond_val cond) of
        TimeCondition f tz m v a b \<Rightarrow> build_time f tz m v a b
      | ParamHeaderCondition src p m v \<Rightarrow> build_ph src p m v)"

definition buildRuleGroupFactor :: "rule_group \<Rightarrow> jsstr" where
  "buildRuleGroupFactor grp =
     (let m = trim (multiplier grp)
      in if \<not> is_numeric_literal m then []
         else let condExprs = filter nonempty (map buildRequestConditionExpr (conditions grp))
              in if condExprs = [] then []
                 else let combined =
                        (case condExprs of [e] \<Rightarrow> e
                         | _ \<Rightarrow> join (js '' && '')
                             (map (\<lambda>e. if str_includes e (js '' || '') then js ''('' @ e @ js '')'' else e) condExprs))
                      in js ''('' @ combined @ js '' ? '' @ m @ js '' : 1)'')"

definition buildRequestRuleExpr :: "rule_group list \<Rightarrow> jsstr" where
  "buildRequestRuleExpr groups = join (js '' * '') (filter nonempty (map buildRuleGroupFactor groups))"

end
