(* ===== verification/RuleRoundTrip.thy ===== *)
theory RuleRoundTrip
  imports RequestRules
begin

text \<open>
  Reading back what the rule editor writes (\<open>src/apps/web/src/features/pricing/lib/billing-expr.ts\<close>).
  For rules over plain texts the parser is the inverse of the writer; joining rules to a price and
  separating them again gives both back; and a rule with a numeric or containment condition on a
  parameter is the case the parser does not read.
\<close>

section \<open>Plain texts\<close>

text \<open>Printable ASCII without blanks, quotes, backslashes and parentheses.\<close>

definition plain_char :: "code_unit \<Rightarrow> bool" where
  "plain_char c \<longleftrightarrow> 33 \<le> c \<and> c \<le> 126 \<and> c \<noteq> 34 \<and> c \<noteq> 40 \<and> c \<noteq> 41 \<and> c \<noteq> 92"

definition plain_text :: "jsstr \<Rightarrow> bool" where
  "plain_text s \<longleftrightarrow> list_all plain_char s"

lemma plain_simps [simp]:
  "plain_text []" "plain_text (c # s) \<longleftrightarrow> plain_char c \<and> plain_text s"
  "plain_text (s @ t) \<longleftrightarrow> plain_text s \<and> plain_text t"
  by (simp_all add: plain_text_def)

lemma plain_char_facts:
  assumes "plain_char c"
  shows "\<not> is_space c" and "c \<noteq> 32" and "c \<noteq> 34" and "c \<noteq> 92" and "paren c = 0" and "not_quote c"
    and "\<not> line_end c" and "escape_unit c = [c]" and "\<not> is_lead c" and "\<not> c < 32"
  using assms
  by (auto simp: plain_char_def is_space_def paren_def not_quote_def line_end_def escape_unit_def
      is_lead_def is_trail_def)

lemma plain_set: "plain_text s \<Longrightarrow> c \<in> set s \<Longrightarrow> plain_char c"
  by (simp add: plain_text_def list_all_iff)

lemma trim_plain: "plain_text s \<Longrightarrow> trim s = s"
  by (rule trim_no_space) (auto dest: plain_set plain_char_facts(1))

lemma quote_plain: "plain_text s \<Longrightarrow> quote_json s = 34 # s @ [34]"
proof -
  have "plain_text s \<Longrightarrow> quote_body s = s"
    by (induction s rule: quote_body.induct) (simp_all add: plain_char_facts)
  then show "plain_text s \<Longrightarrow> quote_json s = 34 # s @ [34]"
    by (simp add: quote_json_def)
qed

lemma decode_plain: "plain_text s \<Longrightarrow> decode_loop d (s @ [34]) = Inr (d @ s)"
proof (induction s arbitrary: d)
  case (Cons c s)
  then show ?case
    by (cases s) (simp_all add: plain_char_facts)
qed simp

lemma read_string_plain: "plain_text s \<Longrightarrow> read_string (s @ 34 # r) = Some (s, r)"
  by (induction s) (simp_all add: plain_char_facts)

lemma json_parse_plain: "plain_text s \<Longrightarrow> json_parse (34 # s @ [34]) = Some (Str s)"
  by (simp add: json_parse_def skip_space_def json_space_def read_string_plain)

lemma literal_body_plain: "plain_text s \<Longrightarrow> literal_body (s @ 34 # r) = Some (s @ [34], r)"
  by (induction s) (simp_all add: plain_char_facts)

section \<open>Matching plain texts\<close>

lemma starts_with_simps [simp]:
  "starts_with s []" "\<not> starts_with [] (d # l)" "starts_with (c # s) (d # l) \<longleftrightarrow> c = d \<and> starts_with s l"
  by (auto simp: starts_with_def)

lemma match_lit_simps [simp]:
  "match_lit [] s = Some s" "match_lit (d # l) [] = None"
  "match_lit (d # l) (c # s) = (if c = d then match_lit l s else None)"
  by (simp_all add: match_lit_def)

lemma match_lit_append [simp]: "match_lit l (l @ s) = Some s"
  by (simp add: match_lit_def starts_with_def)

lemma match_run_end: "t \<noteq> [] \<Longrightarrow> list_all P t \<Longrightarrow> match_run P t = Some (t, [])"
  by (cases t) (auto simp: match_run_def list_all_iff takeWhile_all)

lemma match_run_stop:
  "t \<noteq> [] \<Longrightarrow> list_all P t \<Longrightarrow> \<not> P c \<Longrightarrow> match_run P (t @ c # r) = Some (t, c # r)"
  by (cases t) (auto simp: match_run_def list_all_iff takeWhile_append2 dropWhile_append2)

lemma plain_not_quote: "plain_text t \<Longrightarrow> list_all not_quote t"
  by (auto simp: list_all_iff dest: plain_set plain_char_facts(6))

lemma match_call_plain:
  assumes "plain_text p" and "p \<noteq> []"
  shows "match_call f (f @ 40 # 34 # p @ 34 # 41 # r) = Some (p, r)"
proof -
  have "match_lit (f @ js ''(\"'') (f @ 40 # 34 # p @ 34 # 41 # r) = Some (p @ 34 # 41 # r)"
    using match_lit_append [of "f @ js ''(\"''" "p @ 34 # 41 # r"] by (simp add: js_eval)
  moreover have "match_run not_quote (p @ 34 # 41 # r) = Some (p, 34 # 41 # r)"
    using assms by (intro match_run_stop) (simp_all add: plain_not_quote not_quote_def)
  ultimately show ?thesis
    by (simp add: match_call_def js_eval)
qed

text \<open>A call of another function is not matched.\<close>

lemma match_call_other: "match_lit (f @ [40, 34]) s = None \<Longrightarrow> match_call f s = None"
  by (simp add: match_call_def js_eval)

text \<open>The texts of the calls, evaluated.\<close>

definition call_text :: "string \<Rightarrow> jsstr \<Rightarrow> jsstr \<Rightarrow> jsstr" where
  "call_text f p r = js f @ 40 # 34 # p @ 34 # 41 # r"

lemma match_call_text:
  "plain_text p \<Longrightarrow> p \<noteq> [] \<Longrightarrow> match_call (js f) (call_text f p r) = Some (p, r)"
  by (simp add: call_text_def match_call_plain)

lemma match_call_differs:
  "match_lit (js g @ [40, 34]) (js f @ 40 # 34 # p @ 34 # 41 # r) = None \<Longrightarrow>
   match_call (js g) (call_text f p r) = None"
  by (simp add: call_text_def match_call_other)

lemma match_calls:
  "match_call (js ''param'') (call_text ''header'' p r) = None"
  "match_call (js ''header'') (call_text ''param'' p r) = None"
  "match_call (js ''hour'') (call_text ''param'' p r) = None"
  "match_call (js ''minute'') (call_text ''param'' p r) = None"
  "match_call (js ''weekday'') (call_text ''param'' p r) = None"
  "match_call (js ''month'') (call_text ''param'' p r) = None"
  "match_call (js ''day'') (call_text ''param'' p r) = None"
  "match_call (js ''hour'') (call_text ''header'' p r) = None"
  "match_call (js ''minute'') (call_text ''header'' p r) = None"
  "match_call (js ''weekday'') (call_text ''header'' p r) = None"
  "match_call (js ''month'') (call_text ''header'' p r) = None"
  "match_call (js ''day'') (call_text ''header'' p r) = None"
  "match_call (js ''hour'') (call_text ''minute'' p r) = None"
  "match_call (js ''hour'') (call_text ''weekday'' p r) = None"
  "match_call (js ''minute'') (call_text ''weekday'' p r) = None"
  "match_call (js ''hour'') (call_text ''month'' p r) = None"
  "match_call (js ''minute'') (call_text ''month'' p r) = None"
  "match_call (js ''weekday'') (call_text ''month'' p r) = None"
  "match_call (js ''hour'') (call_text ''day'' p r) = None"
  "match_call (js ''minute'') (call_text ''day'' p r) = None"
  "match_call (js ''weekday'') (call_text ''day'' p r) = None"
  "match_call (js ''month'') (call_text ''day'' p r) = None"
  by (rule match_call_differs, simp add: js_eval)+

lemma TIME_FUNCS_text: "f \<in> set TIME_FUNCS \<Longrightarrow> \<exists>g \<in> {''hour'', ''minute'', ''weekday'', ''month'', ''day''}. f = js g"
  by (auto simp: TIME_FUNCS_def)

lemma match_time_call_text:
  assumes "js g \<in> set TIME_FUNCS" and "plain_text tz" and "tz \<noteq> []"
  shows "match_time_call TIME_FUNCS (call_text g tz r) = Some (js g, tz, r)"
  using assms match_call_text [OF assms(2,3)] by (auto simp: TIME_FUNCS_def match_calls)

lemma match_time_call_ph:
  "match_time_call TIME_FUNCS (call_text ''param'' p r) = None"
  "match_time_call TIME_FUNCS (call_text ''header'' p r) = None"
  by (simp_all add: TIME_FUNCS_def match_calls)

section \<open>Numeric literals\<close>

lemma num_char_plain: "num_char c \<Longrightarrow> plain_char c"
  by (auto simp: num_char_def plain_char_def is_digit_def)

lemma num_text_plain: "list_all num_char s \<Longrightarrow> plain_text s"
  by (auto simp: plain_text_def list_all_iff num_char_plain)

lemma digits_num_char: "list_all is_digit s \<Longrightarrow> list_all num_char s"
  by (auto simp: list_all_iff num_char_def)

lemma numeric_exponent_chars: "numeric_exponent s \<Longrightarrow> list_all num_char s"
  by (auto simp: numeric_exponent_def Let_def num_char_def split: list.splits if_splits dest!: digits_num_char)

lemma numeric_chars:
  assumes "is_numeric_literal s"
  shows "s \<noteq> []" and "list_all num_char s"
proof -
  have dig: "list_all num_char (takeWhile is_digit u)" for u
    by (auto simp: list_all_iff num_char_def dest: set_takeWhileD)
  have join: "list_all num_char (takeWhile is_digit u) \<Longrightarrow> list_all num_char (dropWhile is_digit u) \<Longrightarrow>
    list_all num_char u" for u
    by (metis list_all_append takeWhile_dropWhile_id)
  show "s \<noteq> []"
    using assms by (auto simp: is_numeric_literal_def)
  define u where "u = (case s of c # r \<Rightarrow> if c = 45 then r else s | [] \<Rightarrow> [])"
  define v where "v = dropWhile is_digit u"
  have "list_all num_char v"
  proof (cases v)
    case (Cons c r)
    show ?thesis
    proof (cases "c = 46")
      case True
      with assms Cons have "numeric_exponent (dropWhile is_digit r)"
        by (simp add: is_numeric_literal_def Let_def flip: u_def v_def)
      with join [OF dig, of r] Cons True show ?thesis
        by (simp add: num_char_def numeric_exponent_chars)
    next
      case False
      with assms Cons have "numeric_exponent v"
        by (simp add: is_numeric_literal_def Let_def flip: u_def v_def)
      then show ?thesis by (rule numeric_exponent_chars)
    qed
  qed simp
  with join [OF dig, of u] have "list_all num_char u"
    by (simp add: v_def)
  then show "list_all num_char s"
    by (auto simp: u_def num_char_def split: list.splits if_splits)
qed

lemma numeric_plain: "is_numeric_literal s \<Longrightarrow> plain_text s"
  by (simp add: numeric_chars num_text_plain)

lemma trim_numeric: "is_numeric_literal s \<Longrightarrow> trim s = s"
  by (simp add: numeric_plain trim_plain)

section \<open>Conditions\<close>

text \<open>
  The conditions the theorem is about: plain paths, zones and values; numeric literals where the editor
  asks for a number; and no numeric or containment condition on a parameter.
\<close>

fun plain_condition :: "request_condition \<Rightarrow> bool" where
  "plain_condition (ParamHeaderCondition src p m v) \<longleftrightarrow>
     p \<noteq> [] \<and> plain_text p \<and> plain_text v \<and>
     (m = MATCH_EXISTS \<and> v = [] \<or> m = MATCH_EQ \<or> m = MATCH_CONTAINS \<and> src = SOURCE_HEADER)"
| "plain_condition (TimeCondition f tz m v a b) \<longleftrightarrow>
     f \<in> set TIME_FUNCS \<and> tz \<noteq> [] \<and> plain_text tz \<and>
     (m = MATCH_RANGE \<and> v = [] \<and> is_numeric_literal a \<and> is_numeric_literal b \<or>
      (m = MATCH_EQ \<or> m = MATCH_GTE \<or> m = MATCH_LT) \<and> a = [] \<and> b = [] \<and> is_numeric_literal v)"

definition source_name :: "ph_source \<Rightarrow> string" where
  "source_name src = (case src of SOURCE_PARAM \<Rightarrow> ''param'' | SOURCE_HEADER \<Rightarrow> ''header'')"

text \<open>The text of such a condition.\<close>

definition literal_text :: "jsstr \<Rightarrow> jsstr" where
  "literal_text v = (if v = js ''true'' \<or> v = js ''false'' \<or> is_numeric_literal v then v else 34 # v @ [34])"

lemma normalize_ph:
  "m \<in> fst ` set (getRequestRuleMatchOptions (js (source_name src))) \<Longrightarrow>
   normalizeCondition (cond_val (ParamHeaderCondition src p m v)) = ParamHeaderCondition src p m v"
  by (cases src) (simp_all add: normalizeCondition_def or_else_def option_mode_def text_or_blank_def nullish_def
      str_of_def source_name_def)

lemma normalize_time:
  "m \<in> fst ` set (getRequestRuleMatchOptions (js ''time'')) \<Longrightarrow> f \<in> set TIME_FUNCS \<Longrightarrow> tz \<noteq> [] \<Longrightarrow>
   normalizeCondition (cond_val (TimeCondition f tz m v a b)) = TimeCondition f tz m v a b"
  by (simp add: normalizeCondition_def isTimeFunc_def or_else_def option_mode_def text_or_blank_def nullish_def str_of_def)

lemma option_modes:
  "MATCH_EXISTS \<in> fst ` set (getRequestRuleMatchOptions (js (source_name src)))"
  "MATCH_EQ \<in> fst ` set (getRequestRuleMatchOptions (js (source_name src)))"
  "MATCH_CONTAINS \<in> fst ` set (getRequestRuleMatchOptions (js (source_name src)))"
  "MATCH_RANGE \<in> fst ` set (getRequestRuleMatchOptions (js ''time''))"
  "MATCH_EQ \<in> fst ` set (getRequestRuleMatchOptions (js ''time''))"
  "MATCH_GTE \<in> fst ` set (getRequestRuleMatchOptions (js ''time''))"
  "MATCH_LT \<in> fst ` set (getRequestRuleMatchOptions (js ''time''))"
  by (cases src; simp add: getRequestRuleMatchOptions_def source_name_def)+

lemma build_literal_plain: "plain_text v \<Longrightarrow> buildExprLiteral MATCH_EQ v = literal_text v"
  by (simp add: buildExprLiteral_def literal_text_def trim_plain quote_plain match_defs)

lemma build_exists:
  assumes "plain_text p" and "p \<noteq> []"
  shows "buildRequestConditionExpr (ParamHeaderCondition SOURCE_HEADER p MATCH_EXISTS v) = call_text ''header'' p (js '' != \"\"'')"
    and "buildRequestConditionExpr (ParamHeaderCondition SOURCE_PARAM p MATCH_EXISTS v) = call_text ''param'' p (js '' != nil'')"
  using assms normalize_ph [OF option_modes(1), of SOURCE_HEADER p v] normalize_ph [OF option_modes(1), of SOURCE_PARAM p v]
  by (simp_all add: buildRequestConditionExpr_def build_ph_def trim_plain quote_plain call_text_def js_eval)

lemma build_contains:
  assumes "plain_text p" and "p \<noteq> []" and "plain_text v"
  shows "buildRequestConditionExpr (ParamHeaderCondition SOURCE_HEADER p MATCH_CONTAINS v) =
    js ''has('' @ call_text ''header'' p (js '', \"'' @ v @ [34, 41])"
  using assms normalize_ph [OF option_modes(3), of SOURCE_HEADER p v]
  by (simp add: buildRequestConditionExpr_def build_ph_def buildExprLiteral_def trim_plain quote_plain call_text_def
      match_defs js_eval)

lemma eq_mode [simp]:
  "MATCH_EQ \<noteq> MATCH_EXISTS" "MATCH_EQ \<noteq> MATCH_CONTAINS" "MATCH_EQ \<noteq> MATCH_GT" "MATCH_EQ \<noteq> MATCH_GTE"
  "MATCH_EQ \<noteq> MATCH_LT" "MATCH_EQ \<noteq> MATCH_LTE"
  by (simp_all add: match_defs)

lemma build_eq:
  assumes "plain_text p" and "p \<noteq> []" and "plain_text v"
  shows "buildRequestConditionExpr (ParamHeaderCondition src p MATCH_EQ v) =
    call_text (source_name src) p (js '' == '' @ literal_text v)"
  using assms normalize_ph [OF option_modes(2), of src p v] build_literal_plain [OF assms(3)]
  by (cases src) (simp_all add: buildRequestConditionExpr_def build_ph_def trim_plain quote_plain
      call_text_def source_name_def js_eval)

definition time_symbol :: "jsstr \<Rightarrow> string" where
  "time_symbol m = (if m = MATCH_GTE then ''>='' else if m = MATCH_LT then ''<'' else ''=='')"

lemma build_range:
  assumes "js g \<in> set TIME_FUNCS" and "plain_text tz" and "tz \<noteq> []" and "is_numeric_literal a" and "is_numeric_literal b"
  shows "buildRequestConditionExpr (TimeCondition (js g) tz MATCH_RANGE v a b) =
    call_text g tz (js '' >= '' @ a @ js '' || '' @ call_text g tz (js '' < '' @ b))"
  using assms normalize_time [OF option_modes(4) assms(1,3), of v a b]
  by (simp add: buildRequestConditionExpr_def build_time_def trim_numeric quote_plain call_text_def js_eval)

lemma build_time_comparison:
  assumes "js g \<in> set TIME_FUNCS" and "plain_text tz" and "tz \<noteq> []" and "is_numeric_literal v"
    and "m = MATCH_EQ \<or> m = MATCH_GTE \<or> m = MATCH_LT"
  shows "buildRequestConditionExpr (TimeCondition (js g) tz m v a b) =
    call_text g tz (js '' '' @ js (time_symbol m) @ js '' '' @ v)"
proof -
  have "m \<in> fst ` set (getRequestRuleMatchOptions (js ''time''))" and "m \<noteq> MATCH_RANGE"
    using assms(5) option_modes by (auto simp: match_defs)
  with assms normalize_time [of m "js g" tz v a b] show ?thesis
    by (simp add: buildRequestConditionExpr_def build_time_def trim_numeric quote_plain call_text_def time_symbol_def js_eval)
qed

section \<open>Reading a condition back\<close>

lemma no_paren_call:
  "match_lit (js ''('') (call_text ''param'' p r) = None" "match_lit (js ''('') (call_text ''header'' p r) = None"
  by (simp_all add: call_text_def js_eval)

lemma time_ph [simp]:
  "tryParseTimeCondition (call_text ''param'' p r) = None"
  "tryParseTimeCondition (call_text ''header'' p r) = None"
  by (simp_all add: tryParseTimeCondition_def match_time_range_def match_time_call_ph no_paren_call)

lemma has_ph [simp]:
  "match_has f (call_text ''param'' p r) = None" "match_has f (call_text ''header'' p r) = None"
  by (simp_all add: match_has_def call_text_def js_eval)

lemma parse_exists:
  assumes "plain_text p" and "p \<noteq> []"
  shows "tryParseRequestCondition (call_text ''header'' p (js '' != \"\"'')) =
      Some (ParamHeaderCondition SOURCE_HEADER p MATCH_EXISTS [])"
    and "tryParseRequestCondition (call_text ''param'' p (js '' != nil'')) =
      Some (ParamHeaderCondition SOURCE_PARAM p MATCH_EXISTS [])"
  using match_call_text [OF assms] by (simp_all add: tryParseRequestCondition_def exists_condition_def match_calls)

lemma calls_of_has:
  "match_call (js ''param'') (js ''has('' @ x) = None" "match_call (js ''header'') (js ''has('' @ x) = None"
  "match_time_call TIME_FUNCS (js ''has('' @ x) = None"
  by (simp_all add: TIME_FUNCS_def match_call_def js_eval)

lemma no_paren_has: "match_lit (js ''('') (js ''has('' @ x) = None"
  by (simp add: js_eval)

lemma parse_contains:
  assumes "plain_text p" and "p \<noteq> []" and "plain_text v"
  shows "tryParseRequestCondition (js ''has('' @ call_text ''header'' p (js '', \"'' @ v @ [34, 41])) =
    Some (ParamHeaderCondition SOURCE_HEADER p MATCH_CONTAINS v)"
proof -
  have "tryParseTimeCondition (js ''has('' @ call_text ''header'' p (js '', \"'' @ v @ [34, 41])) = None"
    by (simp add: tryParseTimeCondition_def match_time_range_def calls_of_has no_paren_has)
  moreover have "match_has (js ''header'') (js ''has('' @ call_text ''header'' p (js '', \"'' @ v @ [34, 41])) =
      Some (p, 34 # v @ [34])"
    using literal_body_plain [OF assms(3), of "[41]"]
    by (simp add: match_has_def match_call_text [OF assms(1,2)]) (simp add: match_literal_def js_eval)
  moreover have "tryDecodeStringLiteral (34 # v @ [34]) = Some v"
    by (simp add: tryDecodeStringLiteral_def decodeStringLiteral_def decode_plain [OF assms(3)])
  ultimately show ?thesis
    by (simp add: tryParseRequestCondition_def exists_condition_def calls_of_has contains_condition_def)
qed

lemma literal_text_nonempty: "plain_text v \<Longrightarrow> literal_text v \<noteq> []"
  using numeric_chars(1) by (auto simp: literal_text_def)

lemma quote_not_space: "\<not> is_space 34"
  by (simp add: is_space_def)

lemma literal_text_chars: "plain_text v \<Longrightarrow> c \<in> set (literal_text v) \<Longrightarrow> plain_char c \<or> c = 34"
  by (cases "literal_text v = v") (auto simp: literal_text_def dest: plain_set split: if_splits)

lemma literal_text_no_line_end: "plain_text v \<Longrightarrow> \<not> list_ex line_end (literal_text v)"
  using literal_text_chars plain_char_facts(7) by (fastforce simp: list_ex_iff line_end_def)

lemma trim_literal_text: "plain_text v \<Longrightarrow> trim (literal_text v) = literal_text v"
  using literal_text_chars plain_char_facts(1) quote_not_space by (metis trim_no_space)

lemma quoted_not_numeric: "\<not> is_numeric_literal (34 # s)"
  by (simp add: is_numeric_literal_def is_digit_def)

lemma parse_literal_text: "plain_text v \<Longrightarrow> \<exists>x. parseExprLiteral (literal_text v) = Some x \<and> string_of_val x = v"
proof (cases "v = js ''true'' \<or> v = js ''false'' \<or> is_numeric_literal v")
  case True
  moreover assume "plain_text v"
  ultimately show ?thesis
    by (auto simp: parseExprLiteral_def trim_literal_text Let_def) (auto simp: literal_text_def)
next
  case False
  moreover assume v: "plain_text v"
  moreover have "34 # v @ [34] \<noteq> js ''true''" and "34 # v @ [34] \<noteq> js ''false''"
    by (simp_all add: js_eval)
  ultimately show ?thesis
    using trim_literal_text [OF v]
    by (simp add: parseExprLiteral_def literal_text_def quoted_not_numeric json_parse_plain)
qed

lemma guard_eq [simp]:
  "match_guard (call_text ''header'' p r) = None"
  "plain_text p \<Longrightarrow> p \<noteq> [] \<Longrightarrow> match_guard (call_text ''param'' p (js '' == '' @ r)) = None"
  by (simp_all add: match_guard_def match_calls match_call_text) (simp add: js_eval)

lemma exists_eq:
  assumes "plain_text p" and "p \<noteq> []"
  shows "exists_condition (call_text (source_name src) p (js '' == '' @ r)) = None"
  using match_call_text [OF assms]
  by (cases src) (simp_all add: exists_condition_def source_name_def match_calls, simp_all add: js_eval)

lemma parse_eq:
  assumes "plain_text p" and "p \<noteq> []" and "plain_text v"
  shows "tryParseRequestCondition (call_text (source_name src) p (js '' == '' @ literal_text v)) =
    Some (ParamHeaderCondition src p MATCH_EQ v)"
proof -
  let ?e = "call_text (source_name src) p (js '' == '' @ literal_text v)"
  have "match_equality ?e = Some (src, p, literal_text v)"
    using match_call_text [OF assms(1,2)] literal_text_nonempty [OF assms(3)] literal_text_no_line_end [OF assms(3)]
    by (cases src) (simp_all add: match_equality_def source_name_def match_calls)
  moreover have "tryParseTimeCondition ?e = None" and "match_has (js ''header'') ?e = None"
      and "guarded_contains ?e = None" and "guarded_comparison ?e = None"
    using assms(1,2) by (cases src; simp add: source_name_def guarded_contains_def guarded_comparison_def)+
  ultimately show ?thesis
    using exists_eq [OF assms(1,2)] parse_literal_text [OF assms(3)]
    by (auto simp: tryParseRequestCondition_def)
qed

lemma call_text_append: "js '' || '' @ js g @ js ''(\"'' @ tz @ js ''\") < '' @ b = js '' || '' @ call_text g tz (js '' < '' @ b)"
  by (simp add: call_text_def js_eval)

lemma match_range_text:
  assumes "js g \<in> set TIME_FUNCS" and "plain_text tz" and "tz \<noteq> []" and "is_numeric_literal a" and "is_numeric_literal b"
    and "r = [] \<or> \<not> num_char (hd r)"
  shows "match_time_range (call_text g tz (js '' >= '' @ a @ js '' || '' @ call_text g tz (js '' < '' @ b @ r))) =
    Some (TimeCondition (js g) tz MATCH_RANGE [] a b, r)"
proof -
  let ?tail = "js '' || '' @ call_text g tz (js '' < '' @ b @ r)"
  have a: "match_run num_char (a @ ?tail) = Some (a, ?tail)"
    using match_run_stop [of a num_char 32] numeric_chars [OF assms(4)] by (simp add: js_eval num_char_def is_digit_def)
  have "match_lit (js '' || '' @ js g @ js ''(\"'' @ tz @ js ''\") < '') ?tail = Some (b @ r)"
    using match_lit_append [of "js '' || '' @ js g @ js ''(\"'' @ tz @ js ''\") < ''" "b @ r"]
    by (simp add: call_text_append)
  moreover have "match_run num_char (b @ r) = Some (b, r)"
    using assms(6) match_run_stop [of b num_char "hd r" "tl r"] match_run_end [of b num_char] numeric_chars [OF assms(5)]
    by (cases r) auto
  ultimately show ?thesis
    using match_time_call_text [OF assms(1-3)] a by (simp add: match_time_range_def)
qed

lemma parse_range:
  assumes "js g \<in> set TIME_FUNCS" and "plain_text tz" and "tz \<noteq> []" and "is_numeric_literal a" and "is_numeric_literal b"
  defines "e \<equiv> call_text g tz (js '' >= '' @ a @ js '' || '' @ call_text g tz (js '' < '' @ b))"
  shows "tryParseRequestCondition e = Some (TimeCondition (js g) tz MATCH_RANGE [] a b)"
    and "tryParseRequestCondition (js ''('' @ e @ js '')'') = Some (TimeCondition (js g) tz MATCH_RANGE [] a b)"
proof -
  have "match_time_range e = Some (TimeCondition (js g) tz MATCH_RANGE [] a b, [])"
    using match_range_text [OF assms(1-5), of "[]"] by (simp add: e_def)
  then show "tryParseRequestCondition e = Some (TimeCondition (js g) tz MATCH_RANGE [] a b)"
    by (simp add: tryParseRequestCondition_def tryParseTimeCondition_def)
  have "e @ [41] = call_text g tz (js '' >= '' @ a @ js '' || '' @ call_text g tz (js '' < '' @ b @ [41]))"
    by (simp add: e_def call_text_def)
  then have "match_time_range (e @ [41]) = Some (TimeCondition (js g) tz MATCH_RANGE [] a b, [41])"
    using match_range_text [OF assms(1-5), of "[41]"] by (simp add: num_char_def is_digit_def)
  moreover have "match_time_range (40 # x) = None" for x
    by (simp add: match_time_range_def TIME_FUNCS_def match_call_def js_eval)
  ultimately show "tryParseRequestCondition (js ''('' @ e @ js '')'') = Some (TimeCondition (js g) tz MATCH_RANGE [] a b)"
    by (simp add: tryParseRequestCondition_def tryParseTimeCondition_def js_eval)
qed

lemma match_time_symbol:
  assumes "is_numeric_literal v" and "m = MATCH_EQ \<or> m = MATCH_GTE \<or> m = MATCH_LT"
  shows "match_operator time_operators (js '' '' @ js (time_symbol m) @ js '' '' @ v) = Some (m, v)"
  using assms(2) match_run_end [of v num_char] numeric_chars [OF assms(1)]
  by (auto simp: time_operators_def time_symbol_def match_defs js_eval)

lemma parse_time_comparison:
  assumes "js g \<in> set TIME_FUNCS" and "plain_text tz" and "tz \<noteq> []" and "is_numeric_literal v"
    and "m = MATCH_EQ \<or> m = MATCH_GTE \<or> m = MATCH_LT"
  shows "tryParseRequestCondition (call_text g tz (js '' '' @ js (time_symbol m) @ js '' '' @ v)) =
    Some (TimeCondition (js g) tz m v [] [])"
proof -
  let ?r = "js '' '' @ js (time_symbol m) @ js '' '' @ v"
  have call: "match_time_call TIME_FUNCS (call_text g tz ?r) = Some (js g, tz, ?r)"
    by (rule match_time_call_text [OF assms(1-3)])
  have "match_lit (js '' >= '') ?r = (if m = MATCH_GTE then Some v else None)"
    using assms(5) by (auto simp: time_symbol_def match_defs js_eval)
  then have "match_time_range (call_text g tz ?r) = None"
    using match_run_end [of v num_char] numeric_chars [OF assms(4)]
    by (simp add: match_time_range_def call) (simp add: js_eval)
  moreover have "match_lit (js ''('') (call_text g tz ?r) = None"
    using assms(1) by (auto simp: TIME_FUNCS_def call_text_def js_eval)
  ultimately show ?thesis
    using call match_time_symbol [OF assms(4,5)]
    by (simp add: tryParseRequestCondition_def tryParseTimeCondition_def)
qed

section \<open>Splitting what was joined\<close>

text \<open>No occurrence of two characters next to each other, and the balance of parentheses.\<close>

fun no_pair :: "code_unit \<Rightarrow> code_unit \<Rightarrow> jsstr \<Rightarrow> bool" where
  "no_pair a b (c # d # s) \<longleftrightarrow> \<not> (c = a \<and> d = b) \<and> no_pair a b (d # s)"
| "no_pair a b s \<longleftrightarrow> True"

definition bal :: "jsstr \<Rightarrow> int" where
  "bal s = sum_list (map paren s)"

lemma bal_simps [simp]: "bal [] = 0" "bal (c # s) = paren c + bal s" "bal (s @ t) = bal s + bal t"
  by (simp_all add: bal_def)

lemma bal_plain: "plain_text s \<Longrightarrow> bal s = 0"
  by (induction s) (simp_all add: plain_char_facts)

lemma no_pair_Cons: "c \<noteq> a \<Longrightarrow> no_pair a b (c # s) \<longleftrightarrow> no_pair a b s"
  by (cases s) auto

lemma no_pair_append:
  "no_pair a b (x @ y) \<longleftrightarrow>
   no_pair a b x \<and> no_pair a b y \<and> (x = [] \<or> y = [] \<or> last x \<noteq> a \<or> hd y \<noteq> b)"
proof (induction x)
  case (Cons c x)
  show ?case
  proof (cases x)
    case Nil
    then show ?thesis by (cases y) auto
  next
    case Cons': (Cons d x')
    with Cons show ?thesis by auto
  qed
qed simp

lemma no_pair_absent: "a \<notin> set s \<Longrightarrow> no_pair a b s"
  by (induction a b s rule: no_pair.induct) auto

lemma plain_no_blank: "plain_text s \<Longrightarrow> 32 \<notin> set s"
  by (auto dest: plain_set plain_char_facts(2))

lemma no_pair_plain: "plain_text p \<Longrightarrow> no_pair 32 b (p @ y) \<longleftrightarrow> no_pair 32 b y"
  using plain_no_blank last_in_set by (fastforce simp: no_pair_append no_pair_absent)

lemma no_pair_includes: "no_pair a b s \<Longrightarrow> \<not> str_includes s (a # b # r)"
  by (auto simp: includes_iff no_pair_append)

lemma split_top_part:
  assumes "no_pair 32 b x" and "x = [] \<or> last x \<noteq> 32"
  shows "split_top (32 # b # sep) depth acc (x @ y) = split_top (32 # b # sep) (depth + bal x) (rev x @ acc) y"
  using assms
proof (induction x arbitrary: depth acc)
  case (Cons c x)
  have no: "\<not> starts_with (c # x @ y) (32 # b # sep)"
  proof (cases x)
    case Nil
    with Cons.prems show ?thesis by simp
  next
    case Cons': (Cons d x')
    with Cons.prems(1) show ?thesis by auto
  qed
  have "no_pair 32 b x" and "x = [] \<or> last x \<noteq> 32"
    using Cons.prems by (cases x; auto)+
  with Cons.IH [of "depth + paren c" "c # acc"] no show ?case
    by (auto simp: add.assoc Let_def)
qed simp

lemma not_blank_last: "trim e = e \<Longrightarrow> e \<noteq> [] \<Longrightarrow> last e \<noteq> 32"
  using last_trim [of e] by (auto simp: is_space_def)

lemma split_top_join:
  assumes "\<forall>e \<in> set es. e \<noteq> [] \<and> trim e = e \<and> bal e = 0 \<and> no_pair 32 b e" and "es \<noteq> []"
  shows "split_top (32 # b # sep) 0 [] (join (32 # b # sep) es) = es"
  using assms
proof (induction "32 # b # sep" es rule: join.induct)
  case (2 x)
  with split_top_part [of b x sep 0 "[]" "[]"] not_blank_last [of x] show ?case
    by simp
next
  case (3 x y es)
  have "split_top (32 # b # sep) 0 [] (x @ (32 # b # sep) @ join (32 # b # sep) (y # es)) =
      x # split_top (32 # b # sep) 0 [] (join (32 # b # sep) (y # es))"
    using split_top_part [of b x sep 0 "[]" "(32 # b # sep) @ join (32 # b # sep) (y # es)"]
      not_blank_last [of x] 3(2) starts_with_iff [of "32 # b # sep @ join (32 # b # sep) (y # es)" "32 # b # sep"]
    by (simp add: paren_def)
  with 3 show ?case by simp
qed simp

lemma filter_nonempty_id: "\<forall>e \<in> set es. e \<noteq> [] \<Longrightarrow> filter nonempty es = es"
  by (simp add: nonempty_def filter_id_conv)

section \<open>The texts are tidy\<close>

text \<open>What the splitters need of a part.\<close>

definition tidy :: "jsstr \<Rightarrow> bool" where
  "tidy e \<longleftrightarrow> e \<noteq> [] \<and> hd e \<noteq> 42 \<and> \<not> is_space (hd e) \<and> \<not> is_space (last e) \<and> bal e = 0 \<and> no_pair 32 38 e \<and> no_pair 32 42 e"

lemma tidy_trim: "tidy e \<Longrightarrow> trim e = e"
  by (simp add: tidy_def trim_id)

text \<open>The rest of a text after a call: it ends in a visible character and has no separator.\<close>

definition tidy_rest :: "jsstr \<Rightarrow> bool" where
  "tidy_rest r \<longleftrightarrow> r \<noteq> [] \<and> \<not> is_space (last r) \<and> bal r = 0 \<and> no_pair 32 38 r \<and> no_pair 32 42 r"

lemma paren_simps [simp]: "paren 40 = 1" "paren 41 = - 1" "c \<noteq> 40 \<Longrightarrow> c \<noteq> 41 \<Longrightarrow> paren c = 0"
  by (simp_all add: paren_def)

lemma tidy_call:
  assumes "plain_text (js g)" and "g \<noteq> []" and "hd (js g) \<noteq> 42" and "plain_text p" and "tidy_rest r"
  shows "tidy (call_text g p r)"
proof -
  have "no_pair 32 b (call_text g p r) \<longleftrightarrow> no_pair 32 b r" for b
    by (simp add: call_text_def no_pair_plain assms(1,4) no_pair_Cons)
  moreover have "\<not> is_space (hd (js g))"
    using assms(1,2) plain_char_facts(1) by (cases g) (auto simp: js_eval)
  ultimately show ?thesis
    using assms by (simp add: tidy_def tidy_rest_def call_text_def bal_plain)
qed

lemma numeric_last: "is_numeric_literal v \<Longrightarrow> \<not> is_space (last v)"
  using numeric_chars(1) numeric_plain plain_set plain_char_facts(1) last_in_set by blast

lemma numeric_hd: "is_numeric_literal v \<Longrightarrow> hd v \<noteq> 38 \<and> hd v \<noteq> 42 \<and> hd v \<noteq> 124"
  using numeric_chars [of v] by (cases v) (auto simp: num_char_def is_digit_def)

lemma num_rest:
  assumes "is_numeric_literal v"
  shows "no_pair 32 b (32 # v) \<longleftrightarrow> hd v \<noteq> b"
proof (cases v)
  case Nil
  with numeric_chars(1) [OF assms] show ?thesis by simp
next
  case (Cons c u)
  with no_pair_plain [OF numeric_plain [OF assms], of b "[]"] show ?thesis
    by auto
qed

lemma literal_hd: "plain_text v \<Longrightarrow> hd (literal_text v) \<noteq> 38 \<and> hd (literal_text v) \<noteq> 42 \<and> hd (literal_text v) \<noteq> 124"
  using numeric_hd by (auto simp: literal_text_def js_eval)

lemma literal_facts:
  assumes "plain_text v"
  shows "no_pair 32 b (32 # literal_text v) \<longleftrightarrow> hd (literal_text v) \<noteq> b"
    and "bal (literal_text v) = 0" and "\<not> is_space (last (literal_text v))"
proof -
  have "32 \<notin> set (literal_text v)"
    using literal_text_chars [OF assms] plain_char_facts(2) by fastforce
  then show "no_pair 32 b (32 # literal_text v) \<longleftrightarrow> hd (literal_text v) \<noteq> b"
    using literal_text_nonempty [OF assms] no_pair_absent [of 32 "literal_text v" b] by (cases "literal_text v") auto
  show "bal (literal_text v) = 0"
    using assms by (simp add: literal_text_def bal_plain)
  have "last (literal_text v) \<in> set (literal_text v)"
    using literal_text_nonempty [OF assms] by simp
  then show "\<not> is_space (last (literal_text v))"
    using literal_text_chars [OF assms] plain_char_facts(1) quote_not_space by metis
qed

lemma tidy_exists:
  "plain_text p \<Longrightarrow> tidy (call_text ''header'' p (js '' != \"\"''))" "plain_text p \<Longrightarrow> tidy (call_text ''param'' p (js '' != nil''))"
  by (rule tidy_call; simp add: js_eval plain_char_def tidy_rest_def is_space_def)+

lemma tidy_eq:
  assumes "plain_text p" and "plain_text v"
  shows "tidy (call_text (source_name src) p (js '' == '' @ literal_text v))"
proof (rule tidy_call)
  show "tidy_rest (js '' == '' @ literal_text v)"
    using literal_facts [OF assms(2)] literal_hd [OF assms(2)] literal_text_nonempty [OF assms(2)]
    by (simp add: tidy_rest_def js_eval no_pair_Cons)
qed (use assms(1) in \<open>cases src; simp add: source_name_def js_eval plain_char_def\<close>)+

lemma tidy_contains:
  assumes "plain_text p" and "plain_text v"
  shows "tidy (js ''has('' @ call_text ''header'' p (js '', \"'' @ v @ [34, 41]))"
  using assms
  by (simp add: tidy_def call_text_def js_eval no_pair_Cons no_pair_plain bal_plain is_space_def)

lemma time_func_facts: "js g \<in> set TIME_FUNCS \<Longrightarrow> plain_text (js g) \<and> g \<noteq> [] \<and> hd (js g) \<noteq> 42"
  by (auto simp: TIME_FUNCS_def) (simp_all add: js_eval plain_char_def)

lemma tidy_time:
  assumes "js g \<in> set TIME_FUNCS" and "plain_text tz" and "is_numeric_literal v"
  shows "tidy (call_text g tz (js '' '' @ js (time_symbol m) @ js '' '' @ v))"
proof (rule tidy_call)
  show "tidy_rest (js '' '' @ js (time_symbol m) @ js '' '' @ v)"
    using num_rest [OF assms(3)] numeric_hd [OF assms(3)] numeric_last [OF assms(3)] numeric_chars(1) [OF assms(3)]
      bal_plain [OF numeric_plain [OF assms(3)]]
    by (simp add: tidy_rest_def js_eval no_pair_Cons time_symbol_def)
qed (use assms time_func_facts [OF assms(1)] in simp_all)

lemma tidy_range:
  assumes "js g \<in> set TIME_FUNCS" and "plain_text tz" and "is_numeric_literal a" and "is_numeric_literal b"
  shows "tidy (call_text g tz (js '' >= '' @ a @ js '' || '' @ call_text g tz (js '' < '' @ b)))"
proof (rule tidy_call)
  have "tidy (call_text g tz (js '' < '' @ b))"
  proof (rule tidy_call)
    show "tidy_rest (js '' < '' @ b)"
      using num_rest [OF assms(4)] numeric_hd [OF assms(4)] numeric_last [OF assms(4)] numeric_chars(1) [OF assms(4)]
        bal_plain [OF numeric_plain [OF assms(4)]]
      by (simp add: tidy_rest_def js_eval no_pair_Cons)
  qed (use assms time_func_facts [OF assms(1)] in simp_all)
  then have t: "tidy (call_text g tz (js '' < '' @ b))" .
  have hd: "hd (call_text g tz r) \<noteq> 38 \<and> hd (call_text g tz r) \<noteq> 42" for r
    using assms(1) by (auto simp: TIME_FUNCS_def call_text_def js_eval)
  have "no_pair 32 q (a @ js '' || '' @ call_text g tz (js '' < '' @ b))" if "q = 38 \<or> q = 42" for q
    using that t hd [of "js '' < '' @ b"] no_pair_plain [OF numeric_plain [OF assms(3)]]
    by (cases "call_text g tz (js '' < '' @ b)") (auto simp: tidy_def js_eval)
  then show "tidy_rest (js '' >= '' @ a @ js '' || '' @ call_text g tz (js '' < '' @ b))"
    using t numeric_hd [OF assms(3)] numeric_chars(1) [OF assms(3)] bal_plain [OF numeric_plain [OF assms(3)]]
    by (cases a) (auto simp: tidy_rest_def tidy_def js_eval no_pair_Cons)
qed (use assms time_func_facts [OF assms(1)] in simp_all)

section \<open>Round trip of rules\<close>

text \<open>A condition as it stands in a list of several.\<close>

definition wrap_or :: "jsstr \<Rightarrow> jsstr" where
  "wrap_or e = (if str_includes e (js '' || '') then js ''('' @ e @ js '')'' else e)"

lemma tidy_wrap: "tidy e \<Longrightarrow> tidy (wrap_or e)"
  by (auto simp: wrap_or_def tidy_def js_eval no_pair_append no_pair_Cons is_space_def)

lemma no_or:
  "plain_text p \<Longrightarrow> plain_text v \<Longrightarrow> \<not> str_includes (call_text (source_name src) p (js '' == '' @ literal_text v)) (js '' || '')"
  "plain_text p \<Longrightarrow> \<not> str_includes (call_text ''header'' p (js '' != \"\"'')) (js '' || '')"
  "plain_text p \<Longrightarrow> \<not> str_includes (call_text ''param'' p (js '' != nil'')) (js '' || '')"
  "plain_text p \<Longrightarrow> plain_text v \<Longrightarrow> \<not> str_includes (js ''has('' @ call_text ''header'' p (js '', \"'' @ v @ [34, 41])) (js '' || '')"
proof -
  assume p: "plain_text p"
  show "\<not> str_includes (call_text ''header'' p (js '' != \"\"'')) (js '' || '')"
      and "\<not> str_includes (call_text ''param'' p (js '' != nil'')) (js '' || '')"
    using no_pair_includes [of 32 124 _ "[124, 32]"] p
    by (simp_all add: call_text_def js_eval no_pair_Cons no_pair_plain)
  assume v: "plain_text v"
  show "\<not> str_includes (js ''has('' @ call_text ''header'' p (js '', \"'' @ v @ [34, 41])) (js '' || '')"
    using no_pair_includes [of 32 124 _ "[124, 32]"] p v
    by (simp add: call_text_def js_eval no_pair_Cons no_pair_plain)
  show "\<not> str_includes (call_text (source_name src) p (js '' == '' @ literal_text v)) (js '' || '')"
    using no_pair_includes [of 32 124 _ "[124, 32]"] p literal_facts(1) [OF v, of 124] literal_hd [OF v]
    by (cases src) (simp_all add: call_text_def source_name_def js_eval no_pair_Cons no_pair_plain)
qed

lemma no_or_time:
  assumes "js g \<in> set TIME_FUNCS" and "plain_text tz" and "is_numeric_literal v"
  shows "\<not> str_includes (call_text g tz (js '' '' @ js (time_symbol m) @ js '' '' @ v)) (js '' || '')"
proof -
  have "no_pair 32 124 (call_text g tz (js '' '' @ js (time_symbol m) @ js '' '' @ v))"
    using time_func_facts [OF assms(1)] num_rest [OF assms(3), of 124] numeric_hd [OF assms(3)] assms(2)
    by (simp add: call_text_def no_pair_plain no_pair_Cons time_symbol_def js_eval)
  then show ?thesis
    using no_pair_includes [of 32 124 _ "[124, 32]"] by (simp add: js_eval)
qed

lemma condition_round_trip:
  assumes "plain_condition c"
  shows "tidy (buildRequestConditionExpr c) \<and>
    tryParseRequestCondition (buildRequestConditionExpr c) = Some c \<and>
    tryParseRequestCondition (wrap_or (buildRequestConditionExpr c)) = Some c"
proof (cases c)
  case (ParamHeaderCondition src p m v)
  with assms have p: "plain_text p" "p \<noteq> []" and v: "plain_text v"
      and m: "m = MATCH_EXISTS \<and> v = [] \<or> m = MATCH_EQ \<or> m = MATCH_CONTAINS \<and> src = SOURCE_HEADER"
    by auto
  from m show ?thesis
  proof (elim disjE conjE)
    assume "m = MATCH_EXISTS" "v = []"
    then show ?thesis
      using p build_exists [OF p, of "[]"] parse_exists [OF p] tidy_exists [OF p(1)] no_or(2,3) [OF p(1)]
      by (cases src) (simp_all add: ParamHeaderCondition wrap_or_def)
  next
    assume "m = MATCH_EQ"
    then show ?thesis
      using build_eq [OF p v, of src] parse_eq [OF p v, of src] tidy_eq [OF p(1) v, of src] no_or(1) [OF p(1) v, of src]
      by (simp add: ParamHeaderCondition wrap_or_def)
  next
    assume "m = MATCH_CONTAINS" "src = SOURCE_HEADER"
    then show ?thesis
      using build_contains [OF p v] parse_contains [OF p v] tidy_contains [OF p(1) v] no_or(4) [OF p(1) v]
      by (simp add: ParamHeaderCondition wrap_or_def)
  qed
next
  case (TimeCondition f tz m v a b)
  with assms have f: "f \<in> set TIME_FUNCS" and tz: "plain_text tz" "tz \<noteq> []"
    by auto
  from TIME_FUNCS_text [OF f] f obtain g where g: "f = js g" "js g \<in> set TIME_FUNCS"
    by blast
  from assms TimeCondition consider
      (range) "m = MATCH_RANGE" "v = []" "is_numeric_literal a" "is_numeric_literal b"
    | (comparison) "m = MATCH_EQ \<or> m = MATCH_GTE \<or> m = MATCH_LT" "a = []" "b = []" "is_numeric_literal v"
    by auto
  then show ?thesis
  proof cases
    case range
    then show ?thesis
      using build_range [OF g(2) tz range(3,4)] parse_range [OF g(2) tz range(3,4)] tidy_range [OF g(2) tz(1) range(3,4)]
      by (simp add: TimeCondition g(1) wrap_or_def)
  next
    case comparison
    then show ?thesis
      using build_time_comparison [OF g(2) tz comparison(4,1), of "[]" "[]"] parse_time_comparison [OF g(2) tz comparison(4,1)]
        tidy_time [OF g(2) tz(1) comparison(4), of m] no_or_time [OF g(2) tz(1) comparison(4), of m]
      by (simp add: TimeCondition g(1) wrap_or_def)
  qed
qed

definition plain_group :: "rule_group \<Rightarrow> bool" where
  "plain_group g \<longleftrightarrow>
     conditions g \<noteq> [] \<and> list_all plain_condition (conditions g) \<and> is_numeric_literal (multiplier g) \<and>
     conditionText g = None \<and> matched g = None"

text \<open>The conditions of a rule as one text.\<close>

definition conditions_text :: "request_condition list \<Rightarrow> jsstr" where
  "conditions_text cs =
     (case map buildRequestConditionExpr cs of [e] \<Rightarrow> e | es \<Rightarrow> join (js '' && '') (map wrap_or es))"

lemma parts_of_conditions:
  assumes "list_all plain_condition cs" and "cs \<noteq> []"
  shows "\<exists>es. conditions_text cs = join (js '' && '') es \<and> es \<noteq> [] \<and> list_all tidy es \<and>
    collect_all (\<lambda>part. tryParseRequestCondition (trim part)) es = Some cs"
proof -
  have all: "collect_all (\<lambda>part. tryParseRequestCondition (trim part)) (map f cs) = Some cs \<and> list_all tidy (map f cs)"
    if "\<And>c. plain_condition c \<Longrightarrow> tidy (f c) \<and> tryParseRequestCondition (f c) = Some c" for f
    using assms(1) that by (induction cs) (simp_all add: tidy_trim)
  show ?thesis
  proof (cases "length cs = 1")
    case True
    then obtain c where "cs = [c]"
      by (auto simp: length_Suc_conv)
    with all [of buildRequestConditionExpr] condition_round_trip show ?thesis
      by (intro exI [of _ "map buildRequestConditionExpr cs"]) (auto simp: conditions_text_def)
  next
    case False
    with assms(2) have "conditions_text cs = join (js '' && '') (map (\<lambda>c. wrap_or (buildRequestConditionExpr c)) cs)"
      by (auto simp: conditions_text_def comp_def split: list.splits)
    with all [of "\<lambda>c. wrap_or (buildRequestConditionExpr c)"] condition_round_trip tidy_wrap assms(2) show ?thesis
      by (intro exI [of _ "map (\<lambda>c. wrap_or (buildRequestConditionExpr c)) cs"]) auto
  qed
qed

lemma split_and_join:
  assumes "list_all tidy es" and "es \<noteq> []"
  shows "splitTopLevelAnd (join (js '' && '') es) = es"
  using split_top_join [of es 38 "[38, 32]"] assms filter_nonempty_id [of es]
  by (auto simp: splitTopLevelAnd_def list_all_iff tidy_trim js_eval) (auto simp: tidy_def)

lemma parse_conditions_text:
  assumes "list_all plain_condition cs" and "cs \<noteq> []"
  shows "tryParseRequestConditions (conditions_text cs) = Some cs"
  using parts_of_conditions [OF assms] split_and_join assms(2)
  by (auto simp: tryParseRequestConditions_def split: list.splits)

lemma tidy_join:
  assumes "list_all tidy es" and "es \<noteq> []"
  shows "join (js '' && '') es \<noteq> [] \<and> hd (join (js '' && '') es) \<noteq> 42 \<and> bal (join (js '' && '') es) = 0 \<and>
    no_pair 32 42 (join (js '' && '') es)"
  using assms
proof (induction "js '' && ''" es rule: join.induct)
  case (3 w v vs)
  let ?j = "join (js '' && '') (v # vs)"
  have w: "tidy w" and j: "?j \<noteq> []" "hd ?j \<noteq> 42" "bal ?j = 0" "no_pair 32 42 ?j"
    using 3 by simp_all
  have "no_pair 32 42 (js '' && '' @ ?j)"
    using j by (cases ?j) (simp_all add: js_eval)
  moreover have "last w \<noteq> 32"
    using w by (auto simp: tidy_def is_space_def)
  ultimately have "no_pair 32 42 (w @ js '' && '' @ ?j)"
    using w by (simp add: tidy_def no_pair_append)
  then show ?case
    using w j by (simp add: tidy_def js_eval)
qed (simp_all add: tidy_def)

definition factor_text :: "jsstr \<Rightarrow> jsstr \<Rightarrow> jsstr" where
  "factor_text c m = js ''('' @ c @ js '' ? '' @ m @ js '' : 1)''"

lemma blank_not_num_char: "\<not> num_char 32"
  by (simp add: num_char_def is_digit_def)

lemma match_factor_text:
  assumes "c \<noteq> []" and "is_numeric_literal m"
  shows "match_factor (factor_text c m) = Some (c, m)"
proof -
  let ?s = "c @ js '' ? '' @ m @ js '' : 1)''"
  have "ends_with ?s (js '' : 1)'')"
    by (auto simp: ends_with_iff)
  moreover have "take (length ?s - 5) ?s = c @ js '' ? '' @ m"
    by simp
  moreover have "takeWhile num_char (rev (c @ js '' ? '' @ m)) = rev m"
    using numeric_chars(2) [OF assms(2)] takeWhile_append2 [of "rev m" num_char "rev (c @ js '' ? '')"]
    by (simp add: js_eval list_all_iff blank_not_num_char)
  moreover have "take (length (c @ js '' ? '' @ m) - length m) (c @ js '' ? '' @ m) = c @ js '' ? ''"
    by simp
  moreover have "ends_with (c @ js '' ? '') (js '' ? '')"
    by (auto simp: ends_with_iff)
  moreover have "match_lit (js ''('') (factor_text c m) = Some ?s"
    by (simp add: factor_text_def)
  ultimately show ?thesis
    using assms(1) numeric_chars(1) [OF assms(2)] by (simp add: match_factor_def)
qed

lemma factor_facts:
  assumes "c \<noteq> []" and "bal c = 0" and "no_pair 32 42 c" and "is_numeric_literal m"
  shows "factor_text c m \<noteq> []" and "trim (factor_text c m) = factor_text c m" and "bal (factor_text c m) = 0"
    and "no_pair 32 42 (factor_text c m)"
proof -
  show "factor_text c m \<noteq> []"
    by (simp add: factor_text_def js_eval)
  show "trim (factor_text c m) = factor_text c m"
    by (rule trim_id) (simp_all add: factor_text_def js_eval is_space_def)
  show "bal (factor_text c m) = 0"
    using assms bal_plain [OF numeric_plain [OF assms(4)]] by (simp add: factor_text_def js_eval)
  have "no_pair 32 42 (m @ js '' : 1)'')"
    using no_pair_plain [OF numeric_plain [OF assms(4)], of 42 "js '' : 1)''"] by (simp add: js_eval)
  moreover have "hd m \<noteq> 42" and "m \<noteq> []"
    using numeric_hd [OF assms(4)] numeric_chars(1) [OF assms(4)] by simp_all
  ultimately have "no_pair 32 42 (js '' ? '' @ m @ js '' : 1)'')"
    by (cases m) (simp_all add: js_eval)
  then show "no_pair 32 42 (factor_text c m)"
    using assms(1,3) by (simp add: factor_text_def no_pair_append no_pair_Cons js_eval)
qed

lemma build_factor:
  assumes "plain_group g"
  shows "buildRuleGroupFactor g = factor_text (conditions_text (conditions g)) (multiplier g)"
proof -
  have "nonempty (buildRequestConditionExpr c)" if "c \<in> set (conditions g)" for c
    using assms that condition_round_trip [of c] by (auto simp: plain_group_def list_all_iff tidy_def nonempty_def)
  then have "filter nonempty (map buildRequestConditionExpr (conditions g)) = map buildRequestConditionExpr (conditions g)"
    by (auto simp: filter_id_conv)
  moreover have "(\<lambda>e. if str_includes e (js '' || '') then js ''('' @ e @ js '')'' else e) = wrap_or"
    by (simp add: wrap_or_def fun_eq_iff)
  ultimately show ?thesis
    using assms
    by (simp add: plain_group_def buildRuleGroupFactor_def trim_numeric factor_text_def conditions_text_def
        split: list.splits)
qed

lemma group_round_trip:
  assumes "plain_group g"
  shows "tryParseRuleGroupFactor (buildRuleGroupFactor g) = Some g"
    and "buildRuleGroupFactor g \<noteq> []" and "trim (buildRuleGroupFactor g) = buildRuleGroupFactor g"
    and "bal (buildRuleGroupFactor g) = 0" and "no_pair 32 42 (buildRuleGroupFactor g)"
proof -
  have cs: "list_all plain_condition (conditions g)" "conditions g \<noteq> []" and m: "is_numeric_literal (multiplier g)"
    using assms by (auto simp: plain_group_def)
  have ct: "conditions_text (conditions g) \<noteq> []" "bal (conditions_text (conditions g)) = 0"
      "no_pair 32 42 (conditions_text (conditions g))"
    using parts_of_conditions [OF cs] tidy_join by metis+
  show "tryParseRuleGroupFactor (buildRuleGroupFactor g) = Some g"
    using assms parse_conditions_text [OF cs] match_factor_text [OF ct(1) m]
    by (simp add: build_factor tryParseRuleGroupFactor_def plain_group_def)
  show "buildRuleGroupFactor g \<noteq> []" and "trim (buildRuleGroupFactor g) = buildRuleGroupFactor g"
      and "bal (buildRuleGroupFactor g) = 0" and "no_pair 32 42 (buildRuleGroupFactor g)"
    using factor_facts [OF ct m] by (simp_all add: build_factor [OF assms])
qed

lemma build_rules_join:
  assumes "list_all plain_group gs"
  shows "buildRequestRuleExpr gs = join (js '' * '') (map buildRuleGroupFactor gs)"
proof -
  have "filter nonempty (map buildRuleGroupFactor gs) = map buildRuleGroupFactor gs"
    using assms group_round_trip(2) by (auto simp: list_all_iff nonempty_def filter_id_conv)
  then show ?thesis
    by (simp add: buildRequestRuleExpr_def)
qed

lemma trim_join:
  assumes "\<forall>e \<in> set es. e \<noteq> [] \<and> trim e = e"
  shows "trim (join sep es) = join sep es"
proof -
  have hl: "\<not> is_space (hd e)" "\<not> is_space (last e)" if "e \<in> set es" for e
    using assms that hd_trim [of e] last_trim [of e] by auto
  have "es \<noteq> [] \<Longrightarrow> join sep es \<noteq> [] \<and> hd (join sep es) = hd (hd es) \<and> last (join sep es) = last (last es)"
    using assms by (induction sep es rule: join.induct) auto
  with hl show ?thesis
    by (cases "es = []") (auto intro!: trim_id)
qed

lemma join_nonempty: "es \<noteq> [] \<Longrightarrow> hd es \<noteq> [] \<Longrightarrow> join sep es \<noteq> []"
  by (induction sep es rule: join.induct) auto

lemma collect_factors: "list_all plain_group gs \<Longrightarrow> collect_all tryParseRuleGroupFactor (map buildRuleGroupFactor gs) = Some gs"
  by (induction gs) (simp_all add: group_round_trip(1))

lemma rules_parts:
  assumes "list_all plain_group gs" and "gs \<noteq> []"
  shows "splitTopLevelMultiply (buildRequestRuleExpr gs) = map buildRuleGroupFactor gs"
    and "trim (buildRequestRuleExpr gs) = buildRequestRuleExpr gs" and "buildRequestRuleExpr gs \<noteq> []"
proof -
  let ?es = "map buildRuleGroupFactor gs"
  have es: "\<forall>e \<in> set ?es. e \<noteq> [] \<and> trim e = e \<and> bal e = 0 \<and> no_pair 32 42 e"
    using assms(1) group_round_trip by (auto simp: list_all_iff)
  then show "splitTopLevelMultiply (buildRequestRuleExpr gs) = ?es"
    using split_top_join [of ?es 42 "[32]"] assms filter_nonempty_id [of ?es]
    by (simp add: splitTopLevelMultiply_def build_rules_join js_eval)
  show "trim (buildRequestRuleExpr gs) = buildRequestRuleExpr gs"
    using es by (simp add: build_rules_join [OF assms(1)] trim_join)
  show "buildRequestRuleExpr gs \<noteq> []"
    unfolding build_rules_join [OF assms(1)]
    using es assms(2) join_nonempty [of ?es "js '' * ''"] by (cases gs) simp_all
qed

section \<open>Price and rules\<close>

text \<open>A text whose depth, from \<open>d\<close> on, stays positive.\<close>

fun deep :: "int \<Rightarrow> jsstr \<Rightarrow> bool" where
  "deep d [] \<longleftrightarrow> True"
| "deep d (c # s) \<longleftrightarrow> 0 < d + paren c \<and> deep (d + paren c) s"

lemma split_top_deep:
  "deep d x \<Longrightarrow> split_top sep d acc (x @ y) = split_top sep (d + bal x) (rev x @ acc) y"
  by (induction x arbitrary: d acc) (simp_all add: Let_def add.assoc)

lemma outer_parens_deep:
  "deep d x \<Longrightarrow> d + bal x = 1 \<Longrightarrow> 0 < d \<Longrightarrow> outer_parens_loop d (x @ [41])"
proof (induction x arbitrary: d)
  case (Cons c x)
  then show ?case by (simp add: add.assoc)
qed simp

text \<open>Parentheses that match: no prefix closes more than it opens.\<close>

definition balanced :: "jsstr \<Rightarrow> bool" where
  "balanced s \<longleftrightarrow> deep 1 s \<and> bal s = 0"

definition paren_text :: "jsstr \<Rightarrow> jsstr" where
  "paren_text b = 40 # b @ [41]"

lemma split_price:
  assumes "balanced b"
  shows "split_top (js '' * '') 0 [] (paren_text b @ js '' * '' @ rules) =
    paren_text b # split_top (js '' * '') 0 [] rules"
proof -
  have "trim (paren_text b) = paren_text b"
    by (rule trim_id) (simp_all add: paren_text_def is_space_def)
  then show ?thesis
    using assms split_top_deep [of 1 b "js '' * ''" "[40]" "41 # js '' * '' @ rules"]
    by (simp add: balanced_def paren_text_def js_eval Let_def)
qed

lemma unwrap_paren_text:
  assumes "balanced b"
  shows "unwrapOuterParens (paren_text b) = unwrapOuterParens b"
proof -
  have "trim (paren_text b) = paren_text b"
    by (rule trim_id) (simp_all add: paren_text_def is_space_def)
  moreover have "hasFullOuterParens (paren_text b)"
    using assms outer_parens_deep [of 1 b]
    by (auto simp: balanced_def hasFullOuterParens_def paren_text_def ends_with_iff js_eval)
  ultimately show ?thesis
    by (simp add: unwrapOuterParens_def unwrap_loop.simps [of "paren_text b"] inner_def) (simp add: paren_text_def)
qed

definition is_rule_text :: "jsstr \<Rightarrow> bool" where
  "is_rule_text part = (case tryParseRequestRuleExpr part of Some groups \<Rightarrow> groups \<noteq> [] | None \<Rightarrow> False)"

lemma factor_is_rule: "plain_group g \<Longrightarrow> is_rule_text (buildRuleGroupFactor g)"
proof -
  assume g: "plain_group g"
  have "tryParseRequestRuleExpr (buildRuleGroupFactor g) = Some [g]"
    using rules_parts [of "[g]"] g group_round_trip(1-3) [OF g] build_rules_join [of "[g]"]
    by (simp add: tryParseRequestRuleExpr_def)
  then show ?thesis
    by (simp add: is_rule_text_def)
qed

section \<open>Properties\<close>

text \<open>C4: Reading undoes writing: for rules over plain texts, without numeric or containment conditions
  on parameters, \<open>tryParseRequestRuleExpr\<close> returns the groups \<open>buildRequestRuleExpr\<close> was given, in order
  and with every condition and multiplier as it was.\<close>

theorem rules_round_trip:
  assumes "list_all plain_group gs"
  shows "tryParseRequestRuleExpr (buildRequestRuleExpr gs) = Some gs"
proof (cases "gs = []")
  case True
  then show ?thesis
    by (simp add: buildRequestRuleExpr_def tryParseRequestRuleExpr_def)
next
  case False
  with rules_parts [OF assms False] collect_factors [OF assms] show ?thesis
    by (simp add: tryParseRequestRuleExpr_def)
qed

definition sample_rules :: "rule_group list" where
  "sample_rules =
     [\<lparr>conditions = [ParamHeaderCondition SOURCE_PARAM (js ''service_tier'') MATCH_EQ (js ''fast''),
                     TimeCondition (js ''hour'') (js ''Asia/Tokyo'') MATCH_RANGE [] (js ''21'') (js ''6'')],
       multiplier = js ''0.5'', conditionText = None, matched = None\<rparr>,
      \<lparr>conditions = [ParamHeaderCondition SOURCE_HEADER (js ''x-plan'') MATCH_CONTAINS (js ''pro'')],
       multiplier = js ''2'', conditionText = None, matched = None\<rparr>]"

lemma sample_rules_plain: "list_all plain_group sample_rules"
  by code_simp

theorem rules_round_trip_witness:
  "tryParseRequestRuleExpr (buildRequestRuleExpr sample_rules) = Some sample_rules"
  by (rule rules_round_trip [OF sample_rules_plain])




text \<open>\<open>unwrapOuterParens\<close> leaves nothing to unwrap: its result has no parentheses around the whole
  text and no blanks at its ends, and unwrapping it again changes nothing.\<close>

lemma unwrapOuterParens_complete:
  "\<not> hasFullOuterParens (unwrapOuterParens s) \<and> trim (unwrapOuterParens s) = unwrapOuterParens s \<and>
   unwrapOuterParens (unwrapOuterParens s) = unwrapOuterParens s"
proof -
  have *: "trim u = u \<Longrightarrow> \<not> hasFullOuterParens (unwrap_loop u) \<and> trim (unwrap_loop u) = unwrap_loop u" for u
  proof (induction u rule: unwrap_loop.induct)
    case (1 u)
    show ?case
    proof (cases "hasFullOuterParens u")
      case True
      have "trim (inner u) = inner u"
        by (simp add: inner_def)
      with 1(1) [OF True] True show ?thesis
        by (simp add: unwrap_loop.simps [of u])
    next
      case False
      with 1(2) show ?thesis
        by (simp add: unwrap_loop.simps [of u])
    qed
  qed
  from * [of "trim s"] show ?thesis
    by (simp add: unwrapOuterParens_def unwrap_loop.simps [of "unwrap_loop (trim s)"])
qed

text \<open>\<open>normalizeCondition\<close> always yields a condition the editor can show (a time function of the
  list, a mode among the options of its source), and normalizing twice is normalizing once.\<close>

lemma normalizeCondition_normal:
  "(case normalizeCondition v of
      TimeCondition f tz m x a b \<Rightarrow> f \<in> set TIME_FUNCS \<and> m \<in> fst ` set (getRequestRuleMatchOptions (js ''time''))
    | ParamHeaderCondition src p m x \<Rightarrow> m \<in> fst ` set (getRequestRuleMatchOptions (js (source_name src)))) \<and>
   (get_prop v (js ''timezone'') \<in> range Str \<union> {Undefined, Null} \<longrightarrow>
    normalizeCondition (cond_val (normalizeCondition v)) = normalizeCondition v)"
proof -
  have mode: "option_mode (js s) x d \<in> fst ` set (getRequestRuleMatchOptions (js s))"
    if "d \<in> fst ` set (getRequestRuleMatchOptions (js s))" for s x d
    using that by (simp add: option_mode_def split: jsval.splits)
  have hour: "js ''hour'' \<in> set TIME_FUNCS"
    by (simp add: TIME_FUNCS_def)
  have tz: "str_of (or_else t (Str (js ''Asia/Shanghai''))) \<noteq> []" if "t \<in> range Str \<union> {Undefined, Null}" for t
    using that by (auto simp: or_else_def str_of_def)
  show ?thesis
  proof (cases "get_prop v (js ''source'') = Str (js ''time'')")
    case True
    then obtain f z m x a b where n: "normalizeCondition v = TimeCondition f z m x a b"
        and f: "f \<in> set TIME_FUNCS" and m: "m \<in> fst ` set (getRequestRuleMatchOptions (js ''time''))"
        and z: "z = str_of (or_else (get_prop v (js ''timezone'')) (Str (js ''Asia/Shanghai'')))"
      using mode [OF option_modes(6)] hour
      by (auto simp: normalizeCondition_def isTimeFunc_def str_of_def split: jsval.splits)
    show ?thesis
      using n f m z tz normalize_time [OF m f] by auto
  next
    case False
    then obtain src p m x where n: "normalizeCondition v = ParamHeaderCondition src p m x"
        and m: "m \<in> fst ` set (getRequestRuleMatchOptions (js (source_name src)))"
      using mode [of MATCH_EQ "''header''"] mode [of MATCH_EQ "''param''"] option_modes(2) [of SOURCE_HEADER]
        option_modes(2) [of SOURCE_PARAM]
      by (auto simp: normalizeCondition_def Let_def source_name_def)
    show ?thesis
      using n m normalize_ph [OF m] by simp
  qed
qed

end
