(* ===== verification/AuthSession.thy ===== *)
theory AuthSession
  imports JsValue
begin

text \<open>
  The authentication session of the web client: the store \<open>src/apps/web/src/stores/auth-store.ts\<close>,
  the messages between tabs \<open>src/apps/web/src/lib/auth-session-sync.ts\<close> and the session operations and
  the refresh runner of \<open>src/apps/web/src/lib/auth-session.ts\<close>.

  The module variables and the store are the record \<open>auth_world\<close>. What the code does to the outside
  is recorded in it: the query caches it cleared and the messages it sent. An \<open>async\<close> function is a
  state machine whose states are its \<open>await\<close>s; between two of them any other operation may run.
\<close>

section \<open>The store\<close>

datatype bootstrap = BootIdle | BootChecking | BootComplete

record auth =
  user :: jsval
  accessToken :: jsval
  accessExpiresAt :: jsval
  session :: jsval
  pending2FAFlowToken :: jsval
  bootstrapState :: bootstrap

definition initial_auth :: auth where
  "initial_auth = \<lparr>user = Null, accessToken = Null, accessExpiresAt = Null, session = Null,
     pending2FAFlowToken = Null, bootstrapState = BootIdle\<rparr>"

definition setBundle :: "jsval \<Rightarrow> auth \<Rightarrow> auth" where
  "setBundle bundle a =
     a\<lparr>user := get_prop bundle (js ''user''),
       accessToken := get_prop bundle (js ''access_token''),
       accessExpiresAt := get_prop bundle (js ''access_expires_at''),
       session := get_prop bundle (js ''session''),
       pending2FAFlowToken := Null,
       bootstrapState := BootComplete\<rparr>"

definition setUser :: "jsval \<Rightarrow> auth \<Rightarrow> auth" where
  "setUser u a = a\<lparr>user := u\<rparr>"

definition setPending2FAFlowToken :: "jsval \<Rightarrow> auth \<Rightarrow> auth" where
  "setPending2FAFlowToken t a = a\<lparr>pending2FAFlowToken := t\<rparr>"

definition setBootstrapState :: "bootstrap \<Rightarrow> auth \<Rightarrow> auth" where
  "setBootstrapState b a = a\<lparr>bootstrapState := b\<rparr>"

definition reset_auth :: "bootstrap \<Rightarrow> auth \<Rightarrow> auth" where
  "reset_auth b a =
     a\<lparr>user := Null, accessToken := Null, accessExpiresAt := Null, session := Null,
       pending2FAFlowToken := Null, bootstrapState := b\<rparr>"

section \<open>Messages between tabs\<close>

datatype sync_kind = SyncAuthenticated | SyncSignedOut

definition kind_name :: "sync_kind \<Rightarrow> jsstr" where
  "kind_name k = (case k of SyncAuthenticated \<Rightarrow> js ''authenticated'' | SyncSignedOut \<Rightarrow> js ''signed_out'')"

text \<open>What the code finds around it: the browser's facilities, the identifiers and the clock.\<close>

record tab =
  hasWindow :: bool
  hasChannel :: bool
  storageWorks :: bool
  authSyncSource :: jsstr
  nonce :: jsstr
  clock :: number

datatype message = Posted jsval | Stored jsstr

definition isAuthSessionSyncEvent :: "jsval \<Rightarrow> bool" where
  "isAuthSessionSyncEvent value \<longleftrightarrow>
     is_object value \<and>
     (get_prop value (js ''kind'') = Str (js ''authenticated'') \<or>
      get_prop value (js ''kind'') = Str (js ''signed_out'')) \<and>
     is_Str (get_prop value (js ''sid'')) \<and> str_of (get_prop value (js ''sid'')) \<noteq> [] \<and>
     is_Str (get_prop value (js ''source'')) \<and> is_Str (get_prop value (js ''nonce'')) \<and>
     is_Number (get_prop value (js ''timestamp''))"

definition sync_event :: "tab \<Rightarrow> sync_kind \<Rightarrow> jsval \<Rightarrow> jsval" where
  "sync_event t k sid =
     Obj [(js ''kind'', Str (kind_name k)), (js ''sid'', sid), (js ''source'', Str (authSyncSource t)),
          (js ''nonce'', Str (nonce t)), (js ''timestamp'', Number (clock t))]"

definition publishAuthSessionEvent :: "tab \<Rightarrow> sync_kind \<Rightarrow> jsval \<Rightarrow> message list" where
  "publishAuthSessionEvent t k sid =
     (if \<not> hasWindow t \<or> \<not> truthy_val sid then []
      else if hasChannel t then [Posted (sync_event t k sid)]
      else if storageWorks t then
        (case json_stringify (sync_event t k sid) of Some text \<Rightarrow> [Stored text] | None \<Rightarrow> [])
      else [])"

definition deliver :: "tab \<Rightarrow> jsval \<Rightarrow> jsval option" where
  "deliver t value =
     (if isAuthSessionSyncEvent value \<and> get_prop value (js ''source'') \<noteq> Str (authSyncSource t) \<and>
         num_lt (num_abs (num_sub (clock t) (num_of (get_prop value (js ''timestamp''))))) (Num 60000)
      then Some value else None)"

text \<open>What the listener of \<open>subscribeAuthSessionEvents\<close> is called with, if it is called.\<close>

definition receive :: "tab \<Rightarrow> message \<Rightarrow> jsval option" where
  "receive t m =
     (if \<not> hasWindow t then None
      else if hasChannel t then (case m of Posted v \<Rightarrow> deliver t v | Stored _ \<Rightarrow> None)
      else case m of Posted _ \<Rightarrow> None
        | Stored text \<Rightarrow>
          if text = [] then None
          else (case json_parse text of None \<Rightarrow> None | Some v \<Rightarrow> deliver t v))"

section \<open>Validation of responses\<close>

definition isRecord :: "jsval \<Rightarrow> bool" where
  "isRecord value \<longleftrightarrow> is_object value"

definition isAuthUser :: "jsval \<Rightarrow> bool" where
  "isAuthUser value \<longleftrightarrow>
     isRecord value \<and>
     val_is_integer (get_prop value (js ''id'')) \<and> num_gt (num_of (get_prop value (js ''id''))) (Num 0) \<and>
     is_Str (get_prop value (js ''username'')) \<and> is_Number (get_prop value (js ''role''))"

definition isLoginSession :: "jsval \<Rightarrow> bool" where
  "isLoginSession value \<longleftrightarrow>
     isRecord value \<and>
     is_Str (get_prop value (js ''sid'')) \<and> str_of (get_prop value (js ''sid'')) \<noteq> [] \<and>
     is_Bool (get_prop value (js ''current'')) \<and> is_Str (get_prop value (js ''login_method'')) \<and>
     is_Str (get_prop value (js ''ip'')) \<and> is_Str (get_prop value (js ''user_agent'')) \<and>
     is_Number (get_prop value (js ''created_at'')) \<and>
     is_Number (get_prop value (js ''last_active_at'')) \<and>
     is_Number (get_prop value (js ''expires_at''))"

definition hasValidTokenFields :: "jsval \<Rightarrow> bool" where
  "hasValidTokenFields value \<longleftrightarrow>
     is_Str (get_prop value (js ''access_token'')) \<and> str_of (get_prop value (js ''access_token'')) \<noteq> [] \<and>
     is_Str (get_prop value (js ''token_type'')) \<and> str_of (get_prop value (js ''token_type'')) \<noteq> [] \<and>
     val_is_finite (get_prop value (js ''access_expires_at'')) \<and>
     num_gt (num_of (get_prop value (js ''access_expires_at''))) (Num 0)"

definition isAuthBundle :: "jsval \<Rightarrow> bool" where
  "isAuthBundle value \<longleftrightarrow>
     isRecord value \<and> hasValidTokenFields value \<and> isAuthUser (get_prop value (js ''user'')) \<and>
     isLoginSession (get_prop value (js ''session''))"

definition isAuthTokenRotation :: "jsval \<Rightarrow> bool" where
  "isAuthTokenRotation value \<longleftrightarrow>
     isRecord value \<and> hasValidTokenFields value \<and>
     get_prop value (js ''token_type'') = Str (js ''Bearer'') \<and>
     isLoginSession (get_prop value (js ''session'')) \<and>
     get_prop (get_prop value (js ''session'')) (js ''current'') = Bool True"

section \<open>Session operations\<close>

text \<open>\<open>cleared\<close> and \<open>outbox\<close> record the caches cleared and the messages sent, in order.\<close>

record auth_world =
  auth :: auth
  authEpoch :: int
  authCache :: "nat option"
  cleared :: "nat list"
  outbox :: "message list"

text \<open>\<open>useAuthStore.getState().auth.session?.sid\<close>\<close>

definition current_sid :: "auth_world \<Rightarrow> jsval" where
  "current_sid w = get_prop (session (auth w)) (js ''sid'')"

definition bundle_sid :: "jsval \<Rightarrow> jsval" where
  "bundle_sid bundle = get_prop (get_prop bundle (js ''session'')) (js ''sid'')"

definition clear_cache :: "auth_world \<Rightarrow> auth_world" where
  "clear_cache w = (case authCache w of None \<Rightarrow> w | Some c \<Rightarrow> w\<lparr>cleared := cleared w @ [c]\<rparr>)"

definition bump_epoch :: "auth_world \<Rightarrow> auth_world" where
  "bump_epoch w = w\<lparr>authEpoch := authEpoch w + 1\<rparr>"

definition on_auth :: "(auth \<Rightarrow> auth) \<Rightarrow> auth_world \<Rightarrow> auth_world" where
  "on_auth f w = w\<lparr>auth := f (auth w)\<rparr>"

definition send :: "message list \<Rightarrow> auth_world \<Rightarrow> auth_world" where
  "send ms w = w\<lparr>outbox := outbox w @ ms\<rparr>"

definition applyAuthBundle :: "tab \<Rightarrow> jsval \<Rightarrow> bool \<Rightarrow> auth_world \<Rightarrow> auth_world" where
  "applyAuthBundle t bundle synchronizeTabs w =
     (let previousSID = current_sid w;
          w1 = (if truthy_val previousSID \<and> previousSID \<noteq> bundle_sid bundle then clear_cache w else w);
          w2 = on_auth (setBundle bundle) (bump_epoch w1)
      in if synchronizeTabs \<and> previousSID \<noteq> bundle_sid bundle
         then send (publishAuthSessionEvent t SyncAuthenticated (bundle_sid bundle)) w2 else w2)"

datatype rotation_error = InvalidRotation | NoActiveSession | SessionMismatch

definition applyAuthRotation :: "tab \<Rightarrow> jsval \<Rightarrow> auth_world \<Rightarrow> rotation_error + auth_world" where
  "applyAuthRotation t value w =
     (if \<not> isAuthTokenRotation value then Inl InvalidRotation
      else if \<not> truthy_val (user (auth w)) \<or> \<not> truthy_val (session (auth w)) then Inl NoActiveSession
      else if bundle_sid value \<noteq> current_sid w then Inl SessionMismatch
      else Inr (applyAuthBundle t
        (Obj [(js ''access_token'', get_prop value (js ''access_token'')),
              (js ''token_type'', get_prop value (js ''token_type'')),
              (js ''access_expires_at'', get_prop value (js ''access_expires_at'')),
              (js ''session'', get_prop value (js ''session'')),
              (js ''user'', user (auth w))]) False w))"

definition clearAuthentication :: "tab \<Rightarrow> bool \<Rightarrow> bootstrap \<Rightarrow> auth_world \<Rightarrow> auth_world" where
  "clearAuthentication t synchronizeTabs b w =
     (let sid = current_sid w; w1 = on_auth (reset_auth b) (bump_epoch (clear_cache w))
      in if synchronizeTabs \<and> truthy_val sid then send (publishAuthSessionEvent t SyncSignedOut sid) w1
         else w1)"

definition bindAuthCache :: "nat \<Rightarrow> auth_world \<Rightarrow> auth_world" where
  "bindAuthCache c w = w\<lparr>authCache := Some c\<rparr>"

definition unbindAuthCache :: "nat \<Rightarrow> auth_world \<Rightarrow> auth_world" where
  "unbindAuthCache c w = (if authCache w = Some c then w\<lparr>authCache := None\<rparr> else w)"

definition clearAuthenticatedClientState :: "tab \<Rightarrow> nat \<Rightarrow> bool \<Rightarrow> auth_world \<Rightarrow> auth_world" where
  "clearAuthenticatedClientState t c synchronizeTabs w =
     clearAuthentication t synchronizeTabs BootComplete
       (if Some c \<noteq> authCache w then w\<lparr>cleared := cleared w @ [c]\<rparr> else w)"

section \<open>The refresh runner\<close>

record http_response =
  status :: number
  rdata :: jsval
  rerror :: jsval

datatype refresh_failure = Superseded | Failure jsval

datatype refresh_outcome =
    Authenticated jsval
  | Anonymous
  | TransientError refresh_failure
  | OutOfSync jsstr

text \<open>\<open>AuthRefreshRuntime\<close>; \<open>request\<close> and \<open>wait\<close> are the two awaits below.\<close>

record 'w runtime =
  getExpectedSID :: "'w \<Rightarrow> jsval"
  parseBundle :: "jsval \<Rightarrow> jsval option"
  acceptBundle :: "jsval \<Rightarrow> 'w \<Rightarrow> 'w"
  clearAuth :: "bool \<Rightarrow> bootstrap option \<Rightarrow> 'w \<Rightarrow> 'w"
  markTransient :: "'w \<Rightarrow> 'w"
  isCurrent :: "('w \<Rightarrow> bool) option"

datatype run_state =
    AwaitResponse jsval nat bool \<comment> \<open>expected session, race attempt, mismatch retry allowed\<close>
  | AwaitDelay nat nat bool \<comment> \<open>delay, next race attempt, mismatch retry allowed\<close>
  | Settled refresh_outcome

definition refreshRaceDelays :: "nat list" where
  "refreshRaceDelays = [80, 200, 500]"

definition current :: "'w runtime \<Rightarrow> 'w \<Rightarrow> bool" where
  "current rt w = (case isCurrent rt of None \<Rightarrow> True | Some f \<Rightarrow> f w)"

text \<open>\<open>run\<close> up to its first \<open>await\<close>.\<close>

definition run :: "'w runtime \<Rightarrow> nat \<Rightarrow> bool \<Rightarrow> 'w \<Rightarrow> run_state" where
  "run rt raceAttempt allowMismatchRetry w =
     (if \<not> current rt w then Settled (TransientError Superseded)
      else AwaitResponse (getExpectedSID rt w) raceAttempt allowMismatchRetry)"

definition transient_status :: "number \<Rightarrow> bool" where
  "transient_status s \<longleftrightarrow>
     \<not> truthy_num s \<or> num_eq s (Num 408) \<or> num_eq s (Num 425) \<or> num_eq s (Num 429) \<or> num_ge s (Num 500)"

text \<open>
  \<open>run\<close> from the response on. \<open>conclude\<close> is the part after the response has been read: \<open>code\<close> is
  \<open>undefined\<close> or a string, \<open>bundle\<close> the parsed bundle of a successful response.
\<close>

definition conclude ::
  "'w runtime \<Rightarrow> nat \<Rightarrow> bool \<Rightarrow> http_response \<Rightarrow> jsval \<Rightarrow> jsval option \<Rightarrow> 'w \<Rightarrow> 'w \<times> run_state" where
  "conclude rt raceAttempt allowMismatchRetry response code bundle w =
     (case bundle of
        Some b \<Rightarrow> (acceptBundle rt b w, Settled (Authenticated b))
      | None \<Rightarrow>
          if num_eq (status response) (Num 409) \<and> code = Str (js ''AUTH_REFRESH_RACE'') then
            (if raceAttempt < length refreshRaceDelays
             then (w, AwaitDelay (refreshRaceDelays ! raceAttempt) (Suc raceAttempt) allowMismatchRetry)
             else (clearAuth rt False None w, Settled (OutOfSync (str_of code))))
          else if num_eq (status response) (Num 409) \<and> code = Str (js ''AUTH_SESSION_MISMATCH'') then
            (if allowMismatchRetry
             then (let w' = clearAuth rt False (Some BootIdle) w in (w', run rt 0 False w'))
             else (clearAuth rt False None w, Settled (OutOfSync (str_of code))))
          else if num_eq (status response) (Num 401) then (clearAuth rt True None w, Settled Anonymous)
          else if transient_status (status response) then
            (markTransient rt w,
             Settled (TransientError (Failure (coalesce (rerror response) (rdata response)))))
          else (clearAuth rt False None w,
                Settled (OutOfSync (if code = Undefined then js ''AUTH_INVALID_REFRESH_RESPONSE''
                                    else str_of code))))"

definition on_response :: "'w runtime \<Rightarrow> nat \<Rightarrow> bool \<Rightarrow> http_response \<Rightarrow> 'w \<Rightarrow> 'w \<times> run_state" where
  "on_response rt raceAttempt allowMismatchRetry response w =
     (if \<not> current rt w then (w, Settled (TransientError Superseded))
      else
        let responseData = (if isRecord (rdata response) then rdata response else Undefined);
            code = (if is_Str (get_prop responseData (js ''code'')) then get_prop responseData (js ''code'')
                    else Undefined);
            bundle = parseBundle rt (get_prop responseData (js ''data''))
        in conclude rt raceAttempt allowMismatchRetry response code
             (if get_prop responseData (js ''success'') = Bool True then bundle else None) w)"

text \<open>The runtime of \<open>runRefresh\<close>.\<close>

definition refresh_runtime :: "tab \<Rightarrow> int \<Rightarrow> auth_world runtime" where
  "refresh_runtime t refreshEpoch =
     \<lparr>getExpectedSID = current_sid,
      parseBundle = (\<lambda>v. if isAuthBundle v then Some v else None),
      acceptBundle = (\<lambda>b. applyAuthBundle t b False),
      clearAuth = (\<lambda>sync b w.
        if \<not> sync \<and> b = Some BootIdle then on_auth (reset_auth BootIdle) w
        else clearAuthentication t sync (case b of None \<Rightarrow> BootComplete | Some b' \<Rightarrow> b') w),
      markTransient = on_auth (setBootstrapState BootIdle),
      isCurrent = Some (\<lambda>w. authEpoch w = refreshEpoch)\<rparr>"

text \<open>
  \<open>requestRefresh\<close>: the outcome of the HTTP library's \<open>post\<close> is an argument, a response, an error of
  the library (with its response, if it got one) or another error.
\<close>

datatype post_result =
    Responded number jsval
  | HttpError "(jsval \<times> jsval) option" jsval
  | OtherError jsval

definition requestRefresh :: "post_result \<Rightarrow> http_response" where
  "requestRefresh p =
     (case p of
        Responded s d \<Rightarrow> \<lparr>status = s, rdata = d, rerror = Undefined\<rparr>
      | OtherError e \<Rightarrow> \<lparr>status = Num 0, rdata = Undefined, rerror = e\<rparr>
      | HttpError None e \<Rightarrow> \<lparr>status = Num 0, rdata = Undefined, rerror = e\<rparr>
      | HttpError (Some (s, d)) e \<Rightarrow>
          \<lparr>status = (case s of Number n \<Rightarrow> n | _ \<Rightarrow> Num 0), rdata = d, rerror = e\<rparr>)"

definition refresh_headers :: "jsval \<Rightarrow> (jsstr \<times> jsval) list" where
  "refresh_headers expectedSID =
     (if truthy_val expectedSID then [(js ''X-Auth-Session'', expectedSID)] else [])"

section \<open>One refresh at a time\<close>

text \<open>
  The pending promise of \<open>refreshAuthentication\<close>: waiting for the browser's lock, running, or rejected
  because the lock manager refused the request. \<open>performRefreshWithBrowserLock\<close> returns the promise of
  the lock without awaiting it, so its \<open>catch\<close> does not see that rejection.
\<close>

datatype task_state = AwaitLock | Running run_state | Rejected jsval

record refresh_task =
  tepoch :: int
  tstate :: task_state
  trequests :: nat \<comment> \<open>requests issued so far\<close>

datatype task_event = LockGranted | LockRefused jsval | Response post_result | DelayOver

definition issued :: "run_state \<Rightarrow> nat" where
  "issued r = (case r of AwaitResponse _ _ _ \<Rightarrow> 1 | _ \<Rightarrow> 0)"

definition running :: "run_state \<Rightarrow> refresh_task \<Rightarrow> refresh_task" where
  "running r t = t\<lparr>tstate := Running r, trequests := trequests t + issued r\<rparr>"

definition task_step ::
  "tab \<Rightarrow> task_event \<Rightarrow> refresh_task \<Rightarrow> auth_world \<Rightarrow> (auth_world \<times> refresh_task) option" where
  "task_step t e task w =
     (let rt = refresh_runtime t (tepoch task)
      in case (tstate task, e) of
           (AwaitLock, LockGranted) \<Rightarrow> Some (w, running (run rt 0 True w) task)
         | (AwaitLock, LockRefused err) \<Rightarrow> Some (w, task\<lparr>tstate := Rejected err\<rparr>)
         | (Running (AwaitResponse sid attempt retry), Response p) \<Rightarrow>
             (let (w', r) = on_response rt attempt retry (requestRefresh p) w in Some (w', running r task))
         | (Running (AwaitDelay d attempt retry), DelayOver) \<Rightarrow> Some (w, running (run rt attempt retry w) task)
         | _ \<Rightarrow> None)"

definition finished :: "refresh_task \<Rightarrow> bool" where
  "finished task = (case tstate task of Running (Settled _) \<Rightarrow> True | Rejected _ \<Rightarrow> True | _ \<Rightarrow> False)"

record auth_system =
  world :: auth_world
  refreshPromise :: "refresh_task option"

definition refreshAuthentication :: "tab \<Rightarrow> bool \<Rightarrow> auth_system \<Rightarrow> auth_system" where
  "refreshAuthentication t hasLocks s =
     (case refreshPromise s of
        Some _ \<Rightarrow> s
      | None \<Rightarrow>
          let refreshEpoch = authEpoch (world s);
              task = \<lparr>tepoch = refreshEpoch, tstate = AwaitLock, trequests = 0\<rparr>
          in s\<lparr>refreshPromise := Some
               (if hasLocks then task
                else running (run (refresh_runtime t refreshEpoch) 0 True (world s)) task)\<rparr>)"

definition currentValidAuthBundle :: "tab \<Rightarrow> auth \<Rightarrow> jsval option" where
  "currentValidAuthBundle t a =
     (if \<not> truthy_val (user a) \<or> \<not> truthy_val (accessToken a) \<or> \<not> truthy_val (accessExpiresAt a) \<or>
         \<not> truthy_val (session a) \<or>
         num_le (num_of (accessExpiresAt a)) (num_floor (num_div (clock t) (Num 1000)))
      then None
      else Some (Obj [(js ''access_token'', accessToken a), (js ''token_type'', Str (js ''Bearer'')),
                      (js ''access_expires_at'', accessExpiresAt a), (js ''user'', user a),
                      (js ''session'', session a)]))"

text \<open>\<open>bootstrapAuthentication\<close>: an outcome at once, or \<open>None\<close> when it waits for the refresh.\<close>

definition bootstrapAuthentication ::
  "tab \<Rightarrow> bool \<Rightarrow> auth_system \<Rightarrow> auth_system \<times> refresh_outcome option" where
  "bootstrapAuthentication t hasLocks s =
     (let a = auth (world s)
      in case currentValidAuthBundle t a of
           Some bundle \<Rightarrow> (s\<lparr>world := on_auth (setBootstrapState BootComplete) (world s)\<rparr>, Some (Authenticated bundle))
         | None \<Rightarrow>
             if bootstrapState a = BootComplete \<and> \<not> (truthy_val (user a) \<and> truthy_val (session a))
             then (s, Some Anonymous)
             else (refreshAuthentication t hasLocks
                     (s\<lparr>world := on_auth (setBootstrapState BootChecking) (world s)\<rparr>), None))"

end
