(* ===== verification/AuthRefresh.thy ===== *)
theory AuthRefresh
  imports AuthSession
begin

text \<open>
  The session operations and the refresh of \<open>AuthSession\<close> running together: a step relation in which
  any operation of the program may run between two awaits of a pending refresh
  (\<open>src/apps/web/src/lib/auth-session.ts\<close>).

  Proved: the store is consistent in every reachable state; a refresh is bounded, comes to an end, and
  does nothing once a newer operation has superseded it; its outcome tells the state of the store; a
  change of session clears the query cache in one step, and the two-step path of the mismatch retry, on
  which it does not; and the delivery of messages between tabs.
\<close>

section \<open>The system\<close>

text \<open>The operations other parts of the program call, under the types their callers have.\<close>

datatype auth_action =
    ApplyBundle jsval bool | Rotate jsval | ClearAuth bool bootstrap | ClearClient nat bool
  | SetUser jsval | SetPending jsval | SetBootstrap bootstrap | Bind nat | Unbind nat

definition perform :: "tab \<Rightarrow> auth_action \<Rightarrow> auth_world \<Rightarrow> auth_world option" where
  "perform t a w =
     (case a of
        ApplyBundle b sync \<Rightarrow> if isAuthBundle b then Some (applyAuthBundle t b sync w) else None
      | Rotate v \<Rightarrow> (case applyAuthRotation t v w of Inl _ \<Rightarrow> Some w | Inr w' \<Rightarrow> Some w')
      | ClearAuth sync b \<Rightarrow> Some (clearAuthentication t sync b w)
      | ClearClient c sync \<Rightarrow> Some (clearAuthenticatedClientState t c sync w)
      | SetUser u \<Rightarrow> if u = Null \<or> isAuthUser u then Some (on_auth (setUser u) w) else None
      | SetPending p \<Rightarrow> if p = Null \<or> is_Str p then Some (on_auth (setPending2FAFlowToken p) w) else None
      | SetBootstrap b \<Rightarrow> Some (on_auth (setBootstrapState b) w)
      | Bind c \<Rightarrow> Some (bindAuthCache c w)
      | Unbind c \<Rightarrow> Some (unbindAuthCache c w))"

text \<open>
  A step of the client: an operation, the start of a refresh, an event of the pending refresh, or its
  \<open>finally\<close>.
\<close>

inductive auth_step :: "auth_system \<Rightarrow> auth_system \<Rightarrow> bool" where
  action: "perform t a (world s) = Some w \<Longrightarrow> auth_step s (s\<lparr>world := w\<rparr>)"
| start: "auth_step s (refreshAuthentication t locks s)"
| task: "refreshPromise s = Some k \<Longrightarrow> task_step t e k (world s) = Some (w, k') \<Longrightarrow>
         auth_step s (s\<lparr>world := w, refreshPromise := Some k'\<rparr>)"
| settle: "refreshPromise s = Some k \<Longrightarrow> finished k \<Longrightarrow> auth_step s (s\<lparr>refreshPromise := None\<rparr>)"

inductive_cases auth_stepE: "auth_step s s'"

definition initial_system :: auth_system where
  "initial_system =
     \<lparr>world = \<lparr>auth = initial_auth, authEpoch = 0, authCache = None, cleared = [], outbox = []\<rparr>,
      refreshPromise = None\<rparr>"

definition reachable :: "auth_system \<Rightarrow> bool" where
  "reachable s \<longleftrightarrow> auth_step\<^sup>*\<^sup>* initial_system s"

section \<open>Invariants\<close>

text \<open>
  What the store may hold: a user and a pending token of the right types or \<open>null\<close>, and a session, a
  non-empty token and a positive expiry together or not at all.
\<close>

definition auth_ok :: "auth \<Rightarrow> bool" where
  "auth_ok a \<longleftrightarrow>
     (user a = Null \<or> isAuthUser (user a)) \<and>
     (pending2FAFlowToken a = Null \<or> is_Str (pending2FAFlowToken a)) \<and>
     (session a = Null \<and> accessToken a = Null \<and> accessExpiresAt a = Null \<or>
      isLoginSession (session a) \<and>
      (\<exists>s. accessToken a = Str s \<and> s \<noteq> []) \<and>
      (\<exists>n. accessExpiresAt a = Number n \<and> is_finite n \<and> num_gt n (Num 0)))"

lemma sid_of_session: "isLoginSession v \<Longrightarrow> \<exists>x. get_prop v (js ''sid'') = Str x \<and> x \<noteq> []"
  by (auto simp: isLoginSession_def is_Str_def str_of_def split: jsval.splits)

lemma auth_ok_sid:
  "auth_ok (auth w) \<Longrightarrow> current_sid w = Undefined \<or> (\<exists>x. current_sid w = Str x \<and> x \<noteq> [])"
  by (auto simp: auth_ok_def current_sid_def dest: sid_of_session)

lemma bundle_fields:
  assumes "hasValidTokenFields v"
  shows "\<exists>s. get_prop v (js ''access_token'') = Str s \<and> s \<noteq> []"
    and "\<exists>n. get_prop v (js ''access_expires_at'') = Number n \<and> is_finite n \<and> num_gt n (Num 0)"
  using assms
  by (auto simp: hasValidTokenFields_def is_Str_def str_of_def val_is_finite_def num_of_def split: jsval.splits)

lemma setBundle_ok [inv_intros]: "isAuthBundle b \<Longrightarrow> auth_ok (setBundle b a)"
  using bundle_fields [of b] by (auto simp: auth_ok_def setBundle_def isAuthBundle_def)

lemma reset_ok [inv_intros]: "auth_ok (reset_auth b a)"
  by (simp add: auth_ok_def reset_auth_def)

lemma setBootstrapState_ok [inv_intros]: "auth_ok a \<Longrightarrow> auth_ok (setBootstrapState b a)"
  by (simp add: auth_ok_def setBootstrapState_def)

lemma world_frame [simp]:
  "auth (bump_epoch w) = auth w" "auth (clear_cache w) = auth w" "auth (send ms w) = auth w"
  "auth (on_auth f w) = f (auth w)"
  "authEpoch (bump_epoch w) = authEpoch w + 1" "authEpoch (clear_cache w) = authEpoch w"
  "authEpoch (send ms w) = authEpoch w" "authEpoch (on_auth f w) = authEpoch w"
  "cleared (bump_epoch w) = cleared w" "cleared (send ms w) = cleared w"
  "cleared (on_auth f w) = cleared w"
  "authCache (bump_epoch w) = authCache w" "authCache (clear_cache w) = authCache w"
  "authCache (send ms w) = authCache w" "authCache (on_auth f w) = authCache w"
  by (simp_all add: bump_epoch_def clear_cache_def send_def on_auth_def split: option.splits)

lemma clear_cache_cleared [simp]:
  "cleared (clear_cache w) = cleared w @ (case authCache w of None \<Rightarrow> [] | Some c \<Rightarrow> [c])"
  by (simp add: clear_cache_def split: option.splits)

lemma applyAuthBundle_frame [simp]:
  "auth (applyAuthBundle t b sync w) = setBundle b (auth w)"
  "authEpoch (applyAuthBundle t b sync w) = authEpoch w + 1"
  "authCache (applyAuthBundle t b sync w) = authCache w"
  "cleared (applyAuthBundle t b sync w) = cleared w @
     (if truthy_val (current_sid w) \<and> current_sid w \<noteq> bundle_sid b
      then (case authCache w of None \<Rightarrow> [] | Some c \<Rightarrow> [c]) else [])"
  by (auto simp: applyAuthBundle_def Let_def)

lemma clearAuthentication_frame [simp]:
  "auth (clearAuthentication t sync b w) = reset_auth b (auth w)"
  "authEpoch (clearAuthentication t sync b w) = authEpoch w + 1"
  "authCache (clearAuthentication t sync b w) = authCache w"
  "cleared (clearAuthentication t sync b w) = cleared w @ (case authCache w of None \<Rightarrow> [] | Some c \<Rightarrow> [c])"
  by (simp_all add: clearAuthentication_def Let_def)

lemma current_sid_setBundle [simp]:
  "get_prop (session (setBundle b a)) (js ''sid'') = bundle_sid b"
  by (simp add: setBundle_def bundle_sid_def)

lemma current_sid_reset [simp]: "session (reset_auth b a) = Null"
  by (simp add: reset_auth_def)

text \<open>The contract of a session operation, and what it gives together with the guards of its callers.\<close>

locale session_operation =
  fixes guard :: "auth_world \<Rightarrow> bool" and op :: "auth_world \<Rightarrow> auth_world"
  assumes keeps_ok: "guard w \<Longrightarrow> auth_ok (auth w) \<Longrightarrow> auth_ok (auth (op w))"
    and epoch_le: "guard w \<Longrightarrow> authEpoch w \<le> authEpoch (op w)"
    and changes_epoch: "guard w \<Longrightarrow> accessToken (auth (op w)) \<noteq> accessToken (auth w) \<Longrightarrow> authEpoch w < authEpoch (op w)"
    and switch_clears:
      "guard w \<Longrightarrow> auth_ok (auth w) \<Longrightarrow> current_sid w = Str x \<Longrightarrow> current_sid (op w) = Str y \<Longrightarrow> x \<noteq> y \<Longrightarrow>
       authCache w = Some c \<Longrightarrow> c \<in> set (drop (length (cleared w)) (cleared (op w)))"
begin

lemma stays_superseded: "guard w \<Longrightarrow> n < authEpoch w \<Longrightarrow> n < authEpoch (op w)"
  using epoch_le [of w] by simp

lemma token_change_supersedes:
  "guard w \<Longrightarrow> accessToken (auth (op w)) \<noteq> accessToken (auth w) \<Longrightarrow> n \<le> authEpoch w \<Longrightarrow> n < authEpoch (op w)"
  using changes_epoch [of w] by simp

end

interpretation apply_bundle: session_operation "\<lambda>_. isAuthBundle b" "applyAuthBundle t b sync"
proof unfold_locales
  fix w x y c
  assume "auth_ok (auth w)" and x: "current_sid w = Str x" and y: "current_sid (applyAuthBundle t b sync w) = Str y"
    and "x \<noteq> y" and "authCache w = Some c"
  moreover from auth_ok_sid [of w] calculation(1) x have "truthy_val (current_sid w)"
    by auto
  moreover from y have "bundle_sid b = Str y"
    by (simp add: current_sid_def)
  ultimately show "c \<in> set (drop (length (cleared w)) (cleared (applyAuthBundle t b sync w)))"
    by simp
qed (auto intro: inv_intros)

interpretation clear_auth: session_operation "\<lambda>_. True" "clearAuthentication t sync b"
  by unfold_locales (auto intro: inv_intros simp: current_sid_def)

interpretation clear_client: session_operation "\<lambda>_. True" "clearAuthenticatedClientState t c sync"
  by unfold_locales (auto intro: inv_intros simp: current_sid_def clearAuthenticatedClientState_def)

interpretation set_user: session_operation "\<lambda>_. u = Null \<or> isAuthUser u" "on_auth (setUser u)"
  by unfold_locales (auto simp: auth_ok_def setUser_def current_sid_def)

interpretation set_pending: session_operation "\<lambda>_. p = Null \<or> is_Str p" "on_auth (setPending2FAFlowToken p)"
  by unfold_locales (auto simp: auth_ok_def setPending2FAFlowToken_def current_sid_def)

interpretation set_bootstrap: session_operation "\<lambda>_. True" "on_auth (setBootstrapState b)"
  by unfold_locales (auto simp: auth_ok_def setBootstrapState_def current_sid_def)

interpretation bind_cache: session_operation "\<lambda>_. True" "bindAuthCache c"
  by unfold_locales (auto simp: bindAuthCache_def current_sid_def)

interpretation unbind_cache: session_operation "\<lambda>_. True" "unbindAuthCache c"
  by unfold_locales (auto simp: unbindAuthCache_def current_sid_def split: if_splits)

lemma rotation_is_bundle:
  assumes "applyAuthRotation t v w = Inr w'" and "auth_ok (auth w)"
  shows "\<exists>b. isAuthBundle b \<and> bundle_sid b = current_sid w \<and> user (auth w) = get_prop b (js ''user'') \<and>
    w' = applyAuthBundle t b False w"
proof -
  let ?b = "Obj [(js ''access_token'', get_prop v (js ''access_token'')),
              (js ''token_type'', get_prop v (js ''token_type'')),
              (js ''access_expires_at'', get_prop v (js ''access_expires_at'')),
              (js ''session'', get_prop v (js ''session'')),
              (js ''user'', user (auth w))]"
  from assms(1) have v: "isAuthTokenRotation v" and u: "truthy_val (user (auth w))"
      and sid: "bundle_sid v = current_sid w" and w': "w' = applyAuthBundle t ?b False w"
    by (auto simp: applyAuthRotation_def split: if_splits)
  from u assms(2) have "isAuthUser (user (auth w))"
    by (auto simp: auth_ok_def)
  with v have "isAuthBundle ?b"
    by (simp add: isAuthBundle_def isAuthTokenRotation_def hasValidTokenFields_def isRecord_def is_object_def str_of_def)
  moreover from sid have "bundle_sid ?b = current_sid w"
    by (simp add: bundle_sid_def)
  ultimately show ?thesis
    using w' by (intro exI [of _ ?b]) simp
qed

interpretation no_operation: session_operation "\<lambda>_. True" "\<lambda>w. w"
  by unfold_locales auto

lemma operationI:
  "session_operation guard op \<Longrightarrow> guard w \<Longrightarrow> \<exists>g f. session_operation g f \<and> g w \<and> op w = f w"
  by blast

text \<open>Whatever the program performs is an operation that meets the contract.\<close>

lemma perform_operation:
  assumes "perform t a w = Some w'" and ok: "auth_ok (auth w)"
  shows "\<exists>guard op. session_operation guard op \<and> guard w \<and> w' = op w"
proof (cases a)
  case (ApplyBundle b sync)
  with assms show ?thesis
    using apply_bundle.session_operation_axioms [of b t sync] by (auto simp: perform_def split: if_splits)
next
  case (Rotate v)
  show ?thesis
  proof (cases "applyAuthRotation t v w")
    case (Inl e)
    with Rotate assms show ?thesis
      using no_operation.session_operation_axioms by (auto simp: perform_def)
  next
    case (Inr w2)
    from rotation_is_bundle [OF Inr ok] Inr Rotate assms(1) obtain b where "isAuthBundle b"
        and "w' = applyAuthBundle t b False w"
      by (auto simp: perform_def)
    then show ?thesis
      using apply_bundle.session_operation_axioms [of b t False] by auto
  qed
next
  case (SetUser u)
  with assms show ?thesis
    using set_user.session_operation_axioms [of u] by (auto simp: perform_def split: if_splits)
next
  case (SetPending p)
  with assms show ?thesis
    using set_pending.session_operation_axioms [of p] by (auto simp: perform_def split: if_splits)
next
  case (ClearAuth sync b)
  with assms show ?thesis
    using operationI [OF clear_auth.session_operation_axioms [of t sync b], of w] by (simp add: perform_def)
next
  case (ClearClient c sync)
  with assms show ?thesis
    using operationI [OF clear_client.session_operation_axioms [of t c sync], of w] by (simp add: perform_def)
next
  case (SetBootstrap b)
  with assms show ?thesis
    using operationI [OF set_bootstrap.session_operation_axioms [of b], of w] by (simp add: perform_def)
next
  case (Bind c)
  with assms show ?thesis
    using operationI [OF bind_cache.session_operation_axioms [of c], of w] by (simp add: perform_def)
next
  case (Unbind c)
  with assms show ?thesis
    using operationI [OF unbind_cache.session_operation_axioms [of c], of w] by (simp add: perform_def)
qed

lemma perform_ok: "perform t a w = Some w' \<Longrightarrow> auth_ok (auth w) \<Longrightarrow> auth_ok (auth w')"
  using perform_operation session_operation.keeps_ok by blast

lemma perform_epoch: "perform t a w = Some w' \<Longrightarrow> auth_ok (auth w) \<Longrightarrow> authEpoch w \<le> authEpoch w'"
  using perform_operation session_operation.epoch_le by blast

lemma perform_token:
  "perform t a w = Some w' \<Longrightarrow> auth_ok (auth w) \<Longrightarrow> accessToken (auth w') \<noteq> accessToken (auth w) \<Longrightarrow>
   authEpoch w < authEpoch w'"
  using perform_operation session_operation.changes_epoch by blast

lemma perform_switch:
  assumes "perform t a w = Some w'" and "auth_ok (auth w)" and "current_sid w = Str x"
    and "current_sid w' = Str y" and "x \<noteq> y" and "authCache w = Some c"
  shows "c \<in> set (drop (length (cleared w)) (cleared w'))"
  using perform_operation [OF assms(1,2)] session_operation.switch_clears assms(2-6) by blast

section \<open>The refresh as a state machine\<close>

lemma runtime_simps [simp]:
  "getExpectedSID (refresh_runtime t n) = current_sid"
  "acceptBundle (refresh_runtime t n) b = applyAuthBundle t b False"
  "markTransient (refresh_runtime t n) = on_auth (setBootstrapState BootIdle)"
  "current (refresh_runtime t n) w \<longleftrightarrow> authEpoch w = n"
  "clearAuth (refresh_runtime t n) sync None w = clearAuthentication t sync BootComplete w"
  "clearAuth (refresh_runtime t n) False (Some BootIdle) w = on_auth (reset_auth BootIdle) w"
  "parseBundle (refresh_runtime t n) v = Some b \<longleftrightarrow> isAuthBundle v \<and> b = v"
  by (auto simp: refresh_runtime_def current_def)

lemma conclude_cases:
  assumes "conclude (refresh_runtime t n) attempt retry resp code bundle w = (w', r)" and "authEpoch w = n"
  shows "(\<exists>b. bundle = Some b \<and> w' = applyAuthBundle t b False w \<and> r = Settled (Authenticated b)) \<or>
    (attempt < 3 \<and> w' = w \<and> r = AwaitDelay (refreshRaceDelays ! attempt) (Suc attempt) retry) \<or>
    (retry \<and> w' = on_auth (reset_auth BootIdle) w \<and> r = AwaitResponse Undefined 0 False) \<or>
    (num_eq (status resp) (Num 401) \<and> w' = clearAuthentication t True BootComplete w \<and> r = Settled Anonymous) \<or>
    (\<exists>f. w' = on_auth (setBootstrapState BootIdle) w \<and> r = Settled (TransientError (Failure f))) \<or>
    (\<exists>c. w' = clearAuthentication t False BootComplete w \<and> r = Settled (OutOfSync c))"
proof -
  have idle: "run (refresh_runtime t n) 0 False (on_auth (reset_auth BootIdle) w) = AwaitResponse Undefined 0 False"
    using assms(2) by (simp add: run_def current_sid_def)
  show ?thesis
  proof (cases "bundle")
    case None
    with assms(1) show ?thesis
      by (simp add: conclude_def idle refreshRaceDelays_def split: if_split_asm) blast+
  next
    case (Some b)
    with assms(1) show ?thesis
      by (simp add: conclude_def)
  qed
qed

lemma on_response_current:
  assumes "authEpoch w = n"
  shows "\<exists>code parsed. (\<forall>b. parsed = Some b \<longrightarrow> isAuthBundle b) \<and>
    on_response (refresh_runtime t n) attempt retry resp w =
    conclude (refresh_runtime t n) attempt retry resp code parsed w"
proof (intro exI conjI)
  let ?d = "if isRecord (rdata resp) then rdata resp else Undefined"
  let ?parsed = "if get_prop ?d (js ''success'') = Bool True
    then parseBundle (refresh_runtime t n) (get_prop ?d (js ''data'')) else None"
  show "on_response (refresh_runtime t n) attempt retry resp w =
    conclude (refresh_runtime t n) attempt retry resp
      (if is_Str (get_prop ?d (js ''code'')) then get_prop ?d (js ''code'') else Undefined) ?parsed w"
    by (simp only: on_response_def Let_def runtime_simps assms simp_thms if_True if_False)
  show "\<forall>b. ?parsed = Some b \<longrightarrow> isAuthBundle b"
    by (simp del: get_prop_simps)
qed

text \<open>What a response does: every branch, with the state that follows.\<close>

lemma on_response_cases:
  assumes "on_response (refresh_runtime t n) attempt retry resp w = (w', r)"
  obtains
    (superseded) "authEpoch w \<noteq> n" "w' = w" "r = Settled (TransientError Superseded)"
  | (accepted) b where "authEpoch w = n" "isAuthBundle b" "w' = applyAuthBundle t b False w"
      "r = Settled (Authenticated b)"
  | (race) "authEpoch w = n" "attempt < 3" "w' = w"
      "r = AwaitDelay (refreshRaceDelays ! attempt) (Suc attempt) retry"
  | (mismatch) "authEpoch w = n" "retry" "w' = on_auth (reset_auth BootIdle) w"
      "r = AwaitResponse Undefined 0 False"
  | (rejected) "authEpoch w = n" "num_eq (status resp) (Num 401)" "w' = clearAuthentication t True BootComplete w" "r = Settled Anonymous"
  | (transient) f where "authEpoch w = n" "w' = on_auth (setBootstrapState BootIdle) w"
      "r = Settled (TransientError (Failure f))"
  | (out_of_sync) code where "authEpoch w = n" "w' = clearAuthentication t False BootComplete w"
      "r = Settled (OutOfSync code)"
proof (cases "authEpoch w = n")
  case False
  with assms have "w' = w" and "r = Settled (TransientError Superseded)"
    by (simp_all add: on_response_def)
  with False show thesis by (intro superseded)
next
  case True
  from on_response_current [OF True, of t attempt retry resp] obtain code parsed
    where parsed: "\<forall>b. parsed = Some b \<longrightarrow> isAuthBundle b"
      and eq: "on_response (refresh_runtime t n) attempt retry resp w =
        conclude (refresh_runtime t n) attempt retry resp code parsed w"
    by blast
  from eq assms have concl: "conclude (refresh_runtime t n) attempt retry resp code parsed w = (w', r)"
    by simp
  from conclude_cases [OF concl True] parsed True show thesis
  proof (elim disjE exE conjE)
    fix b assume "parsed = Some b" and "w' = applyAuthBundle t b False w" and "r = Settled (Authenticated b)"
    with True parsed show thesis by (intro accepted) auto
  next
    assume "attempt < 3" "w' = w" "r = AwaitDelay (refreshRaceDelays ! attempt) (Suc attempt) retry"
    with True show thesis by (intro race)
  next
    assume "retry" "w' = on_auth (reset_auth BootIdle) w" "r = AwaitResponse Undefined 0 False"
    with True show thesis by (intro mismatch)
  next
    assume "num_eq (status resp) (Num 401)" "w' = clearAuthentication t True BootComplete w" "r = Settled Anonymous"
    with True show thesis by (intro rejected)
  next
    fix f assume "w' = on_auth (setBootstrapState BootIdle) w" "r = Settled (TransientError (Failure f))"
    with True show thesis by (intro transient)
  next
    fix c assume "w' = clearAuthentication t False BootComplete w" "r = Settled (OutOfSync c)"
    with True show thesis by (intro out_of_sync)
  qed
qed

lemma run_cases:
  "run (refresh_runtime t n) a r w =
     (if authEpoch w = n then AwaitResponse (current_sid w) a r else Settled (TransientError Superseded))"
  by (simp add: run_def)

text \<open>How many requests a state can still issue, and a measure that every event decreases.\<close>

fun requests_left :: "task_state \<Rightarrow> nat" where
  "requests_left AwaitLock = 8"
| "requests_left (Running (AwaitResponse _ a r)) = (3 - a) + (if r then 4 else 0)"
| "requests_left (Running (AwaitDelay _ a r)) = (4 - a) + (if r then 4 else 0)"
| "requests_left _ = 0"

fun task_measure :: "task_state \<Rightarrow> nat" where
  "task_measure AwaitLock = 16"
| "task_measure (Running (AwaitResponse _ a r)) = Suc (2 * (3 - a)) + (if r then 8 else 0)"
| "task_measure (Running (AwaitDelay _ a r)) = 2 * (4 - a) + (if r then 8 else 0)"
| "task_measure _ = 0"

fun attempts_ok :: "task_state \<Rightarrow> bool" where
  "attempts_ok (Running (AwaitResponse _ a _)) = (a \<le> 3)"
| "attempts_ok (Running (AwaitDelay _ a _)) = (a \<le> 3)"
| "attempts_ok _ = True"

definition task_ok :: "refresh_task \<Rightarrow> bool" where
  "task_ok k \<longleftrightarrow> attempts_ok (tstate k) \<and> trequests k + requests_left (tstate k) \<le> 8"

lemma task_step_cases:
  assumes "task_step t e k w = Some (w', k')"
  obtains
    (granted) "tstate k = AwaitLock" "w' = w"
      "k' = running (run (refresh_runtime t (tepoch k)) 0 True w) k"
  | (refused) err where "tstate k = AwaitLock" "w' = w" "k' = k\<lparr>tstate := Rejected err\<rparr>"
  | (response) sid a r p st where "tstate k = Running (AwaitResponse sid a r)"
      "on_response (refresh_runtime t (tepoch k)) a r (requestRefresh p) w = (w', st)" "k' = running st k"
  | (delay) d a r where "tstate k = Running (AwaitDelay d a r)" "w' = w"
      "k' = running (run (refresh_runtime t (tepoch k)) a r w) k"
  using assms
  by (auto simp: task_step_def Let_def split: task_state.splits task_event.splits run_state.splits prod.splits)

lemma running_simps [simp]:
  "tstate (running r k) = Running r" "trequests (running r k) = trequests k + issued r"
  "tepoch (running r k) = tepoch k"
  by (simp_all add: running_def)

lemma issued_simps [simp]: "issued (AwaitResponse sid a r) = 1" "issued (AwaitDelay d a r) = 0" "issued (Settled q) = 0"
  by (simp_all add: issued_def)

lemma task_step_keeps:
  assumes "task_step t e k w = Some (w', k')" and "task_ok k"
  shows "task_ok k' \<and> tepoch k' = tepoch k \<and> task_measure (tstate k') < task_measure (tstate k)"
  using assms(1)
proof (cases rule: task_step_cases)
  case granted
  with assms(2) show ?thesis by (simp add: run_cases task_ok_def)
next
  case refused
  with assms(2) show ?thesis by (simp add: task_ok_def)
next
  case (delay d a r)
  with assms(2) show ?thesis by (auto simp: run_cases task_ok_def)
next
  case (response sid a r p st)
  from response(2) assms(2) show ?thesis
    by (cases rule: on_response_cases) (auto simp: response(1,3) task_ok_def)
qed

text \<open>Once the epoch has moved on, an event of the refresh changes nothing but the refresh itself.\<close>

lemma task_step_superseded:
  assumes "task_step t e k w = Some (w', k')" and "authEpoch w \<noteq> tepoch k"
  shows "w' = w"
  using assms(1)
proof (cases rule: task_step_cases)
  case (response sid a r p st)
  from response(2) assms(2) show ?thesis
    by (cases rule: on_response_cases) auto
qed

lemma task_step_world:
  assumes "task_step t e k w = Some (w', k')" and "auth_ok (auth w)"
  shows "auth_ok (auth w') \<and> authEpoch w \<le> authEpoch w'"
  using assms(1)
proof (cases rule: task_step_cases)
  case (response sid a r p st)
  from response(2) assms(2) show ?thesis
    by (cases rule: on_response_cases) (auto intro: inv_intros)
qed (use assms(2) in simp_all)

definition system_ok :: "auth_system \<Rightarrow> bool" where
  "system_ok s \<longleftrightarrow>
     auth_ok (auth (world s)) \<and>
     (\<forall>k. refreshPromise s = Some k \<longrightarrow> task_ok k \<and> tepoch k \<le> authEpoch (world s))"

lemma refreshAuthentication_ok: "system_ok s \<Longrightarrow> system_ok (refreshAuthentication t locks s)"
  by (auto simp: system_ok_def refreshAuthentication_def Let_def task_ok_def run_cases split: option.splits)

lemma auth_step_ok:
  assumes "auth_step s s'" and "system_ok s"
  shows "system_ok s'" and "authEpoch (world s) \<le> authEpoch (world s')"
  using assms
proof (induction rule: auth_step.induct)
  case (action t a s w)
  {
    case 1
    with action show ?case
      using perform_ok [OF action] perform_epoch [OF action] by (fastforce simp: system_ok_def)
  next
    case 2
    with action show ?case
      using perform_epoch [OF action] by (simp add: system_ok_def)
  }
next
  case (start s t locks)
  {
    case 1
    then show ?case by (rule refreshAuthentication_ok)
  next
    case 2
    show ?case by (simp add: refreshAuthentication_def Let_def split: option.splits)
  }
next
  case (task s k t e w k')
  {
    case 1
    with task show ?case
      using task_step_keeps [OF task(2)] task_step_world [OF task(2)] by (fastforce simp: system_ok_def)
  next
    case 2
    with task show ?case
      using task_step_world [OF task(2)] by (simp add: system_ok_def)
  }
next
  case (settle s k)
  {
    case 1
    then show ?case by (simp add: system_ok_def)
  next
    case 2
    show ?case by simp
  }
qed

lemma initial_ok: "system_ok initial_system"
  by (simp add: system_ok_def initial_system_def initial_auth_def auth_ok_def)

lemma steps_ok:
  assumes "auth_step\<^sup>*\<^sup>* s s'" and "system_ok s"
  shows "system_ok s' \<and> authEpoch (world s) \<le> authEpoch (world s')"
  using assms
proof (induction rule: rtranclp_induct)
  case base
  then show ?case by simp
next
  case (step y z)
  then show ?case using auth_step_ok [OF step(2)] by fastforce
qed

lemma reachable_ok: "reachable s \<Longrightarrow> system_ok s"
  using steps_ok [OF _ initial_ok] by (auto simp: reachable_def)

section \<open>Executions\<close>

text \<open>The step relation as a function of an event, to run it.\<close>

datatype system_event = Perform auth_action | StartRefresh bool | TaskEvent task_event | SettleRefresh

definition exec_event :: "tab \<Rightarrow> system_event \<Rightarrow> auth_system \<Rightarrow> auth_system option" where
  "exec_event t ev s =
     (case ev of
        Perform a \<Rightarrow> map_option (\<lambda>w. s\<lparr>world := w\<rparr>) (perform t a (world s))
      | StartRefresh locks \<Rightarrow> Some (refreshAuthentication t locks s)
      | TaskEvent e \<Rightarrow>
          (case refreshPromise s of None \<Rightarrow> None
           | Some k \<Rightarrow> map_option (\<lambda>(w, k'). s\<lparr>world := w, refreshPromise := Some k'\<rparr>) (task_step t e k (world s)))
      | SettleRefresh \<Rightarrow>
          (case refreshPromise s of None \<Rightarrow> None
           | Some k \<Rightarrow> if finished k then Some (s\<lparr>refreshPromise := None\<rparr>) else None))"

fun exec_events :: "tab \<Rightarrow> system_event list \<Rightarrow> auth_system \<Rightarrow> auth_system option" where
  "exec_events t [] s = Some s"
| "exec_events t (ev # evs) s = (case exec_event t ev s of None \<Rightarrow> None | Some s' \<Rightarrow> exec_events t evs s')"

lemma exec_event_step: "exec_event t ev s = Some s' \<Longrightarrow> auth_step s s'"
  by (auto simp: exec_event_def split: system_event.splits option.splits if_splits
      intro: auth_step.intros)

lemma exec_events_steps: "exec_events t evs s = Some s' \<Longrightarrow> auth_step\<^sup>*\<^sup>* s s'"
proof (induction t evs s rule: exec_events.induct)
  case (2 t ev evs s)
  then obtain s1 where "exec_event t ev s = Some s1" and "auth_step\<^sup>*\<^sup>* s1 s'"
    by (auto split: option.splits)
  then show ?case
    using exec_event_step converse_rtranclp_into_rtranclp by metis
qed simp

lemma exec_events_reachable: "exec_events t evs initial_system = Some s \<Longrightarrow> reachable s"
  by (simp add: reachable_def exec_events_steps)

definition sample_tab :: tab where
  "sample_tab = \<lparr>hasWindow = True, hasChannel = True, storageWorks = True, authSyncSource = js ''tab-1'',
     nonce = js ''n'', clock = Num 1000000\<rparr>"

definition sample_bundle :: "string \<Rightarrow> string \<Rightarrow> rat \<Rightarrow> jsval" where
  "sample_bundle sid token uid =
     Obj [(js ''access_token'', Str (js token)), (js ''token_type'', Str (js ''Bearer'')),
       (js ''access_expires_at'', Number (Num 5000)),
       (js ''user'', Obj [(js ''id'', Number (Num uid)), (js ''username'', Str (js ''u'')), (js ''role'', Number (Num 1))]),
       (js ''session'', Obj [(js ''sid'', Str (js sid)), (js ''current'', Bool True), (js ''login_method'', Str (js ''password'')),
          (js ''ip'', Str (js ''::1'')), (js ''user_agent'', Str (js ''x'')), (js ''created_at'', Number (Num 1)),
          (js ''last_active_at'', Number (Num 2)), (js ''expires_at'', Number (Num 9000))])]"

text \<open>A tab signed in as one user, whose refresh is waiting for its first response.\<close>

definition waiting_events :: "system_event list" where
  "waiting_events = [Perform (Bind 7), Perform (ApplyBundle (sample_bundle ''A'' ''tokA'' 1) True), StartRefresh False]"

definition waiting_system :: auth_system where
  "waiting_system = (case exec_events sample_tab waiting_events initial_system of Some s \<Rightarrow> s | None \<Rightarrow> initial_system)"

lemma waiting_reachable: "reachable waiting_system"
proof -
  have "exec_events sample_tab waiting_events initial_system \<noteq> None"
    by code_simp
  then obtain s where "exec_events sample_tab waiting_events initial_system = Some s"
    by auto
  then show ?thesis
    using exec_events_reachable [of sample_tab waiting_events s] by (simp add: waiting_system_def)
qed

definition mismatch_response :: post_result where
  "mismatch_response = HttpError (Some (Number (Num 409), Obj [(js ''code'', Str (js ''AUTH_SESSION_MISMATCH''))])) Null"

definition success_response :: "jsval \<Rightarrow> post_result" where
  "success_response b = Responded (Num 200) (Obj [(js ''success'', Bool True), (js ''data'', b)])"

section \<open>Properties\<close>



text \<open>C1: A refresh cannot restore credentials after a newer operation: once an operation has changed
  the access token while a refresh is pending, no later event of that refresh, whatever else happens in
  between, changes the session state, the caches or the messages sent.\<close>

theorem superseded_refresh_is_inert:
  assumes "reachable s" and "refreshPromise s = Some k"
    and "perform t a (world s) = Some w" and "accessToken (auth w) \<noteq> accessToken (auth (world s))"
    and "auth_step\<^sup>*\<^sup>* (s\<lparr>world := w\<rparr>) s'"
    and "refreshPromise s' = Some k'" and "tepoch k' = tepoch k"
    and "task_step t' e k' (world s') = Some (w', k'')"
  shows "w' = world s'"
proof -
  have ok: "system_ok s"
    using assms(1) by (rule reachable_ok)
  have "authEpoch (world s) < authEpoch w"
    using perform_token [OF assms(3) _ assms(4)] ok by (simp add: system_ok_def)
  moreover have "tepoch k \<le> authEpoch (world s)"
    using ok assms(2) by (simp add: system_ok_def)
  moreover have "system_ok (s\<lparr>world := w\<rparr>)"
    using auth_step_ok(1) [OF auth_step.action [where s = s, OF assms(3)] ok] .
  then have "authEpoch w \<le> authEpoch (world s')"
    using steps_ok [OF assms(5)] by simp
  ultimately have "authEpoch (world s') \<noteq> tepoch k'"
    using assms(7) by simp
  then show ?thesis
    using task_step_superseded [OF assms(8)] by blast
qed

theorem superseded_refresh_is_inert_witness:
  "\<exists>w k k' w' k''. perform sample_tab (ClearAuth True BootComplete) (world waiting_system) = Some w \<and>
     refreshPromise waiting_system = Some k \<and>
     task_step sample_tab (Response (success_response (sample_bundle ''A'' ''tokB'' 1))) k w = Some (w', k'') \<and>
     w' = w \<and> accessToken (auth w') = Null"
proof -
  let ?a = "ClearAuth True BootComplete" and ?e = "Response (success_response (sample_bundle ''A'' ''tokB'' 1))"
  have "case perform sample_tab ?a (world waiting_system) of None \<Rightarrow> False
    | Some w \<Rightarrow> (case refreshPromise waiting_system of None \<Rightarrow> False
      | Some k \<Rightarrow> task_step sample_tab ?e k w \<noteq> None \<and> accessToken (auth w) = Null \<and>
          accessToken (auth w) \<noteq> accessToken (auth (world waiting_system)))"
    by code_simp
  then obtain w k w' k'' where w: "perform sample_tab ?a (world waiting_system) = Some w"
      and k: "refreshPromise waiting_system = Some k"
      and step: "task_step sample_tab ?e k w = Some (w', k'')"
      and tok: "accessToken (auth w) = Null" "accessToken (auth w) \<noteq> accessToken (auth (world waiting_system))"
    by (auto split: option.splits)
  have "w' = world (waiting_system\<lparr>world := w\<rparr>)"
    by (rule superseded_refresh_is_inert [OF waiting_reachable k w tok(2) rtranclp.rtrancl_refl, where k' = k])
       (use k step in simp_all)
  then show ?thesis
    using w k step tok by auto
qed

text \<open>A refresh issues at most eight requests: four for the initial attempt and its race retries,
  and four more after the one retry of a session mismatch.\<close>

lemma refresh_request_bound:
  assumes "reachable s" and "refreshPromise s = Some k"
  shows "trequests k \<le> 8"
  using reachable_ok [OF assms(1)] assms(2) by (auto simp: system_ok_def task_ok_def)

text \<open>C34: A refresh comes to an end: until it is finished there is an event it waits for, and every
  event it receives decreases a measure that starts at sixteen.\<close>

theorem refresh_terminates:
  assumes "reachable s" and "refreshPromise s = Some k"
  shows "(\<not> finished k \<longrightarrow> (\<exists>e. task_step t e k (world s) \<noteq> None)) \<and>
    (\<forall>e w k'. task_step t e k (world s) = Some (w, k') \<longrightarrow>
       task_measure (tstate k') < task_measure (tstate k)) \<and>
    task_measure (tstate k) \<le> 16"
proof (intro conjI impI allI)
  assume "\<not> finished k"
  then consider "tstate k = AwaitLock" | sid a r where "tstate k = Running (AwaitResponse sid a r)"
    | d a r where "tstate k = Running (AwaitDelay d a r)"
    by (auto simp: finished_def split: task_state.splits run_state.splits)
  then show "\<exists>e. task_step t e k (world s) \<noteq> None"
  proof cases
    case 1
    then show ?thesis by (intro exI [of _ LockGranted]) (simp add: task_step_def)
  next
    case 2
    then show ?thesis
      by (intro exI [of _ "Response (OtherError Null)"]) (simp add: task_step_def split: prod.splits)
  next
    case 3
    then show ?thesis by (intro exI [of _ DelayOver]) (simp add: task_step_def)
  qed
next
  have "task_ok k"
    using reachable_ok [OF assms(1)] assms(2) by (simp add: system_ok_def)
  then show "task_measure (tstate k') < task_measure (tstate k)"
    if "task_step t e k (world s) = Some (w, k')" for e w k'
    using task_step_keeps [OF that] by simp
  show "task_measure (tstate k) \<le> 16"
    by (cases "tstate k" rule: task_measure.cases) auto
qed

theorem refresh_terminates_witness:
  "\<exists>k e. refreshPromise waiting_system = Some k \<and> task_step sample_tab e k (world waiting_system) \<noteq> None"
proof -
  have "case refreshPromise waiting_system of None \<Rightarrow> False | Some k \<Rightarrow> \<not> finished k"
    by code_simp
  then obtain k where k: "refreshPromise waiting_system = Some k" and nf: "\<not> finished k"
    by (auto split: option.splits)
  from refresh_terminates [OF waiting_reachable k, of sample_tab] nf k show ?thesis
    by blast
qed

text \<open>The outcome of a refresh tells the state of the store at the moment it settles: after
  \<open>authenticated\<close> the store holds exactly the bundle received; after \<open>anonymous\<close> and \<open>out_of_sync\<close>
  it holds no user, token or session; a transient error leaves user, token, expiry and session as they
  were.\<close>

lemma refresh_outcome_state:
  assumes "task_step t e k w = Some (w', k')" and "tstate k' = Running (Settled outcome)"
  shows "case outcome of
      Authenticated b \<Rightarrow> isAuthBundle b \<and> auth w' = setBundle b (auth w)
    | Anonymous \<Rightarrow> auth w' = reset_auth BootComplete (auth w)
    | OutOfSync code \<Rightarrow> auth w' = reset_auth BootComplete (auth w)
    | TransientError f \<Rightarrow> \<exists>b. auth w' = setBootstrapState b (auth w)"
  using assms(1)
proof (cases rule: task_step_cases)
  case granted
  with assms(2) show ?thesis
    by (auto simp: run_cases setBootstrapState_def intro!: exI [of _ "bootstrapState (auth w)"] split: if_splits)
next
  case (delay d a r)
  with assms(2) show ?thesis
    by (auto simp: run_cases setBootstrapState_def intro!: exI [of _ "bootstrapState (auth w)"] split: if_splits)
next
  case (response sid a r p st)
  have "auth w = setBootstrapState (bootstrapState (auth w)) (auth w)"
    by (simp add: setBootstrapState_def)
  with response(2) show ?thesis
    by (cases rule: on_response_cases) (use response(3) assms(2) in auto)
qed (use assms(2) in auto)

lemma task_step_switch:
  assumes "task_step t e k w = Some (w', k')" and "auth_ok (auth w)" and "current_sid w = Str x"
    and "current_sid w' = Str y" and "x \<noteq> y" and "authCache w = Some c"
  shows "c \<in> set (drop (length (cleared w)) (cleared w'))"
  using assms(1)
proof (cases rule: task_step_cases)
  case (response sid a r p st)
  from response(2) show ?thesis
  proof (cases rule: on_response_cases)
    case (accepted b)
    with apply_bundle.switch_clears [OF accepted(2) assms(2,3) _ assms(5,6)] assms(4) show ?thesis
      by blast
  qed (use assms(3-5) in \<open>auto simp: current_sid_def setBootstrapState_def\<close>)
qed (use assms(3-5) in auto)

text \<open>C35: When one step of the client replaces a session by a different one, the step also clears the
  bound query cache, so that the new session does not see the answers of the old one.\<close>

theorem session_switch_clears_cache:
  assumes "reachable s" and "auth_step s s'" and "current_sid (world s) = Str x"
    and "current_sid (world s') = Str y" and "x \<noteq> y" and "authCache (world s) = Some c"
  shows "c \<in> set (drop (length (cleared (world s))) (cleared (world s')))"
proof -
  have ok: "auth_ok (auth (world s))"
    using reachable_ok [OF assms(1)] by (simp add: system_ok_def)
  from assms(2) show ?thesis
  proof (cases rule: auth_step.cases)
    case (action t a w)
    with perform_switch [OF action(2) ok assms(3) _ assms(5,6)] assms(4) show ?thesis
      by simp
  next
    case (task k t e w k')
    with task_step_switch [OF task(3) ok assms(3) _ assms(5,6)] assms(4) show ?thesis
      by simp
  qed (use assms(3-5) in \<open>auto simp: refreshAuthentication_def Let_def split: option.splits\<close>)
qed

theorem session_switch_clears_cache_witness:
  "\<exists>s'. exec_event sample_tab (Perform (ApplyBundle (sample_bundle ''B'' ''tokB'' 2) True)) waiting_system = Some s' \<and>
     7 \<in> set (drop (length (cleared (world waiting_system))) (cleared (world s')))"
proof -
  let ?e = "Perform (ApplyBundle (sample_bundle ''B'' ''tokB'' 2) True)"
  have "case exec_event sample_tab ?e waiting_system of None \<Rightarrow> False
    | Some s' \<Rightarrow> current_sid (world s') = Str (js ''B'')"
    by code_simp
  then obtain s' where s': "exec_event sample_tab ?e waiting_system = Some s'"
      and y: "current_sid (world s') = Str (js ''B'')"
    by (auto split: option.splits)
  have x: "current_sid (world waiting_system) = Str (js ''A'')" and c: "authCache (world waiting_system) = Some 7"
    by code_simp+
  from session_switch_clears_cache [OF waiting_reachable exec_event_step [OF s'] x y _ c] s' show ?thesis
    by simp
qed



text \<open>A message that one tab publishes on the channel is delivered to every other tab whose clock is
  less than a minute away, and never to the tab itself.\<close>

lemma published_events_are_delivered:
  assumes "hasWindow t" and "hasChannel t" and "hasWindow t'" and "hasChannel t'" and "sid \<noteq> []"
    and "num_lt (num_abs (num_sub (clock t') (clock t))) (Num 60000)"
  shows "concat (map (\<lambda>m. case receive t' m of Some v \<Rightarrow> [v] | None \<Rightarrow> [])
      (publishAuthSessionEvent t k (Str sid))) =
    (if authSyncSource t' = authSyncSource t then [] else [sync_event t k (Str sid)])"
proof -
  have "isAuthSessionSyncEvent (sync_event t k (Str sid))"
    using assms(5)
    by (cases k) (simp_all add: isAuthSessionSyncEvent_def sync_event_def is_object_def kind_name_def str_of_def)
  moreover have "get_prop (sync_event t k (Str sid)) (js ''source'') = Str (authSyncSource t)"
      and "num_of (get_prop (sync_event t k (Str sid)) (js ''timestamp'')) = clock t"
    by (simp_all add: sync_event_def num_of_def)
  ultimately show ?thesis
    using assms by (simp add: publishAuthSessionEvent_def receive_def deliver_def)
qed

end
