(* ===== verification/AuthClient.thy ===== *)
theory AuthClient
  imports AuthRefresh
begin

text \<open>
  The users of the authentication session: the headers of \<open>src/apps/web/src/lib/auth-session.ts\<close>, the
  HTTP client with its interceptors and shared \<open>GET\<close> requests (\<open>src/apps/web/src/lib/http-client.ts\<close>),
  the choice of an error message (\<open>src/apps/web/src/lib/server-error-message.ts\<close>), signing out
  (\<open>executeLogout\<close> of \<open>src/apps/web/src/features/auth/api.ts\<close>) and the reaction to other tabs
  (\<open>src/apps/web/src/routes/__root.tsx\<close>).

  The wait for \<open>refreshAuthentication\<close> splits a function in two: the part before it, and the part after
  it, which is given the outcome and the store as it is by then. Toasts and navigation are effects in
  the order they happen; a translated message is named by its key.
\<close>

section \<open>Headers\<close>

definition seconds :: "number \<Rightarrow> number" where
  "seconds ms = num_floor (num_div ms (Num 1000))"

definition bearer :: "jsval \<Rightarrow> jsstr" where
  "bearer token = js ''Bearer '' @ str_of token"

definition getCommonHeaders :: "auth \<Rightarrow> (jsstr \<times> jsstr) list" where
  "getCommonHeaders a =
     [(js ''Content-Type'', js ''application/json'')] @
     (if truthy_val (accessToken a) then [(js ''Authorization'', bearer (accessToken a))] else [])"

text \<open>A token that is there and does not expire before \<open>t\<close>.\<close>

definition usable_until :: "number \<Rightarrow> auth \<Rightarrow> bool" where
  "usable_until t a \<longleftrightarrow>
     truthy_val (accessToken a) \<and> truthy_val (accessExpiresAt a) \<and> num_gt (num_of (accessExpiresAt a)) t"

text \<open>\<open>getFreshAuthHeaders\<close>: \<open>None\<close> when it awaits the refresh.\<close>

definition fresh_headers_before :: "number \<Rightarrow> auth \<Rightarrow> (jsstr \<times> jsstr) list option" where
  "fresh_headers_before now a =
     (if usable_until (num_add (seconds now) (Num 60)) a then Some (getCommonHeaders a) else None)"

datatype client_error = RequestFailed refresh_failure | SessionExpired

definition fresh_headers_after ::
  "refresh_outcome \<Rightarrow> number \<Rightarrow> auth \<Rightarrow> client_error + (jsstr \<times> jsstr) list" where
  "fresh_headers_after outcome now a =
     (case outcome of
        Authenticated b \<Rightarrow> Inr (getCommonHeaders a)
      | TransientError f \<Rightarrow>
          if usable_until (seconds now) a then Inr (getCommonHeaders a) else Inl (RequestFailed f)
      | _ \<Rightarrow> if usable_until (seconds now) a then Inr (getCommonHeaders a) else Inl SessionExpired)"

section \<open>Shared requests\<close>

text \<open>The pending \<open>GET\<close> requests by key; a promise is a number.\<close>

definition request_key :: "jsval \<Rightarrow> jsstr \<Rightarrow> jsstr \<Rightarrow> jsstr" where
  "request_key sid url params =
     (if truthy_val sid then str_of sid else js ''anonymous'') @ [58] @ url @ [63] @ params"

definition shared_get ::
  "bool \<Rightarrow> jsval \<Rightarrow> jsstr \<Rightarrow> jsstr \<Rightarrow> nat \<Rightarrow> (jsstr \<times> nat) list \<Rightarrow> nat \<times> (jsstr \<times> nat) list" where
  "shared_get disableDuplicate sid url params fresh pending =
     (if disableDuplicate then (fresh, pending)
      else case map_of pending (request_key sid url params) of
        Some promise \<Rightarrow> (promise, pending)
      | None \<Rightarrow> (fresh, map_put (request_key sid url params) fresh pending))"

definition get_settled :: "jsstr \<Rightarrow> (jsstr \<times> nat) list \<Rightarrow> (jsstr \<times> nat) list" where
  "get_settled key pending = map_del key pending"

section \<open>Error messages\<close>

definition serverErrorMessageKeys :: "jsstr list" where
  "serverErrorMessageKeys =
     [js ''AUTH_SESSION_LIMIT'', js ''AUTH_SESSION_ISSUANCE_LIMIT'', js ''AUTH_USER_DISABLED'',
      js ''DEVELOPER_ACCESS_AI_CONFIRMATION_INVALID'', js ''DEVELOPER_ACCESS_AI_CONFIRMATION_MISMATCH'',
      js ''SUBSCRIPTION_PLAN_PAYMENT_METHOD_REQUIRED'', js ''TELEGRAM_BIND_DISABLED'',
      js ''TELEGRAM_BIND_INVALID_REQUEST'', js ''TELEGRAM_BIND_FLOW_INVALID'',
      js ''TELEGRAM_BIND_SESSION_INVALID'', js ''TELEGRAM_BIND_ALREADY_BOUND'',
      js ''TELEGRAM_BIND_USER_DELETED'', js ''TELEGRAM_BIND_USER_DISABLED'',
      js ''TELEGRAM_BIND_INTERNAL_ERROR'']"

definition serverErrorPayload :: "jsval \<Rightarrow> jsval option" where
  "serverErrorPayload value =
     (if \<not> isRecord value then None
      else let response = get_prop value (js ''response'')
           in if isRecord response \<and> isRecord (get_prop response (js ''data''))
              then Some (get_prop response (js ''data'')) else Some value)"

definition getServerErrorMessageKey :: "jsval \<Rightarrow> jsstr option" where
  "getServerErrorMessageKey value =
     (case serverErrorPayload value of None \<Rightarrow> None
      | Some payload \<Rightarrow>
          (case get_prop payload (js ''code'') of
             Str code \<Rightarrow> if code \<in> set serverErrorMessageKeys then Some code else None
           | _ \<Rightarrow> None))"

section \<open>The interceptors\<close>

record request_config =
  skipBusinessError :: bool
  skipErrorHandler :: bool
  skipAuthRefresh :: bool
  authRetry :: bool
  acceptAuthRotation :: bool
  authorization :: "jsstr option"

datatype effect = ToastExpired | ToastKey jsstr | ToastText jsval | ToastFailed | GoToSignIn

definition redirectToSignIn :: "jsstr \<Rightarrow> effect list" where
  "redirectToSignIn pathname = (if pathname \<noteq> js ''/sign-in'' then [GoToSignIn] else [])"

definition failure_toast :: "jsstr option \<Rightarrow> jsval list \<Rightarrow> effect" where
  "failure_toast key texts =
     (case key of Some k \<Rightarrow> ToastKey k
      | None \<Rightarrow> (case filter truthy_val texts of [] \<Rightarrow> ToastFailed | v # _ \<Rightarrow> ToastText v))"

text \<open>A response that was not an error.\<close>

definition on_success :: "tab \<Rightarrow> request_config \<Rightarrow> jsval \<Rightarrow> auth_world \<Rightarrow> auth_world \<times> effect list" where
  "on_success t config body w =
     (let (w1, e1) =
        (if acceptAuthRotation config \<and> get_prop body (js ''success'') = Bool True
         then (case applyAuthRotation t (get_prop body (js ''data'')) w of
                 Inr w' \<Rightarrow> (w', [])
               | Inl _ \<Rightarrow> (clearAuthentication t True BootComplete w, [ToastExpired]))
         else (w, []))
      in (w1, e1 @ (if \<not> skipBusinessError config \<and> get_prop body (js ''success'') = Bool False
                    then [failure_toast (getServerErrorMessageKey body) [get_prop body (js ''message'')]]
                    else [])))"

definition needsRefresh :: "request_config \<Rightarrow> number \<Rightarrow> auth \<Rightarrow> bool" where
  "needsRefresh config now a \<longleftrightarrow>
     \<not> skipAuthRefresh config \<and> truthy_val (user a) \<and> truthy_val (session a) \<and>
     (\<not> truthy_val (accessToken a) \<or> \<not> truthy_val (accessExpiresAt a) \<or>
      num_le (num_of (accessExpiresAt a)) (num_add (seconds now) (Num 60)))"

definition authorize :: "auth \<Rightarrow> request_config \<Rightarrow> request_config" where
  "authorize a config =
     (if truthy_val (accessToken a) then config\<lparr>authorization := Some (bearer (accessToken a))\<rparr> else config)"

text \<open>The request interceptor before the refresh (\<open>None\<close> when it awaits it) and after it.\<close>

definition prepare_before :: "request_config \<Rightarrow> number \<Rightarrow> auth \<Rightarrow> request_config option" where
  "prepare_before config now a = (if needsRefresh config now a then None else Some (authorize a config))"

definition prepare_after ::
  "jsstr \<Rightarrow> request_config \<Rightarrow> refresh_outcome \<Rightarrow> number \<Rightarrow> auth \<Rightarrow> effect list \<times> (client_error + request_config)" where
  "prepare_after path config outcome now a =
     (case outcome of
        Anonymous \<Rightarrow> (redirectToSignIn path, Inl SessionExpired)
      | OutOfSync code \<Rightarrow> (redirectToSignIn path, Inl SessionExpired)
      | TransientError f \<Rightarrow>
          if \<not> truthy_val (accessToken a) \<or> \<not> truthy_val (accessExpiresAt a) \<or>
             num_le (num_of (accessExpiresAt a)) (seconds now)
          then ([], Inl (RequestFailed f)) else ([], Inr (authorize a config))
      | Authenticated b \<Rightarrow> ([], Inr (authorize a config)))"

text \<open>
  The response interceptor on an error with a configuration. Its refresh is awaited exactly when
  \<open>retry_wanted\<close>; \<open>failed_after\<close> is what follows, with the configuration to send again if any.
\<close>

definition retry_wanted :: "request_config \<Rightarrow> number \<Rightarrow> bool" where
  "retry_wanted config st \<longleftrightarrow> num_eq st (Num 401) \<and> \<not> skipAuthRefresh config \<and> \<not> authRetry config"

definition failed_after ::
  "jsstr \<Rightarrow> request_config \<Rightarrow> refresh_outcome \<Rightarrow> auth \<Rightarrow> effect list \<times> request_config option" where
  "failed_after path config outcome a =
     (let config' = config\<lparr>authRetry := True\<rparr>;
          expired = (if skipErrorHandler config then [] else [ToastExpired]) @ redirectToSignIn path
      in case outcome of
           Authenticated b \<Rightarrow>
             ([], Some (if truthy_val (accessToken a)
                        then config'\<lparr>authorization := Some (bearer (accessToken a))\<rparr> else config'))
         | Anonymous \<Rightarrow> (expired, None)
         | OutOfSync code \<Rightarrow> (expired, None)
         | TransientError f \<Rightarrow> ([], None))"

definition failed_now ::
  "tab \<Rightarrow> jsstr \<Rightarrow> request_config \<Rightarrow> number \<Rightarrow> jsval \<Rightarrow> auth_world \<Rightarrow> auth_world \<times> effect list" where
  "failed_now t path config st error w =
     (if num_eq st (Num 401) then
        (if authRetry config then
           (clearAuthentication t False BootComplete w,
            (if skipErrorHandler config then [] else [ToastExpired]) @ redirectToSignIn path)
         else (w, if skipErrorHandler config then [] else [ToastExpired]))
      else (w, if skipErrorHandler config then []
               else [failure_toast (getServerErrorMessageKey error)
                       [get_prop (get_prop (get_prop error (js ''response'')) (js ''data'')) (js ''message''),
                        get_prop error (js ''message'')]]))"

text \<open>
  A request with its retries: \<open>answers\<close> are the answers of the server to each sending, with the outcome
  of the refresh the answer leads to and the store after it. The result is the number of sendings.
\<close>

fun sendings :: "jsstr \<Rightarrow> request_config \<Rightarrow> (number \<times> refresh_outcome \<times> auth) list \<Rightarrow> nat" where
  "sendings path config [] = 0"
| "sendings path config ((st, outcome, a) # answers) =
     (if retry_wanted config st
      then (case snd (failed_after path config outcome a) of
              Some config' \<Rightarrow> Suc (sendings path config' answers) | None \<Rightarrow> 1)
      else 1)"

section \<open>Signing out\<close>

datatype logout_reply =
    Replied jsval
  | Failed bool jsval jsval jsval \<comment> \<open>an error of the HTTP library?, its status and code, the error\<close>

datatype logout_state = LoggedOut jsval | LogoutError jsval | AwaitRefresh jsval

definition already_out :: jsval where
  "already_out = Obj [(js ''success'', Bool True), (js ''message'', Str [])]"

text \<open>One request of \<open>executeLogout\<close>, and the whole of it.\<close>

definition logout_attempt :: "bool \<Rightarrow> logout_reply \<Rightarrow> logout_state" where
  "logout_attempt allowMismatchRecovery reply =
     (case reply of
        Replied r \<Rightarrow> LoggedOut r
      | Failed http st code e \<Rightarrow>
          if http \<and> (st = Number (Num 401) \<or> st = Number (Num 404)) then LoggedOut already_out
          else if allowMismatchRecovery \<and> http \<and> st = Number (Num 409) \<and>
                  code = Str (js ''AUTH_SESSION_MISMATCH'') then AwaitRefresh e
          else LogoutError e)"

definition executeLogout :: "logout_reply \<Rightarrow> refresh_outcome \<Rightarrow> logout_reply \<Rightarrow> jsval + jsval" where
  "executeLogout first outcome second =
     (case logout_attempt True first of
        LoggedOut r \<Rightarrow> Inr r
      | LogoutError e \<Rightarrow> Inl e
      | AwaitRefresh e \<Rightarrow>
          (case outcome of
             Authenticated b \<Rightarrow>
               (case logout_attempt False second of
                  LoggedOut r \<Rightarrow> Inr r | LogoutError e' \<Rightarrow> Inl e' | AwaitRefresh e' \<Rightarrow> Inl e')
           | Anonymous \<Rightarrow> Inr already_out
           | _ \<Rightarrow> Inl e))"

section \<open>Other tabs\<close>

datatype navigation = Stay | Reload | NavigateSignIn

definition on_session_event :: "tab \<Rightarrow> jsval \<Rightarrow> auth_world \<Rightarrow> auth_world \<times> navigation" where
  "on_session_event t event w =
     (let currentSID = current_sid w; sid = get_prop event (js ''sid'')
      in if get_prop event (js ''kind'') = Str (js ''authenticated'') then
           (if sid = currentSID then (w, Stay)
            else (if truthy_val currentSID then clearAuthentication t False BootComplete w else w, Reload))
         else if truthy_val currentSID \<and> sid = currentSID
              then (clearAuthentication t False BootComplete w, NavigateSignIn)
              else (w, Stay))"

section \<open>Properties\<close>

lemma not_num_le_finite: "is_finite x \<Longrightarrow> is_finite y \<Longrightarrow> \<not> num_le x y \<longleftrightarrow> num_gt x y"
  by (auto simp: num_gt_def num_le_finite num_lt_finite)


definition sample_auth :: auth where
  "sample_auth = setBundle (sample_bundle ''A'' ''tokA'' 1) initial_auth"

definition sample_config :: request_config where
  "sample_config = \<lparr>skipBusinessError = False, skipErrorHandler = False, skipAuthRefresh = False,
     authRetry = False, acceptAuthRotation = False, authorization = None\<rparr>"

lemma sample_auth_ok: "auth_ok sample_auth"
proof -
  have "isAuthBundle (sample_bundle ''A'' ''tokA'' 1)"
    by code_simp
  then show ?thesis
    by (simp add: sample_auth_def setBundle_ok)
qed


lemma sendings_retried: "authRetry config \<Longrightarrow> sendings path config answers \<le> 1"
  by (cases answers) (auto simp: retry_wanted_def)

text \<open>A request is sent at most twice, whatever the server answers and whatever the refreshes
  bring: the configuration of a retry is marked and a marked one is not retried.\<close>

lemma request_sent_at_most_twice: "sendings path config answers \<le> 2"
proof (cases answers)
  case (Cons x rest)
  obtain st outcome a where "x = (st, outcome, a)"
    by (cases x)
  then show ?thesis
    using Cons sendings_retried [of _ path rest]
    by (auto simp: failed_after_def Let_def split: refresh_outcome.splits)
qed simp

text \<open>A \<open>GET\<close> request is shared only within a session: session identifiers without a colon that
  give the same key are the same, so no tab receives the answer to a request of another session.\<close>

lemma shared_requests_stay_in_session:
  assumes "request_key (Str x) url params = request_key (Str y) url' params'"
    and "x \<noteq> []" and "y \<noteq> []" and "58 \<notin> set x" and "58 \<notin> set y"
  shows "x = y \<and> url @ [63] @ params = url' @ [63] @ params'"
proof -
  have "takeWhile (\<lambda>c. c \<noteq> 58) (request_key (Str z) u p) = z" if "z \<noteq> []" "58 \<notin> set z" for z u p
    using that by (auto simp: request_key_def str_of_def takeWhile_append)
  then have "x = y"
    using assms by metis
  with assms(1) show ?thesis
    using assms(2) by (simp add: request_key_def str_of_def)
qed

text \<open>What another tab announces is applied once: after a sign-out of the current session or a
  sign-in of another one the store holds no session, and every other message leaves it alone. No
  message is sent in reply, so tabs cannot keep each other busy.\<close>

lemma session_event_effect:
  assumes "on_session_event t event w = (w', nav)"
  shows "outbox w' = outbox w \<and> (w' = w \<or> session (auth w') = Null \<and> nav \<noteq> Stay)"
  using assms
  by (auto simp: on_session_event_def Let_def clearAuthentication_def on_auth_def bump_epoch_def clear_cache_def
      reset_auth_def split: if_splits option.splits)

end
