(* ===== verification/NumberText.thy ===== *)
theory NumberText
  imports JsNumber
begin

text \<open>
  Printing and reading numbers: the text \<open>String(x)\<close> of a finite number is read back by \<open>Number\<close> as the
  same number. Seventeen decimal digits are enough for every binary64 value, so the search of
  \<open>shortest\<close> always succeeds.
\<close>

section \<open>Digits\<close>

lemma digits_val_snoc: "digits_val (ds @ [c]) = 10 * digits_val ds + (c - 48)"
  by (simp add: digits_val_def)

lemma digits_val_Nil [simp]: "digits_val [] = 0"
  by (simp add: digits_val_def)

lemma int_digits_facts:
  "0 \<le> n \<Longrightarrow> digits_val (int_digits n) = n \<and> list_all is_digit (int_digits n) \<and> int_digits n \<noteq> []"
proof (induction n rule: int_digits.induct)
  case (1 n)
  show ?case
  proof (cases "n < 10")
    case True
    with 1 show ?thesis
      by (simp add: int_digits.simps [of n] digits_val_def is_digit_def)
  next
    case False
    with 1 have "digits_val (int_digits (n div 10)) = n div 10" "list_all is_digit (int_digits (n div 10))"
      by (simp_all add: pos_imp_zdiv_nonneg_iff)
    moreover have "is_digit (48 + n mod 10)"
      using pos_mod_bound [of 10 n] pos_mod_sign [of 10 n] by (simp add: is_digit_def)
    ultimately show ?thesis
      using False by (simp add: int_digits.simps [of n] digits_val_snoc)
  qed
qed

lemma digits_val_digits [simp]: "0 \<le> n \<Longrightarrow> digits_val (int_digits n) = n"
  by (simp add: int_digits_facts)

lemma int_digits_not_Nil [simp]: "int_digits n \<noteq> []"
  by (subst int_digits.simps) simp

lemma length_int_digits_pos: "0 < length (int_digits n)"
  by simp

lemma int_digits_bounds:
  "0 < n \<Longrightarrow> 10 ^ (length (int_digits n) - 1) \<le> n \<and> n < 10 ^ length (int_digits n)"
proof (induction n rule: int_digits.induct)
  case (1 n)
  show ?case
  proof (cases "n < 10")
    case True
    with 1 show ?thesis by (simp add: int_digits.simps [of n])
  next
    case False
    let ?l = "length (int_digits (n div 10))"
    have IH: "10 ^ (?l - 1) \<le> n div 10" "n div 10 < 10 ^ ?l"
      using 1 False by (simp_all add: pos_imp_zdiv_pos_iff)
    have l: "10 ^ ?l = (10 :: int) * 10 ^ (?l - 1)"
      using length_int_digits_pos [of "n div 10"] by (cases ?l) simp_all
    have "length (int_digits n) = Suc ?l" using False by (simp add: int_digits.simps [of n])
    moreover have "10 ^ ?l \<le> n" using IH(1) l by linarith
    moreover have "n < 10 ^ Suc ?l" using IH(2) unfolding power_Suc by linarith
    ultimately show ?thesis by (simp only: diff_Suc_1)
  qed
qed

lemma hd_int_digits: "0 < n \<Longrightarrow> hd (int_digits n) \<noteq> 48"
proof (induction n rule: int_digits.induct)
  case (1 n)
  then show ?case
    by (cases "n < 10") (simp_all add: int_digits.simps [of n] pos_imp_zdiv_pos_iff)
qed

lemma digits_val_nonneg: "list_all is_digit ds \<Longrightarrow> 0 \<le> digits_val ds"
  by (induction ds rule: rev_induct) (auto simp: digits_val_snoc is_digit_def)

lemma digits_val_zeros: "digits_val (ds @ replicate m 48) = digits_val ds * 10 ^ m"
  by (induction m) (simp_all add: replicate_append_same [symmetric] digits_val_snoc flip: append_assoc)

lemma digits_val_leading_zeros: "digits_val (replicate m 48 @ ds) = digits_val ds"
  by (induction m) (simp_all add: digits_val_def)

lemma list_all_digit_replicate [simp]: "list_all is_digit (replicate m 48)"
  by (simp add: list_all_iff is_digit_def)

section \<open>Powers of ten\<close>

lemma pow10_powi: "pow10 e = 10 powi e"
proof (cases "0 \<le> e")
  case False
  have "Fract 1 (10 ^ nat (- e)) = 1 / 10 ^ nat (- e)" by (simp add: Fract_of_int_quotient)
  with False show ?thesis by (simp add: pow10_def power_int_def inverse_eq_divide power_one_over)
qed (simp add: pow10_def power_int_def)

lemma pow10_pos [simp]: "0 < pow10 e"
  by (simp add: pow10_powi)

lemma pow10_add: "pow10 (a + b) = pow10 a * pow10 b"
  by (simp add: pow10_powi power_int_add)

lemma pow10_nat [simp]: "pow10 (int k) = 10 ^ k"
  by (simp add: pow10_def)

lemma pow10_0 [simp]: "pow10 0 = 1"
  by (simp add: pow10_def)

lemma pow10_cancel [simp]: "pow10 (a - b) * pow10 (b - a) = 1"
  by (simp flip: pow10_add)

lemma pow10_mono: "a \<le> b \<Longrightarrow> pow10 a \<le> pow10 b"
  by (simp add: pow10_powi power_int_increasing)

lemma int_digits_range:
  assumes "0 < n"
  shows "pow10 (int (length (int_digits n)) - 1) \<le> of_int n \<and> of_int n < pow10 (int (length (int_digits n)))"
proof -
  let ?l = "length (int_digits n)"
  have b: "10 ^ (?l - 1) \<le> n" "n < 10 ^ ?l" using int_digits_bounds [OF assms] by simp_all
  have "int ?l - 1 = int (?l - 1)" using length_int_digits_pos [of n] by linarith
  then have "pow10 (int ?l - 1) = of_int (10 ^ (?l - 1))" by (simp only: pow10_nat) simp
  also have "\<dots> \<le> of_int n" using b by (simp only: of_int_le_iff)
  finally have "pow10 (int ?l - 1) \<le> of_int n" .
  moreover have "(of_int n :: rat) < of_int (10 ^ ?l)" using b by (simp only: of_int_less_iff)
  ultimately show ?thesis by simp
qed

lemma dec_exp_bounds:
  assumes "0 < q"
  shows "pow10 (dec_exp q - 1) \<le> q \<and> q < pow10 (dec_exp q)"
proof -
  obtain n d where nd: "quotient_of q = (n, d)" by fastforce
  have d: "0 < d" using nd by (rule quotient_of_denom_pos)
  have q: "q = of_int n / of_int d" using nd by (rule quotient_of_div)
  have n: "0 < n" using assms d by (simp add: q zero_less_divide_iff)
  let ?ln = "length (int_digits n)" and ?ld = "length (int_digits d)"
  let ?a = "int ?ln - int ?ld"
  have rn: "pow10 (int ?ln - 1) \<le> of_int n" "of_int n < pow10 (int ?ln)"
    and rd: "pow10 (int ?ld - 1) \<le> of_int d" "of_int d < pow10 (int ?ld)"
    using int_digits_range n d by simp_all
  have dpos: "(0 :: rat) < of_int d" using d by simp
  have low: "pow10 (?a - 1) \<le> q"
  proof -
    have "pow10 (?a - 1) * of_int d \<le> pow10 (?a - 1) * pow10 (int ?ld)"
      using rd(2) by (intro mult_left_mono) (simp_all add: less_imp_le)
    also have "\<dots> = pow10 (int ?ln - 1)" by (simp flip: pow10_add del: pow10_nat)
    also have "\<dots> \<le> of_int n" by (rule rn)
    finally show ?thesis using dpos by (simp add: q pos_le_divide_eq)
  qed
  have high: "q < pow10 (?a + 1)"
  proof -
    have "of_int n < pow10 (int ?ln)" by (rule rn)
    also have "\<dots> = pow10 (?a + 1) * pow10 (int ?ld - 1)" by (simp flip: pow10_add del: pow10_nat)
    also have "\<dots> \<le> pow10 (?a + 1) * of_int d"
      using rd(1) by (intro mult_left_mono) (simp_all add: less_imp_le)
    finally show ?thesis using dpos by (simp add: q pos_divide_less_eq)
  qed
  have e: "dec_exp q = (if q < pow10 ?a then ?a else ?a + 1)" by (simp add: dec_exp_def nd)
  show ?thesis
  proof (cases "q < pow10 ?a")
    case True
    then have "dec_exp q = ?a" by (simp only: e if_True)
    then show ?thesis using True low by metis
  next
    case False
    then have "dec_exp q = ?a + 1" by (simp only: e if_False)
    then show ?thesis using False high by (metis add_diff_cancel_right' not_less)
  qed
qed

section \<open>The parts of a numeral\<close>

text \<open>The integer part, the fraction with its point and the exponent of a numeral without sign.\<close>

definition number_parts :: "jsstr \<Rightarrow> jsstr \<Rightarrow> jsstr \<Rightarrow> bool" where
  "number_parts ip fr ex \<longleftrightarrow>
     list_all is_digit ip \<and> ip \<noteq> [] \<and> (hd ip = 48 \<longrightarrow> length ip = 1) \<and>
     (fr = [] \<or> (\<exists>fp. fr = 46 # fp \<and> fp \<noteq> [] \<and> list_all is_digit fp)) \<and>
     (ex = [] \<or> (\<exists>sg ds. ex = 101 # sg # ds \<and> (sg = 43 \<or> sg = 45) \<and> ds \<noteq> [] \<and> list_all is_digit ds))"

definition exponent_value :: "jsstr \<Rightarrow> int" where
  "exponent_value ex =
     (case ex of _ # sg # ds \<Rightarrow> (if sg = 45 then - digits_val ds else digits_val ds) | _ \<Rightarrow> 0)"

definition parts_value :: "jsstr \<Rightarrow> jsstr \<Rightarrow> jsstr \<Rightarrow> rat" where
  "parts_value ip fr ex =
     of_int (digits_val (ip @ tl fr)) * pow10 (exponent_value ex - int (length (tl fr)))"

lemma digit_simps [simp]:
  "\<not> is_digit 46" "\<not> is_digit 101" "\<not> is_digit 43" "\<not> is_digit 45" "is_digit 48"
  by (simp_all add: is_digit_def)

lemma takeWhile_digits: "list_all is_digit ds \<Longrightarrow> takeWhile is_digit (ds @ r) = ds @ takeWhile is_digit r"
  by (simp add: list_all_iff)

lemma dropWhile_digits: "list_all is_digit ds \<Longrightarrow> dropWhile is_digit (ds @ r) = dropWhile is_digit r"
  by (simp add: list_all_iff dropWhile_append)

lemma takeWhile_all_digits: "list_all is_digit ds \<Longrightarrow> takeWhile is_digit ds = ds"
  by (simp add: list_all_iff)

lemma dropWhile_all_digits: "list_all is_digit ds \<Longrightarrow> dropWhile is_digit ds = []"
  by (simp add: list_all_iff)

lemmas digit_runs = takeWhile_digits dropWhile_digits takeWhile_all_digits dropWhile_all_digits

lemma number_parts_cases:
  assumes "number_parts ip fr ex"
  obtains (plain) "fr = []" "ex = []"
    | (fraction) fp where "fr = 46 # fp" "fp \<noteq> []" "list_all is_digit fp" "ex = []"
    | (exponent) sg ds where "fr = []" "ex = 101 # sg # ds" "sg = 43 \<or> sg = 45" "ds \<noteq> []" "list_all is_digit ds"
    | (both) fp sg ds where "fr = 46 # fp" "fp \<noteq> []" "list_all is_digit fp"
        "ex = 101 # sg # ds" "sg = 43 \<or> sg = 45" "ds \<noteq> []" "list_all is_digit ds"
  using assms unfolding number_parts_def by blast

lemma decimal_value_parts:
  assumes "number_parts ip fr ex"
  shows "decimal_value (ip @ fr @ ex) = Some (parts_value ip fr ex)"
proof -
  have ip: "list_all is_digit ip" "ip \<noteq> []" using assms by (simp_all add: number_parts_def)
  from assms show ?thesis
    by (cases rule: number_parts_cases)
      (use ip in \<open>auto simp: decimal_value_def decimal_exponent_def parts_value_def exponent_value_def
         digit_runs Let_def\<close>)
qed

lemma number_parts_hd:
  assumes "number_parts ip fr ex"
  shows "is_digit (hd (ip @ fr @ ex))" and "is_digit (last (ip @ fr @ ex))"
    and "ip @ fr @ ex \<noteq> []"
proof -
  have ip: "list_all is_digit ip" "ip \<noteq> []" using assms by (simp_all add: number_parts_def)
  then show "is_digit (hd (ip @ fr @ ex))" "ip @ fr @ ex \<noteq> []" by (cases ip; simp)+
  have "is_digit (last ds)" if "list_all is_digit ds" "ds \<noteq> []" for ds
    using that by (simp add: list_all_iff)
  with assms ip show "is_digit (last (ip @ fr @ ex))"
    by (cases rule: number_parts_cases) auto
qed

lemma number_parts_not_radix:
  assumes "number_parts ip fr ex" and "ip @ fr @ ex = 48 # r" and "r \<noteq> []"
  shows "hd r = 46 \<or> hd r = 101"
proof -
  have ip: "ip \<noteq> []" "hd ip = 48 \<longrightarrow> length ip = 1" using assms(1) by (simp_all add: number_parts_def)
  moreover have "hd ip = 48" using assms(2) ip by (cases ip) simp_all
  ultimately have "r = fr @ ex" using assms(2) by (cases ip) auto
  with assms(1,3) show ?thesis by (cases rule: number_parts_cases) auto
qed

lemma to_number_parts:
  assumes "number_parts ip fr ex"
  shows "to_number (ip @ fr @ ex) = round64 (parts_value ip fr ex)"
proof -
  obtain c r where cr: "ip @ fr @ ex = c # r" using number_parts_hd(3) [OF assms] by (cases "ip @ fr @ ex") auto
  then have c: "is_digit c" using number_parts_hd(1) [OF assms] by simp
  have "trim (ip @ fr @ ex) = ip @ fr @ ex"
    by (rule trim_id) (use number_parts_hd [OF assms] in auto)
  moreover have "unsigned_number (ip @ fr @ ex) = round64 (parts_value ip fr ex)"
    unfolding unsigned_number_def decimal_value_parts [OF assms]
    using c cr by (auto simp: js_eval is_digit_def)
  ultimately show ?thesis
    using number_parts_not_radix [OF assms, of r] c cr by (auto simp: to_number_def Let_def is_digit_def)
qed

lemma to_number_negative_parts:
  assumes "number_parts ip fr ex"
  shows "to_number (45 # ip @ fr @ ex) = num_neg (round64 (parts_value ip fr ex))"
proof -
  obtain c r where cr: "ip @ fr @ ex = c # r" using number_parts_hd(3) [OF assms] by (cases "ip @ fr @ ex") auto
  then have c: "is_digit c" using number_parts_hd(1) [OF assms] by simp
  have minus: "\<not> is_space 45" by (simp add: is_space_def)
  have "trim (45 # ip @ fr @ ex) = 45 # ip @ fr @ ex"
    by (rule trim_id) (use number_parts_hd [OF assms] minus in \<open>simp_all del: append_is_Nil_conv\<close>)
  moreover have "unsigned_number (ip @ fr @ ex) = round64 (parts_value ip fr ex)"
    unfolding unsigned_number_def decimal_value_parts [OF assms]
    using c cr by (auto simp: js_eval is_digit_def)
  ultimately show ?thesis by (simp add: to_number_def)
qed

text \<open>What \<open>format_positive\<close> writes: the significand \<open>s\<close> with the point after the \<open>n\<close>-th digit.\<close>

lemma format_positive_parts:
  assumes "0 < s"
  shows "\<exists>ip fr ex. format_positive s n = ip @ fr @ ex \<and> number_parts ip fr ex \<and>
    parts_value ip fr ex = of_int s * pow10 (n - int (length (int_digits s)))"
proof -
  let ?ds = "int_digits s" let ?k = "int (length (int_digits s))"
  have ds: "list_all is_digit ?ds" "digits_val ?ds = s" "hd ?ds \<noteq> 48"
    using assms int_digits_facts [of s] hd_int_digits [of s] by simp_all
  consider (int) "?k \<le> n" "n \<le> 21" | (point) "\<not> ?k \<le> n" "0 < n" "n \<le> 21"
    | (small) "- 6 < n" "n \<le> 0" | (exp1) "n > 21 \<or> n \<le> - 6" "?k = 1" | (exp) "n > 21 \<or> n \<le> - 6" "?k > 1"
    using length_int_digits_pos [of s] by linarith
  then show ?thesis
  proof cases
    case int
    have "format_positive s n = (?ds @ replicate (nat (n - ?k)) 48) @ [] @ []"
      using int by (simp add: format_positive_def Let_def)
    moreover have "number_parts (?ds @ replicate (nat (n - ?k)) 48) [] []"
      using ds by (simp add: number_parts_def)
    moreover have "parts_value (?ds @ replicate (nat (n - ?k)) 48) [] [] = of_int s * pow10 (n - ?k)"
      using int ds by (simp add: parts_value_def exponent_value_def digits_val_zeros pow10_def)
    ultimately show ?thesis by blast
  next
    case point
    let ?ip = "take (nat n) ?ds" and ?fp = "drop (nat n) ?ds"
    have "format_positive s n = ?ip @ (46 # ?fp) @ []"
      using point by (simp add: format_positive_def Let_def)
    moreover have "number_parts ?ip (46 # ?fp) []"
      using point ds by (auto simp: number_parts_def list_all_iff dest: in_set_takeD in_set_dropD)
    moreover have "parts_value ?ip (46 # ?fp) [] = of_int s * pow10 (n - ?k)"
      using point ds by (simp add: parts_value_def exponent_value_def)
    ultimately show ?thesis by blast
  next
    case small
    let ?fp = "replicate (nat (- n)) 48 @ ?ds"
    have "format_positive s n = [48] @ (46 # ?fp) @ []"
    proof -
      have "\<not> ?k \<le> n" using small length_int_digits_pos [of s] by linarith
      with small show ?thesis by (simp add: format_positive_def Let_def)
    qed
    moreover have "number_parts [48] (46 # ?fp) []"
      using ds by (simp add: number_parts_def)
    moreover have "parts_value [48] (46 # ?fp) [] = of_int s * pow10 (n - ?k)"
      using small ds digits_val_leading_zeros [of "Suc (nat (- n))" ?ds]
      by (simp add: parts_value_def exponent_value_def)
    ultimately show ?thesis by blast
  next
    case exp1
    let ?ex = "101 # (if n - 1 < 0 then 45 else 43) # int_digits \<bar>n - 1\<bar>"
    have "format_positive s n = ?ds @ [] @ ?ex"
      using exp1 by (auto simp: format_positive_def Let_def)
    moreover have "number_parts ?ds [] ?ex"
      using ds int_digits_facts [of "\<bar>n - 1\<bar>"] by (simp add: number_parts_def)
    moreover have "parts_value ?ds [] ?ex = of_int s * pow10 (n - ?k)"
      using exp1 ds by (simp add: parts_value_def exponent_value_def)
    ultimately show ?thesis by blast
  next
    case exp
    let ?ex = "101 # (if n - 1 < 0 then 45 else 43) # int_digits \<bar>n - 1\<bar>"
    have "format_positive s n = take 1 ?ds @ (46 # drop 1 ?ds) @ ?ex"
      using exp by (auto simp: format_positive_def Let_def)
    moreover have "number_parts (take 1 ?ds) (46 # drop 1 ?ds) ?ex"
      using exp ds int_digits_facts [of "\<bar>n - 1\<bar>"]
      by (auto simp: number_parts_def list_all_iff dest: in_set_takeD in_set_dropD)
    moreover have "parts_value (take 1 ?ds) (46 # drop 1 ?ds) ?ex = of_int s * pow10 (n - ?k)"
      using exp ds by (simp add: parts_value_def exponent_value_def)
    ultimately show ?thesis by blast
  qed
qed

section \<open>Rounding near a number\<close>

lemma scale2_powi: "scale2 m u = of_int m * 2 powi u"
proof (cases "0 \<le> u")
  case False
  have "Fract m (2 ^ nat (- u)) = of_int m / 2 ^ nat (- u)" by (simp add: Fract_of_int_quotient)
  with False show ?thesis by (simp add: scale2_def power_int_def inverse_eq_divide power_one_over)
qed (simp add: scale2_def power_int_def)

lemma pow2_diff: "(2 :: rat) powi (int a - int b) = 2 ^ a / 2 ^ b"
  by (simp add: power_int_diff)

lemma binexp_test:
  assumes "0 < d"
  shows "(if 0 \<le> k then d * 2 ^ nat k \<le> n else d \<le> n * 2 ^ nat (- k)) \<longleftrightarrow>
    2 powi k \<le> (of_int n / of_int d :: rat)"
proof (cases "0 \<le> k")
  case True
  have "(2 powi k \<le> (of_int n / of_int d :: rat)) \<longleftrightarrow> (of_int (d * 2 ^ nat k) \<le> (of_int n :: rat))"
    using assms True by (simp add: pos_le_divide_eq power_int_def mult.commute)
  also have "\<dots> \<longleftrightarrow> d * 2 ^ nat k \<le> n" by (simp only: of_int_le_iff)
  finally show ?thesis using True by simp
next
  case False
  have "(2 powi k \<le> (of_int n / of_int d :: rat)) \<longleftrightarrow> (of_int d \<le> (of_int (n * 2 ^ nat (- k)) :: rat))"
    using assms False by (simp add: pos_le_divide_eq power_int_def field_simps)
  also have "\<dots> \<longleftrightarrow> d \<le> n * 2 ^ nat (- k)" by (simp only: of_int_le_iff)
  finally show ?thesis using False by simp
qed

lemma binexp_bounds:
  assumes "0 < n" and "0 < d"
  shows "2 powi binexp n d \<le> (of_int n / of_int d :: rat)"
    and "(of_int n / of_int d :: rat) < 2 powi (binexp n d + 1)"
proof -
  let ?a = "ilog2 n" and ?b = "ilog2 d" let ?x = "of_int n / of_int d :: rat"
  let ?k = "int ?a - int ?b"
  have d: "(0 :: rat) < of_int d" using assms by simp
  have bounds: "(of_int (2 ^ ?a) :: rat) \<le> of_int n" "(of_int n :: rat) < of_int (2 ^ Suc ?a)"
    "(of_int (2 ^ ?b) :: rat) \<le> of_int d" "(of_int d :: rat) < of_int (2 ^ Suc ?b)"
    using ilog2_bounds [OF assms(1)] ilog2_bounds [OF assms(2)] by (simp_all only: of_int_le_iff of_int_less_iff)
  have up: "?x < 2 powi (?k + 1)"
  proof -
    have "of_int n < (2 ^ Suc ?a :: rat)" using bounds(2) by simp
    also have "\<dots> = (2 ^ Suc ?a / 2 ^ ?b) * 2 ^ ?b" by simp
    also have "\<dots> \<le> (2 ^ Suc ?a / 2 ^ ?b) * of_int d" using bounds(3) by (intro mult_left_mono) simp_all
    finally have "?x < 2 ^ Suc ?a / 2 ^ ?b" using d by (simp add: pos_divide_less_eq)
    moreover have "(2 :: rat) powi (?k + 1) = 2 ^ Suc ?a / 2 ^ ?b"
      using pow2_diff [of "Suc ?a" ?b] by (simp add: algebra_simps)
    ultimately show ?thesis by (simp only:)
  qed
  have low: "2 powi (?k - 1) \<le> ?x"
  proof -
    have "(2 ^ ?a / 2 ^ Suc ?b) * of_int d \<le> (2 ^ ?a / 2 ^ Suc ?b) * (2 ^ Suc ?b :: rat)"
      using bounds(4) by (intro mult_left_mono) (simp_all add: less_imp_le)
    also have "\<dots> = 2 ^ ?a" by simp
    also have "\<dots> \<le> of_int n" using bounds(1) by simp
    finally have "2 ^ ?a / 2 ^ Suc ?b \<le> ?x" using d by (simp add: pos_le_divide_eq)
    moreover have "(2 :: rat) powi (?k - 1) = 2 ^ ?a / 2 ^ Suc ?b"
      using pow2_diff [of ?a "Suc ?b"] by (simp add: algebra_simps)
    ultimately show ?thesis by (simp only:)
  qed
  have e: "binexp n d = (if 2 powi ?k \<le> ?x then ?k else ?k - 1)"
    unfolding binexp_def Let_def binexp_test [OF assms(2), of ?k n] ..
  show "2 powi binexp n d \<le> ?x"
  proof (cases "2 powi ?k \<le> ?x")
    case True
    then have "binexp n d = ?k" by (simp only: e if_True)
    with True show ?thesis by (simp only:)
  next
    case False
    then have "binexp n d = ?k - 1" by (simp only: e if_False)
    with low show ?thesis by (simp only:)
  qed
  show "?x < 2 powi (binexp n d + 1)"
  proof (cases "2 powi ?k \<le> ?x")
    case True
    then have "binexp n d = ?k" by (simp only: e if_True)
    with up show ?thesis by (simp only:)
  next
    case False
    then have "binexp n d + 1 = ?k" by (simp only: e if_False diff_add_cancel)
    with False show ?thesis by (simp only: not_le)
  qed
qed

lemma round_div_near:
  assumes "0 < d" and near: "\<bar>(of_int n / of_int d :: rat) - of_int j\<bar> < 1 / 2"
  shows "round_div n d = j"
proof -
  have d: "(0 :: rat) < of_int d" using assms by simp
  have "(of_int n / of_int d :: rat) - of_int j = of_int (n - j * d) / of_int d"
    using d by (simp add: diff_divide_distrib)
  then have "\<bar>of_int (n - j * d) / of_int d\<bar> < (1 / 2 :: rat)" using near by (simp only:)
  then have "(of_int \<bar>n - j * d\<bar> :: rat) / of_int d < 1 / 2"
    using d by (simp only: abs_divide of_int_abs abs_of_pos)
  then have "(of_int \<bar>n - j * d\<bar> :: rat) < 1 / 2 * of_int d"
    using d by (simp only: pos_divide_less_eq)
  then have "(of_int (2 * \<bar>n - j * d\<bar>) :: rat) < of_int d" by simp
  then have close: "2 * \<bar>n - j * d\<bar> < d" by (simp only: of_int_less_iff)
  define x where "x = n - j * d"
  have close: "2 * \<bar>x\<bar> < d" using close by (simp only: x_def)
  show ?thesis
  proof (cases "0 \<le> x")
    case True
    have n: "n = d * j + x" by (simp add: x_def algebra_simps)
    have r: "0 \<le> x" "x < d" "2 * x < d" using True close by linarith+
    have "n div d = j" using n r(1,2) by (rule int_div_pos_eq)
    moreover have "n mod d = x" using n r(1,2) by (rule int_mod_pos_eq)
    moreover note r(3)
    ultimately show ?thesis by (simp only: round_div_def Let_def if_True)
  next
    case False
    have n: "n = d * (j - 1) + (x + d)" by (simp add: x_def algebra_simps)
    have r: "0 \<le> x + d" "x + d < d" "- d < 2 * x" using False close by linarith+
    have r': "\<not> 2 * (x + d) < d" "d < 2 * (x + d)" using r(3) assms(1) unfolding distrib_left by linarith+
    have "n div d = j - 1" using n r(1,2) by (rule int_div_pos_eq)
    moreover have "n mod d = x + d" using n r(1,2) by (rule int_mod_pos_eq)
    moreover note r'
    ultimately show ?thesis by (simp only: round_div_def Let_def if_True if_False diff_add_cancel)
  qed
qed

lemma round_pos_near:
  assumes "0 < n" and "0 < d" and u: "u = max (binexp n d - 52) (- 1074)"
    and near: "\<bar>(of_int n / of_int d) / 2 powi u - of_int j\<bar> < (1 / 2 :: rat)"
  shows "round_pos n d = (j, u)"
proof (cases "0 \<le> u")
  case True
  have "(of_int n / of_int d) / 2 powi u = (of_int n / of_int (d * 2 ^ nat u) :: rat)"
    using True by (simp add: power_int_def)
  then have "round_div n (d * 2 ^ nat u) = j"
    using near assms(2) by (intro round_div_near) (simp_all only: zero_less_mult_iff zero_less_power zero_less_numeral simp_thms)
  with True show ?thesis unfolding round_pos_def Let_def u [symmetric] by simp
next
  case False
  have "(of_int n / of_int d) / 2 powi u = (of_int (n * 2 ^ nat (- u)) / of_int d :: rat)"
    using False by (simp add: power_int_def field_simps)
  then have "round_div (n * 2 ^ nat (- u)) d = j"
    using near assms(2) by (intro round_div_near) (simp_all only: zero_less_mult_iff zero_less_power zero_less_numeral simp_thms)
  with False show ?thesis unfolding round_pos_def Let_def u [symmetric] by simp
qed

lemma pow2_mono: "a \<le> b \<Longrightarrow> (2 :: rat) powi a \<le> 2 powi b"
  by (simp add: power_int_increasing)

lemma pow2_less: "(2 :: rat) powi a < 2 powi b \<Longrightarrow> a < b"
  using pow2_mono [of b a] by (meson linorder_not_le)

lemma pow2_shift: "(2 :: rat) powi (int k + u) = 2 ^ k * 2 powi u"
  by (simp add: power_int_add)

lemma rat_pos_quotient:
  assumes "0 < q" and "quotient_of q = (n, d)"
  shows "0 < n" and "0 < d" and "q = of_int n / of_int d"
proof -
  show d: "0 < d" using assms(2) by (rule quotient_of_denom_pos)
  show q: "q = of_int n / of_int d" using assms(2) by (rule quotient_of_div)
  show "0 < n" using assms(1) d by (simp add: q zero_less_divide_iff)
qed

text \<open>A positive binary64 value: an integer significand of at most 53 bits and an exponent.\<close>

lemma binary64_form:
  assumes "0 < q" and "round64 q = Num q" and nd: "quotient_of q = (n, d)"
    and u: "u = max (binexp n d - 52) (- 1074)"
  obtains m where "q = of_int m * 2 powi u" and "0 < m" and "m < 2 ^ 53"
    and "- 1074 < u \<Longrightarrow> 2 ^ 52 \<le> m" and "u \<le> 971"
proof -
  note nd' = rat_pos_quotient [OF assms(1) nd]
  obtain m v where mv: "round_pos n d = (m, v)" by fastforce
  have v: "v = u" using mv by (auto simp: round_pos_def u Let_def)
  have r: "Num q = (if m = 0 then Num 0 else if 971 < u \<or> (u = 971 \<and> 2 ^ 53 \<le> m) then Infin False
      else Num (scale2 m u))"
    using nd'(1) by (simp add: round64_def nd mv v flip: assms(2))
  have m: "m \<noteq> 0" "u \<le> 971" "q = scale2 m u"
    using r assms(1) by (auto split: if_splits)
  have w: "(0 :: rat) < 2 powi u" by simp
  have q: "q = of_int m * 2 powi u" using m(3) by (simp add: scale2_powi)
  have pos: "0 < m" using assms(1) w by (simp add: q zero_less_mult_iff)
  have "of_int m * 2 powi u < (2 :: rat) powi (binexp n d + 1)"
    using binexp_bounds(2) [OF nd'(1,2)] nd'(3) q by (simp only:)
  also have "\<dots> \<le> 2 powi (int 53 + u)" by (rule pow2_mono) (simp add: u)
  also have "\<dots> = 2 ^ 53 * 2 powi u" by (rule pow2_shift)
  finally have "(of_int m :: rat) < 2 ^ 53" using w by (simp only: mult_less_cancel_right_pos)
  then have less: "m < 2 ^ 53" by (metis of_int_less_iff of_int_numeral of_int_power)
  have "2 ^ 52 \<le> m" if "- 1074 < u"
  proof -
    have "binexp n d = int 52 + u" using that u by simp
    then have "2 ^ 52 * 2 powi u \<le> of_int m * (2 :: rat) powi u"
      using binexp_bounds(1) [OF nd'(1,2)] nd'(3) q pow2_shift [of 52 u] by (simp only:)
    then have "(2 :: rat) ^ 52 \<le> of_int m" using w by (simp only: mult_le_cancel_right_pos)
    then show ?thesis by (metis of_int_le_iff of_int_numeral of_int_power)
  qed
  then show ?thesis using that q pos less m(2) by blast
qed

lemma round64_parts:
  assumes "0 < r" and "quotient_of r = (n, d)" and "round_pos n d = (m, u)" and "0 < m"
    and "u < 971 \<or> (u = 971 \<and> m < 2 ^ 53)"
  shows "round64 r = Num (of_int m * 2 powi u)"
  using assms rat_pos_quotient [OF assms(1,2)] by (auto simp: round64_def scale2_powi)

text \<open>A rational so close to a binary64 value is rounded to it.\<close>

lemma round64_near:
  assumes q: "0 < q" "round64 q = Num q" and r: "0 < r" and near: "\<bar>r - q\<bar> \<le> q / (2 * 10 ^ 16)"
  shows "round64 r = Num q"
proof -
  obtain n d where nd: "quotient_of q = (n, d)" by fastforce
  define u where "u = max (binexp n d - 52) (- 1074)"
  obtain m where qm: "q = of_int m * 2 powi u" and m: "0 < m" "m < 2 ^ 53" "- 1074 < u \<Longrightarrow> 2 ^ 52 \<le> m"
    and u971: "u \<le> 971"
    using binary64_form [OF q nd u_def] by blast
  obtain n' d' where nd': "quotient_of r = (n', d')" by fastforce
  note rq = rat_pos_quotient [OF r nd']
  define e' where "e' = binexp n' d'"
  define u' where "u' = max (e' - 52) (- 1074)"
  have er: "2 powi e' \<le> r" "r < 2 powi (e' + 1)"
    using binexp_bounds [OF rq(1,2)] rq(3) by (simp_all only: e'_def)
  define w where "w = (2 :: rat) powi u"
  have w: "0 < w" by (simp add: w_def)
  have q_w: "q = of_int m * w" by (simp add: qm w_def)
  define x where "x = r / w"
  have r_x: "r = x * w" using w by (simp add: x_def)
  have "\<bar>r - q\<bar> = \<bar>x - of_int m\<bar> * w" using w by (simp add: r_x q_w abs_mult flip: left_diff_distrib)
  then have "\<bar>x - of_int m\<bar> * w \<le> (of_int m / (2 * 10 ^ 16)) * w" using near q_w by simp
  then have dist: "\<bar>x - of_int m\<bar> \<le> of_int m / (2 * 10 ^ 16)" using w by (simp only: mult_le_cancel_right_pos)
  have "(of_int m :: rat) < of_int (2 ^ 53)" using m(2) by (simp only: of_int_less_iff)
  then have m53: "(of_int m :: rat) < 9007199254740992" by simp
  then have half: "\<bar>x - of_int m\<bar> < 1 / 2" using dist by simp
  consider (same) "u' = u" | (above) "u < u'" | (below) "u' < u" by linarith
  then show ?thesis
  proof cases
    case same
    have "round_pos n' d' = (m, u)"
      by (rule round_pos_near) (use rq half in \<open>simp_all add: same [symmetric] u'_def e'_def x_def w_def\<close>)
    then have "round64 r = Num (of_int m * 2 powi u)"
      by (rule round64_parts [OF r nd']) (use m u971 in linarith)+
    then show ?thesis by (simp only: qm)
  next
    case above
    then have "int 53 + u \<le> e'" by (auto simp: u'_def u_def)
    then have "2 powi (int 53 + u) \<le> r" using pow2_mono er(1) by (meson order_trans)
    then have "2 ^ 53 * w \<le> x * w" by (simp only: pow2_shift w_def [symmetric] r_x)
    then have "2 ^ 53 \<le> x" using w by (simp only: mult_le_cancel_right_pos)
    moreover have "of_int m \<le> (2 ^ 53 - 1 :: rat)"
    proof -
      have "m \<le> 2 ^ 53 - 1" using m(2) by simp
      then have "(of_int m :: rat) \<le> of_int (2 ^ 53 - 1)" by (simp only: of_int_le_iff)
      then show ?thesis by simp
    qed
    ultimately show ?thesis using half by simp
  next
    case below
    then have u: "- 1074 < u" "u = binexp n d - 52" by (auto simp: u'_def u_def)
    have "e' < int 52 + u" using below u by (auto simp: u'_def)
    then have "r < 2 powi (int 52 + u)" using er(2) pow2_mono [of "e' + 1" "int 52 + u"] by linarith
    then have "x * w < 2 ^ 52 * w" by (simp only: pow2_shift w_def [symmetric] r_x)
    then have x52: "x < 2 ^ 52" using w by (simp only: mult_less_cancel_right_pos)
    have m52: "m = 2 ^ 52"
    proof -
      have "of_int m < (2 ^ 52 + 1 :: rat)" using half x52 unfolding abs_less_iff by linarith
      then have "of_int m < (of_int (2 ^ 52 + 1) :: rat)" by simp
      then have "m < 2 ^ 52 + 1" by (simp only: of_int_less_iff)
      with m(3) u(1) show ?thesis by simp
    qed
    have quarter: "\<bar>x - 2 ^ 52\<bar> < 1 / 4" using dist m52 by simp
    have "2 ^ 52 - 1 / 4 < x" using quarter unfolding abs_less_iff by linarith
    then have "2 ^ 51 \<le> x" by simp
    then have "2 ^ 51 * w \<le> x * w" using w by (intro mult_right_mono) simp_all
    then have "2 powi (int 51 + u) \<le> r" by (simp only: pow2_shift w_def [symmetric] r_x)
    then have "int 51 + u < e' + 1" using er(2) by (intro pow2_less) simp
    with \<open>e' < int 52 + u\<close> have "e' = 51 + u" by simp
    then have u': "u' = u - 1" using u(1) by (simp add: u'_def)
    have w': "2 powi (u - 1) = w / 2" by (simp add: w_def power_int_diff)
    have "r / (w / 2) = 2 * x" using w by (simp add: r_x)
    moreover have "\<bar>2 * x - 2 ^ 53\<bar> < 1 / 2" using quarter unfolding abs_less_iff by simp
    ultimately have "\<bar>r / (w / 2) - of_int (2 ^ 53)\<bar> < 1 / 2" by simp
    then have "round_pos n' d' = (2 ^ 53, u - 1)"
      by (intro round_pos_near) (use rq in \<open>simp_all only: u' [symmetric] u'_def e'_def w' flip: w'\<close>)
    then have "round64 r = Num (of_int (2 ^ 53) * 2 powi (u - 1))"
      by (rule round64_parts [OF r nd']) (use u971 in simp_all)
    also have "of_int (2 ^ 53) * 2 powi (u - 1) = q" by (simp add: w' q_w m52)
    finally show ?thesis .
  qed
qed

section \<open>The shortest numeral\<close>

text \<open>A significand with the exponent that goes with it, as a numeral that reads back as \<open>q\<close>.\<close>

definition reads_back :: "rat \<Rightarrow> int \<times> int \<Rightarrow> bool" where
  "reads_back q p \<longleftrightarrow>
     0 < fst p \<and> round64 (of_int (fst p) * pow10 (snd p - int (length (int_digits (fst p))))) = Num q"

lemma length_int_digits:
  assumes "10 ^ k \<le> c" and "c < 10 ^ Suc k"
  shows "length (int_digits c) = Suc k"
proof -
  have "0 < c" using assms(1) by (smt (verit) zero_less_power)
  note b = int_digits_bounds [OF this]
  have "(10 :: int) ^ k < 10 ^ length (int_digits c)" using assms(1) b by linarith
  then have "k < length (int_digits c)" by simp
  moreover have "(10 :: int) ^ (length (int_digits c) - 1) < 10 ^ Suc k" using assms(2) b by linarith
  then have "length (int_digits c) - 1 < Suc k" by (simp only: power_strict_increasing_iff numeral_less_iff)
  ultimately show ?thesis by linarith
qed

lemma significand_reads_back:
  assumes "10 ^ k \<le> c" and "c \<le> 10 ^ Suc k" and "round64 (of_int c * pow10 (n - int (Suc k))) = Num q"
  shows "reads_back q (significand c (Suc k) n)"
proof (cases "c = 10 ^ Suc k")
  case True
  have "of_int (10 ^ Suc k) * pow10 (n - int (Suc k)) = pow10 (int (Suc k)) * pow10 (n - int (Suc k))"
    by (simp only: pow10_nat of_int_power of_int_numeral)
  also have "\<dots> = pow10 n" by (simp del: pow10_nat flip: pow10_add)
  finally have "round64 (pow10 n) = Num q" using assms(3) True by (simp only:)
  moreover have "length (int_digits 1) = 1" by (simp add: int_digits.simps)
  ultimately show ?thesis using True by (simp add: reads_back_def significand_def)
next
  case False
  then have "length (int_digits c) = Suc k" using assms by (intro length_int_digits) simp_all
  moreover have "0 < c" using assms(1) by (smt (verit) zero_less_power)
  ultimately show ?thesis using False assms(3) by (simp add: reads_back_def significand_def)
qed

lemma digits_range:
  assumes "pow10 (n - 1) \<le> q" and "q < pow10 n"
  shows "10 ^ k \<le> rat_floor (q * pow10 (int (Suc k) - n))" and "rat_floor (q * pow10 (int (Suc k) - n)) < 10 ^ Suc k"
proof -
  let ?s = "q * pow10 (int (Suc k) - n)"
  have "pow10 (n - 1) * pow10 (int (Suc k) - n) \<le> ?s" using assms(1) by (intro mult_right_mono) (simp_all add: less_imp_le)
  moreover have "pow10 (n - 1) * pow10 (int (Suc k) - n) = pow10 (int k)" by (simp del: pow10_nat flip: pow10_add)
  ultimately have "pow10 (int k) \<le> ?s" by (simp only:)
  then have "of_int (10 ^ k) \<le> ?s" by (simp only: pow10_nat of_int_power of_int_numeral)
  then show "10 ^ k \<le> rat_floor ?s" by (simp only: rat_floor_eq le_floor_iff)
  have "?s < pow10 n * pow10 (int (Suc k) - n)" using assms(2) by (intro mult_strict_right_mono) simp_all
  also have "\<dots> = pow10 (int (Suc k))" by (simp del: pow10_nat flip: pow10_add)
  finally have "?s < of_int (10 ^ Suc k)" by (simp only: pow10_nat of_int_power of_int_numeral)
  then show "rat_floor ?s < 10 ^ Suc k" by (simp only: rat_floor_eq floor_less_iff)
qed

text \<open>The nearest significand of \<open>k\<close> digits.\<close>

definition nearest :: "nat \<Rightarrow> rat \<Rightarrow> int \<Rightarrow> int" where
  "nearest k q n =
     (let s = q * pow10 (int k - n); f = rat_floor s
      in if 2 * (s - of_int f) < 1 \<or> (2 * (s - of_int f) = 1 \<and> even f) then f else f + 1)"

lemma nearest_close: "\<bar>of_int (nearest k q n) - q * pow10 (int k - n)\<bar> \<le> 1 / 2"
proof -
  let ?s = "q * pow10 (int k - n)"
  have "of_int (rat_floor ?s) \<le> ?s" "?s < of_int (rat_floor ?s) + 1"
    unfolding rat_floor_eq by linarith+
  then show ?thesis unfolding nearest_def Let_def by (auto simp: abs_le_iff)
qed

lemma shortest_reads_back:
  assumes "pow10 (n - 1) \<le> q" and "q < pow10 n"
    and "k < k0" and "k0 \<le> k + fuel" and "round64 (of_int (nearest k0 q n) * pow10 (n - int k0)) = Num q"
  shows "reads_back q (shortest fuel (Suc k) q n)"
  using assms(3,4)
proof (induction fuel arbitrary: k)
  case (Suc fuel)
  let ?s = "q * pow10 (int (Suc k) - n)" let ?f = "rat_floor ?s"
  let ?ok = "\<lambda>c. round64 (of_int c * pow10 (n - int (Suc k))) = Num q"
  let ?near = "nearest (Suc k) q n" let ?far = "if ?near = ?f then ?f + 1 else ?f"
  have f: "10 ^ k \<le> ?f" "?f < 10 ^ Suc k" using digits_range [OF assms(1,2)] by blast+
  then have range: "10 ^ k \<le> ?near" "?near \<le> 10 ^ Suc k" "10 ^ k \<le> ?far" "?far \<le> 10 ^ Suc k"
    by (auto simp: nearest_def Let_def simp del: power_Suc)
  have step: "shortest (Suc fuel) (Suc k) q n =
      (if ?ok ?near then significand ?near (Suc k) n
       else if ?ok ?far then significand ?far (Suc k) n else shortest fuel (Suc (Suc k)) q n)"
    unfolding shortest.simps nearest_def Let_def ..
  show ?case
  proof (cases "?ok ?near \<or> ?ok ?far")
    case True
    then show ?thesis unfolding step using significand_reads_back range by (auto simp del: power_Suc)
  next
    case False
    then have "k0 \<noteq> Suc k" using assms(5) by metis
    then have "reads_back q (shortest fuel (Suc (Suc k)) q n)" using Suc by simp
    with False show ?thesis unfolding step by (simp only: de_Morgan_disj if_False)
  qed
qed simp

text \<open>Seventeen digits suffice for every binary64 value.\<close>

lemma seventeen_digits:
  assumes "0 < q" and "round64 q = Num q" and "pow10 (n - 1) \<le> q"
  shows "round64 (of_int (nearest 17 q n) * pow10 (n - 17)) = Num q"
proof -
  let ?c = "of_int (nearest 17 q n) :: rat"
  have p: "q * pow10 (17 - n) * pow10 (n - 17) = q" by (simp add: mult.assoc)
  have "?c * pow10 (n - 17) - q = (?c - q * pow10 (17 - n)) * pow10 (n - 17)"
    unfolding left_diff_distrib p ..
  then have "\<bar>?c * pow10 (n - 17) - q\<bar> = \<bar>?c - q * pow10 (17 - n)\<bar> * pow10 (n - 17)"
    by (simp only: abs_mult abs_of_pos pow10_pos)
  also have "\<dots> \<le> 1 / 2 * pow10 (n - 17)"
    using nearest_close [of 17 q n] by (intro mult_right_mono) (simp_all add: less_imp_le)
  also have "1 / 2 * pow10 (n - 17) = pow10 (n - 1) / (2 * 10 ^ 16)"
  proof -
    have "pow10 (n - 17) = pow10 (n - 1) * pow10 (- 16)" by (simp flip: pow10_add)
    moreover have "pow10 (- 16) = 1 / 10 ^ 16" by (simp add: pow10_def Fract_of_int_quotient)
    ultimately show ?thesis by simp
  qed
  also have "\<dots> \<le> q / (2 * 10 ^ 16)" using assms(3) by (intro divide_right_mono) simp_all
  finally have near: "\<bar>?c * pow10 (n - 17) - q\<bar> \<le> q / (2 * 10 ^ 16)" .
  moreover have "0 < ?c * pow10 (n - 17)"
  proof -
    have "q / (2 * 10 ^ 16) < q" using assms(1) by simp
    with near show ?thesis by linarith
  qed
  ultimately show ?thesis using round64_near [OF assms(1,2)] by blast
qed

lemma shortest_binary64:
  assumes "0 < q" and "round64 q = Num q"
  shows "reads_back q (shortest 17 1 q (dec_exp q))"
  using shortest_reads_back [of "dec_exp q" q 0 17 17] seventeen_digits [OF assms, of "dec_exp q"]
    dec_exp_bounds [OF assms(1)]
  by simp

lemma round64_minus:
  assumes "q < 0" and "round64 q = Num q"
  shows "round64 (- q) = Num (- q)"
proof -
  obtain n d where nd: "quotient_of q = (n, d)" by fastforce
  have d: "0 < d" using nd by (rule quotient_of_denom_pos)
  have "q = of_int n / of_int d" using nd by (rule quotient_of_div)
  then have n: "n < 0" using assms(1) d by (simp add: divide_less_0_iff)
  have nd': "quotient_of (- q) = (- n, d)" using nd by (simp add: rat_uminus_code)
  obtain m u where mu: "round_pos (- n) d = (m, u)" by fastforce
  have "Num q = (if m = 0 then NegZero else if 971 < u \<or> (u = 971 \<and> 2 ^ 53 \<le> m) then Infin True
      else Num (- scale2 m u))"
    using n by (simp add: round64_def nd mu flip: assms(2))
  then have m: "m \<noteq> 0" "\<not> (971 < u \<or> (u = 971 \<and> 2 ^ 53 \<le> m))" and q: "q = - scale2 m u"
    by (auto split: if_splits)
  have "round64 (- q) = Num (scale2 m u)" using n m by (simp add: round64_def nd' mu)
  then show ?thesis by (simp add: q)
qed

text \<open>The text of a positive number, taken apart.\<close>

lemma number_to_string_positive:
  assumes "0 < q" and "round64 q = Num q"
  shows "\<exists>ip fr ex. number_to_string (Num q) = ip @ fr @ ex \<and> number_to_string (Num (- q)) = 45 # ip @ fr @ ex \<and>
    number_parts ip fr ex \<and> round64 (parts_value ip fr ex) = Num q"
proof -
  obtain c n where cn: "shortest 17 1 q (dec_exp q) = (c, n)" by fastforce
  then have c: "0 < c" "round64 (of_int c * pow10 (n - int (length (int_digits c)))) = Num q"
    using shortest_binary64 [OF assms] by (simp_all add: reads_back_def)
  obtain ip fr ex where "format_positive c n = ip @ fr @ ex" "number_parts ip fr ex"
    "parts_value ip fr ex = of_int c * pow10 (n - int (length (int_digits c)))"
    using format_positive_parts [OF c(1)] by blast
  moreover have "number_to_string (Num q) = format_positive c n"
    "number_to_string (Num (- q)) = 45 # format_positive c n"
    using assms(1) cn by (simp_all add: number_to_string_def)
  ultimately show ?thesis using c(2) by metis
qed

text \<open>A finite number is read back from its text; \<open>-0\<close> is written as \<open>0\<close>.\<close>

lemma number_round_trip:
  assumes "round64 q = Num q"
  shows "to_number (number_to_string (Num q)) = Num q"
proof (cases q "0 :: rat" rule: linorder_cases)
  case less
  have "num_neg (Num (- q)) = Num q" using less by (simp add: num_neg_def)
  moreover have "round64 (- q) = Num (- q)" using less assms by (rule round64_minus)
  ultimately show ?thesis
    using number_to_string_positive [of "- q"] less to_number_negative_parts by force
next
  case equal
  then show ?thesis by (simp add: number_to_string_def) code_simp
next
  case greater
  then show ?thesis using number_to_string_positive [OF greater assms] to_number_parts by force
qed

end
