(* ===== verification/StatusRules.thy ===== *)
theory StatusRules
  imports JsValue NumberText "HOL-Library.Product_Lexorder" "HOL-Library.List_Lexorder"
begin

text \<open>
  Status code rules of the channel settings: \<open>lib/http-status-code-rules.ts\<close> (lists of codes and ranges
  such as \<open>429, 500-503\<close>, merged into a normal form) and
  \<open>features/channels/lib/status-code-risk-guard.ts\<close> (the redirects of status codes a channel must not have).

  \<open>Number.parseInt\<close> of a run of digits is the integer it denotes. The double the program computes
  differs from it only above \<open>2\<^sup>5\<^sup>3\<close>, and every value outside 100 to 599 is refused in the next test.
\<close>

section \<open>Rules: model\<close>

record StatusCodeRange =
  range_start :: int
  range_end :: int

record ParsedHttpStatusCodeRules =
  rules_ok :: bool
  rules_ranges :: "StatusCodeRange list"
  rules_tokens :: "jsstr list"
  rules_normalized :: jsstr
  rules_invalidTokens :: "jsstr list"

definition isNumber :: "jsstr \<Rightarrow> bool" where
  "isNumber s \<longleftrightarrow> s \<noteq> [] \<and> list_all is_digit s"

definition isValidCode :: "int \<Rightarrow> bool" where
  "isValidCode code \<longleftrightarrow> 100 \<le> code \<and> code \<le> 599"

text \<open>Only the first two parts of a text with dashes are read, as the destructuring does.\<close>

definition parseToken :: "jsstr \<Rightarrow> StatusCodeRange option" where
  "parseToken token =
     (let cleaned = filter (\<lambda>c. \<not> is_space c) (trim token)
      in if cleaned = [] then None
         else if 45 \<in> set cleaned then
           (let parts = split_on 45 cleaned; a = parts ! 0; b = parts ! 1
            in if \<not> isNumber a \<or> \<not> isNumber b then None
               else let s = digits_val a; e = digits_val b
                    in if \<not> isValidCode s \<or> \<not> isValidCode e \<or> e < s then None
                       else Some \<lparr>range_start = s, range_end = e\<rparr>)
         else if \<not> isNumber cleaned then None
         else let code = digits_val cleaned
              in if \<not> isValidCode code then None else Some \<lparr>range_start = code, range_end = code\<rparr>)"

text \<open>The reducer of \<open>mergeRanges\<close>: the last range of the result is extended or a new one pushed.\<close>

definition merge_step :: "StatusCodeRange list \<Rightarrow> StatusCodeRange \<Rightarrow> StatusCodeRange list" where
  "merge_step merged current =
     (if merged = [] \<or> range_start current > range_end (last merged) + 1 then merged @ [current]
      else butlast merged @
        [(last merged)\<lparr>range_end := max (range_end (last merged)) (range_end current)\<rparr>])"

definition mergeRanges :: "StatusCodeRange list \<Rightarrow> StatusCodeRange list" where
  "mergeRanges ranges =
     foldl merge_step [] (sort_key (\<lambda>r. (range_start r, range_end r)) ranges)"

definition range_token :: "StatusCodeRange \<Rightarrow> jsstr" where
  "range_token r =
     (if range_start r = range_end r then int_digits (range_start r)
      else int_digits (range_start r) @ [45] @ int_digits (range_end r))"

text \<open>\<open>(input ?? '').toString().trim()\<close> and the segments between commas, full-width ones included.\<close>

definition rules_raw :: "jsval \<Rightarrow> jsstr" where
  "rules_raw input = trim (if nullish input then [] else string_of_val input)"

definition rule_segments :: "jsstr \<Rightarrow> jsstr list" where
  "rule_segments raw =
     filter nonempty (map trim (split_on 44 (map (\<lambda>c. if c = 65292 then 44 else c) raw)))"

definition parseHttpStatusCodeRules :: "jsval \<Rightarrow> ParsedHttpStatusCodeRules" where
  "parseHttpStatusCodeRules input =
     (let raw = rules_raw input
      in if raw = [] then
           \<lparr>rules_ok = True, rules_ranges = [], rules_tokens = [], rules_normalized = [],
            rules_invalidTokens = []\<rparr>
         else
           let segments = rule_segments raw;
               ranges = List.map_filter parseToken segments;
               invalidTokens = filter (\<lambda>s. parseToken s = None) segments
           in if invalidTokens \<noteq> [] then
                \<lparr>rules_ok = False, rules_ranges = [], rules_tokens = [], rules_normalized = raw,
                 rules_invalidTokens = invalidTokens\<rparr>
              else
                let merged = mergeRanges ranges; tokens = map range_token merged
                in \<lparr>rules_ok = True, rules_ranges = merged, rules_tokens = tokens,
                    rules_normalized = join [44] tokens, rules_invalidTokens = []\<rparr>)"

section \<open>Redirects: model\<close>

definition NON_REDIRECTABLE_STATUS_CODES :: "int list" where
  "NON_REDIRECTABLE_STATUS_CODES = [504, 524]"

text \<open>\<open>/^[1-5]\d{2}$/\<close>.\<close>

definition three_digit_code :: "jsstr \<Rightarrow> bool" where
  "three_digit_code s \<longleftrightarrow> length s = 3 \<and> 49 \<le> s ! 0 \<and> s ! 0 \<le> 53 \<and> list_all is_digit s"

definition parseStatusCodeKey :: "jsstr \<Rightarrow> int option" where
  "parseStatusCodeKey rawKey =
     (let normalized = trim rawKey
      in if \<not> three_digit_code normalized then None else Some (digits_val normalized))"

definition parseStatusCodeMappingTarget :: "jsval \<Rightarrow> int option" where
  "parseStatusCodeMappingTarget rawValue =
     (if val_is_integer rawValue then
        (let code = rat_floor (val (num_of rawValue))
         in if 100 \<le> code \<and> code \<le> 599 then Some code else None)
      else case rawValue of
        Str s \<Rightarrow>
          (let normalized = trim s
           in if \<not> three_digit_code normalized then None
              else let code = digits_val normalized
                   in if 100 \<le> code \<and> code \<le> 599 then Some code else None)
      | _ \<Rightarrow> None)"

definition parseStatusCodeMapping :: "jsstr \<Rightarrow> (jsstr \<times> jsval) list" where
  "parseStatusCodeMapping text =
     (if trim text = [] then []
      else case json_parse text of Some (Obj ps) \<Rightarrow> own_entries ps | _ \<Rightarrow> [])"

definition collectInvalidStatusCodeEntries :: "jsstr \<Rightarrow> jsstr list" where
  "collectInvalidStatusCodeEntries text =
     map (\<lambda>(rawKey, rawValue). rawKey @ [32, 8594, 32] @ string_of_val rawValue)
       (filter (\<lambda>(rawKey, rawValue).
          parseStatusCodeKey rawKey = None \<or> parseStatusCodeMappingTarget rawValue = None)
        (parseStatusCodeMapping text))"

definition redirect_text :: "int \<Rightarrow> int \<Rightarrow> jsstr" where
  "redirect_text from to = int_digits from @ js '' -> '' @ int_digits to"

text \<open>One turn of the loop: what is pushed for an entry, if anything.\<close>

definition risky_mapping :: "jsstr \<times> jsval \<Rightarrow> jsstr option" where
  "risky_mapping entry =
     (case (parseStatusCodeKey (fst entry), parseStatusCodeMappingTarget (snd entry)) of
        (Some fromCode, Some toCode) \<Rightarrow>
          if fromCode \<notin> set NON_REDIRECTABLE_STATUS_CODES then None
          else if fromCode = toCode then None
          else Some (redirect_text fromCode toCode)
      | _ \<Rightarrow> None)"

text \<open>
  The texts sorted by \<open>localeCompare\<close> all have the form \<open>ddd -> ddd\<close>, for which the collation order
  is the order of the code units.
\<close>

definition collectDisallowedStatusCodeRedirects :: "jsstr \<Rightarrow> jsstr list" where
  "collectDisallowedStatusCodeRedirects text =
     sort (uniq (List.map_filter risky_mapping (parseStatusCodeMapping text)))"

definition collectNewDisallowedStatusCodeRedirects :: "jsstr \<Rightarrow> jsstr \<Rightarrow> jsstr list" where
  "collectNewDisallowedStatusCodeRedirects originalStr currentStr =
     (let currentRisky = collectDisallowedStatusCodeRedirects currentStr
      in if currentRisky = [] then []
         else filter (\<lambda>m. m \<notin> set (collectDisallowedStatusCodeRedirects originalStr)) currentRisky)"

section \<open>Digits\<close>

lemma isNumber_digits: "0 \<le> n \<Longrightarrow> isNumber (int_digits n)"
  by (simp add: isNumber_def int_digits_facts)

lemma digits_no_dash: "isNumber s \<Longrightarrow> c \<in> set s \<Longrightarrow> is_digit c"
  by (simp add: isNumber_def list_all_iff)

section \<open>Merging\<close>

definition codes :: "StatusCodeRange \<Rightarrow> int set" where
  "codes r = {range_start r .. range_end r}"

definition covers :: "StatusCodeRange list \<Rightarrow> int set" where
  "covers rs = (\<Union>r \<in> set rs. codes r)"

definition proper :: "StatusCodeRange list \<Rightarrow> bool" where
  "proper rs \<longleftrightarrow> (\<forall>r \<in> set rs. range_start r \<le> range_end r)"

text \<open>Ascending ranges with at least one code missing between neighbours.\<close>

definition separated :: "StatusCodeRange list \<Rightarrow> bool" where
  "separated rs \<longleftrightarrow> sorted_wrt (\<lambda>r s. range_end r + 1 < range_start s) rs"

lemma covers_simps [simp]:
  "covers [] = {}" "covers (r # rs) = codes r \<union> covers rs" "covers (rs @ qs) = covers rs \<union> covers qs"
  by (auto simp: covers_def)

lemma proper_simps [simp]:
  "proper []" "proper (r # rs) \<longleftrightarrow> range_start r \<le> range_end r \<and> proper rs"
  "proper (rs @ qs) \<longleftrightarrow> proper rs \<and> proper qs"
  by (auto simp: proper_def)

lemma separated_simps [simp]:
  "separated []"
  "separated (r # rs) \<longleftrightarrow> (\<forall>s \<in> set rs. range_end r + 1 < range_start s) \<and> separated rs"
  "separated (rs @ qs) \<longleftrightarrow> separated rs \<and> separated qs \<and>
     (\<forall>r \<in> set rs. \<forall>s \<in> set qs. range_end r + 1 < range_start s)"
  by (auto simp: separated_def sorted_wrt_append)

lemma merge_step_snoc:
  "merge_step (ms @ [l]) c =
     (if range_start c > range_end l + 1 then ms @ [l, c]
      else ms @ [l\<lparr>range_end := max (range_end l) (range_end c)\<rparr>])"
  by (simp add: merge_step_def)

lemma merge_step_keeps:
  assumes "separated ms" "proper ms" "range_start c \<le> range_end c"
    and "\<And>l. l \<in> set ms \<Longrightarrow> range_start l \<le> range_start c"
  shows "separated (merge_step ms c) \<and> proper (merge_step ms c) \<and>
     covers (merge_step ms c) = covers ms \<union> codes c \<and>
     (\<forall>l \<in> set (merge_step ms c). range_start l \<le> range_start c)"
proof (cases ms rule: rev_cases)
  case Nil
  with assms show ?thesis by (simp add: merge_step_def)
next
  case (snoc ks l)
  show ?thesis
  proof (cases "range_start c > range_end l + 1")
    case True
    with snoc assms show ?thesis
      by (fastforce simp: merge_step_snoc)
  next
    case False
    have "range_start l \<le> range_start c" "range_start l \<le> range_end l"
      using snoc assms(2) assms(4) [of l] by simp_all
    with False assms(3)
    have "codes (l\<lparr>range_end := max (range_end l) (range_end c)\<rparr>) = codes l \<union> codes c"
      by (auto simp: codes_def max_def)
    with False snoc assms show ?thesis
      by (auto simp: merge_step_snoc max_def)
  qed
qed

lemma foldl_merge:
  assumes "separated ms" "proper ms" "proper cs" "sorted (map range_start cs)"
    and "\<And>l c. l \<in> set ms \<Longrightarrow> c \<in> set cs \<Longrightarrow> range_start l \<le> range_start c"
  shows "separated (foldl merge_step ms cs) \<and> proper (foldl merge_step ms cs) \<and>
     covers (foldl merge_step ms cs) = covers ms \<union> covers cs"
  using assms
proof (induction cs arbitrary: ms)
  case (Cons c cs)
  have step: "separated (merge_step ms c) \<and> proper (merge_step ms c) \<and>
     covers (merge_step ms c) = covers ms \<union> codes c \<and>
     (\<forall>l \<in> set (merge_step ms c). range_start l \<le> range_start c)"
    using Cons.prems by (intro merge_step_keeps) simp_all
  have "separated (foldl merge_step (merge_step ms c) cs) \<and> proper (foldl merge_step (merge_step ms c) cs) \<and>
     covers (foldl merge_step (merge_step ms c) cs) = covers (merge_step ms c) \<union> covers cs"
    using step Cons.prems by (intro Cons.IH) (auto intro: order_trans)
  with step show ?case by auto
qed simp

lemma sorted_starts:
  "sorted (map range_start (sort_key (\<lambda>r. (range_start r, range_end r)) rs))"
proof -
  have "sorted (map (\<lambda>r. (range_start r, range_end r)) (sort_key (\<lambda>r. (range_start r, range_end r)) rs))"
    by simp
  then show ?thesis
    unfolding sorted_map by (rule sorted_wrt_mono_rel [rotated]) (auto simp: less_eq_prod_def)
qed

lemma covers_cong: "set rs = set qs \<Longrightarrow> covers rs = covers qs"
  by (simp add: covers_def)

lemma proper_cong: "set rs = set qs \<Longrightarrow> proper rs = proper qs"
  by (simp add: proper_def)

lemma mergeRanges_spec:
  assumes "proper rs"
  shows "separated (mergeRanges rs) \<and> proper (mergeRanges rs) \<and> covers (mergeRanges rs) = covers rs"
proof -
  let ?s = "sort_key (\<lambda>r. (range_start r, range_end r)) rs"
  have "proper ?s" "covers ?s = covers rs"
    using assms by (simp_all add: proper_def covers_def)
  then show ?thesis
    unfolding mergeRanges_def using foldl_merge [of "[]" ?s] sorted_starts [of rs] by simp
qed

text \<open>A set of codes has one separated list of ranges.\<close>

lemma separated_Cons_parts:
  assumes "separated (r # rs)" "proper (r # rs)"
  shows "range_start r \<in> covers (r # rs)" "\<And>x. x \<in> covers (r # rs) \<Longrightarrow> range_start r \<le> x"
    "range_end r + 1 \<notin> covers (r # rs)" "covers rs = covers (r # rs) - codes r"
  using assms by (fastforce simp: covers_def codes_def proper_def)+

lemma separated_unique:
  assumes "separated rs" "proper rs" "separated qs" "proper qs" "covers rs = covers qs"
  shows "rs = qs"
  using assms
proof (induction rs arbitrary: qs)
  case Nil
  then show ?case
    by (cases qs) (auto simp: codes_def)
next
  case (Cons r rs)
  then obtain q qs' where qs: "qs = q # qs'"
    by (cases qs) (auto simp: codes_def)
  note R = separated_Cons_parts [OF Cons.prems(1,2)]
  note Q = separated_Cons_parts [OF Cons.prems(3,4) [unfolded qs]]
  have cov: "covers (r # rs) = covers (q # qs')"
    using Cons.prems(5) qs by simp
  have st: "range_start r = range_start q"
    using R(2) [OF Q(1) [folded cov]] Q(2) [OF R(1) [unfolded cov]] by simp
  have le: "range_start r \<le> range_end r" "range_start q \<le> range_end q"
    using Cons.prems(2,4) qs by simp_all
  have "\<not> range_end r < range_end q"
  proof
    assume "range_end r < range_end q"
    then have "range_end r + 1 \<in> codes q" using le st by (simp add: codes_def)
    then show False using R(3) cov by auto
  qed
  moreover have "\<not> range_end q < range_end r"
  proof
    assume "range_end q < range_end r"
    then have "range_end q + 1 \<in> codes r" using le st by (simp add: codes_def)
    then show False using Q(3) cov by auto
  qed
  ultimately have rq: "r = q" using st by simp
  moreover have "covers rs = covers qs'"
    by (metis R(4) Q(4) cov rq)
  then have "rs = qs'"
    using Cons.prems(1-4) qs by (intro Cons.IH) simp_all
  ultimately show ?case by (simp add: qs)
qed

lemma mergeRanges_id: "separated rs \<Longrightarrow> proper rs \<Longrightarrow> mergeRanges rs = rs"
  using mergeRanges_spec [of rs] separated_unique [of "mergeRanges rs" rs] by simp

section \<open>Tokens\<close>

lemma parseToken_range:
  "parseToken t = Some r \<Longrightarrow> isValidCode (range_start r) \<and> isValidCode (range_end r) \<and> range_start r \<le> range_end r"
  by (auto simp: parseToken_def Let_def split: if_splits)

lemma is_digit_dash: "\<not> is_digit 45" "\<not> is_digit 44" "\<not> is_digit 32" "\<not> is_digit 65292"
  by (simp_all add: is_digit_def)

lemma range_token_chars:
  assumes "isValidCode (range_start r)" "isValidCode (range_end r)" "c \<in> set (range_token r)"
  shows "is_digit c \<or> c = 45"
  using assms isNumber_digits [of "range_start r"] isNumber_digits [of "range_end r"]
  by (auto simp: range_token_def isValidCode_def isNumber_def list_all_iff split: if_splits)

lemma range_token_nonempty:
  "isValidCode (range_start r) \<Longrightarrow> range_token r \<noteq> []"
  using isNumber_digits [of "range_start r"] by (auto simp: range_token_def isValidCode_def isNumber_def)

lemma not_space_dash: "\<not> is_space 45"
  by (simp add: is_space_def)

lemma no_space_digits: "isNumber s \<Longrightarrow> \<forall>c \<in> set s. \<not> is_space c"
  by (auto dest: digits_no_dash)

lemma parseToken_token:
  assumes "isValidCode (range_start r)" "isValidCode (range_end r)" "range_start r \<le> range_end r"
  shows "parseToken (range_token r) = Some r"
proof -
  let ?a = "int_digits (range_start r)" and ?b = "int_digits (range_end r)"
  have a: "isNumber ?a" and b: "isNumber ?b"
    using assms by (simp_all add: isNumber_digits isValidCode_def)
  have val: "digits_val ?a = range_start r" "digits_val ?b = range_end r"
    using assms by (simp_all add: isValidCode_def)
  have sp: "\<forall>c \<in> set (range_token r). \<not> is_space c"
    using a b no_space_digits not_space_dash by (auto simp: range_token_def)
  have cleaned: "filter (\<lambda>c. \<not> is_space c) (trim (range_token r)) = range_token r"
    using sp by (simp add: trim_no_space)
  have nd: "45 \<notin> set ?a" "45 \<notin> set ?b"
    using a b digits_no_dash is_digit_dash by blast+
  show ?thesis
  proof (cases "range_start r = range_end r")
    case True
    then show ?thesis
      using a nd val assms cleaned range_token_nonempty [of r]
      by (simp add: parseToken_def Let_def range_token_def)
  next
    case False
    have "split_on 45 (?a @ 45 # ?b) = [?a, ?b]"
      using nd by (simp add: split_on_append_sep split_on_single)
    with False show ?thesis
      using a b val assms cleaned
      by (simp add: parseToken_def Let_def range_token_def)
  qed
qed

section \<open>Parsing\<close>

definition valid_range :: "StatusCodeRange \<Rightarrow> bool" where
  "valid_range r \<longleftrightarrow> isValidCode (range_start r) \<and> isValidCode (range_end r) \<and> range_start r \<le> range_end r"

lemma map_filter_set: "set (List.map_filter f xs) = {y. \<exists>x \<in> set xs. f x = Some y}"
  by (force simp: List.map_filter_def)

lemma map_filter_all:
  "(\<And>x. x \<in> set xs \<Longrightarrow> f (g x) = Some x) \<Longrightarrow> List.map_filter f (map g xs) = xs"
  by (induction xs) (simp_all add: List.map_filter_simps)

lemma parsed_ranges_valid: "r \<in> set (List.map_filter parseToken ss) \<Longrightarrow> valid_range r"
  by (auto simp: map_filter_set valid_range_def dest: parseToken_range)

lemma covers_valid_iff:
  assumes "proper rs"
  shows "(\<forall>r \<in> set rs. valid_range r) \<longleftrightarrow> covers rs \<subseteq> {100..599}"
proof -
  have "valid_range r \<longleftrightarrow> codes r \<subseteq> {100..599}" if "r \<in> set rs" for r
    using that assms by (auto simp: proper_def valid_range_def isValidCode_def codes_def)
  then show ?thesis by (auto simp: covers_def)
qed

lemma merged_valid:
  assumes "\<forall>r \<in> set rs. valid_range r"
  shows "separated (mergeRanges rs)" "\<forall>r \<in> set (mergeRanges rs). valid_range r"
    "covers (mergeRanges rs) = covers rs"
proof -
  have p: "proper rs" using assms by (auto simp: proper_def valid_range_def)
  note m = mergeRanges_spec [OF p]
  show "separated (mergeRanges rs)" and c: "covers (mergeRanges rs) = covers rs"
    using m by simp_all
  show "\<forall>r \<in> set (mergeRanges rs). valid_range r"
    using assms covers_valid_iff [OF p] covers_valid_iff [of "mergeRanges rs"] m by simp
qed

text \<open>The codes a text of rules names: those of its segments.\<close>

definition named_codes :: "jsval \<Rightarrow> int set" where
  "named_codes input = covers (List.map_filter parseToken (rule_segments (rules_raw input)))"

lemma segments_Nil: "rule_segments [] = []"
  by (simp add: rule_segments_def nonempty_def)

lemma parse_rules:
  "rules_ok (parseHttpStatusCodeRules v) \<longleftrightarrow> rules_invalidTokens (parseHttpStatusCodeRules v) = []"
  "rules_invalidTokens (parseHttpStatusCodeRules v) =
     filter (\<lambda>s. parseToken s = None) (rule_segments (rules_raw v))"
  "rules_ok (parseHttpStatusCodeRules v) \<Longrightarrow>
     rules_ranges (parseHttpStatusCodeRules v) =
       mergeRanges (List.map_filter parseToken (rule_segments (rules_raw v)))"
  "rules_ok (parseHttpStatusCodeRules v) \<Longrightarrow>
     rules_tokens (parseHttpStatusCodeRules v) = map range_token (rules_ranges (parseHttpStatusCodeRules v))"
  "rules_ok (parseHttpStatusCodeRules v) \<Longrightarrow>
     rules_normalized (parseHttpStatusCodeRules v) = join [44] (rules_tokens (parseHttpStatusCodeRules v))"
  by (simp_all add: parseHttpStatusCodeRules_def Let_def segments_Nil mergeRanges_def
      List.map_filter_simps split: if_splits)

lemma parsed_facts:
  assumes "rules_ok (parseHttpStatusCodeRules v)"
  shows "separated (rules_ranges (parseHttpStatusCodeRules v))"
    "\<forall>r \<in> set (rules_ranges (parseHttpStatusCodeRules v)). valid_range r"
    "covers (rules_ranges (parseHttpStatusCodeRules v)) = named_codes v"
  using merged_valid [of "List.map_filter parseToken (rule_segments (rules_raw v))"]
  by (simp_all add: parse_rules(3) [OF assms] named_codes_def parsed_ranges_valid)

lemma valid_proper: "\<forall>r \<in> set rs. valid_range r \<Longrightarrow> proper rs"
  by (simp add: proper_def valid_range_def)

lemma join_chars: "c \<in> set (join sep ws) \<Longrightarrow> c \<in> set sep \<or> (\<exists>w \<in> set ws. c \<in> set w)"
  by (induction sep ws rule: join.induct) auto

lemma segments_join:
  assumes "\<forall>r \<in> set rs. valid_range r"
  shows "trim (join [44] (map range_token rs)) = join [44] (map range_token rs)"
    "rule_segments (join [44] (map range_token rs)) = map range_token rs"
proof -
  have tok: "is_digit c \<or> c = 45" if "r \<in> set rs" "c \<in> set (range_token r)" for r c
    using assms that range_token_chars by (auto simp: valid_range_def)
  have chars: "is_digit c \<or> c = 45 \<or> c = 44" if "c \<in> set (join [44] (map range_token rs))" for c
    using join_chars [OF that] tok by auto
  have nosp: "\<not> is_space c" if "is_digit c \<or> c = 45 \<or> c = 44" for c
    using that by (auto simp: is_space_def is_digit_def)
  show "trim (join [44] (map range_token rs)) = join [44] (map range_token rs)"
    using chars nosp by (intro trim_no_space) blast
  have "map (\<lambda>c. if c = 65292 then 44 else c) (join [44] (map range_token rs)) = join [44] (map range_token rs)"
    using chars [of 65292] by (intro map_idI) (auto simp: is_digit_def)
  moreover have "split_on 44 (join [44] (map range_token rs)) = map range_token rs" if "rs \<noteq> []"
    using that tok is_digit_dash by (intro split_on_join) fastforce+
  moreover have "map trim (map range_token rs) = map range_token rs"
    using tok nosp by (intro map_idI) (auto intro!: trim_no_space)
  moreover have "filter nonempty (map range_token rs) = map range_token rs"
    using assms range_token_nonempty by (auto simp: nonempty_def valid_range_def)
  ultimately show "rule_segments (join [44] (map range_token rs)) = map range_token rs"
    unfolding rule_segments_def by (cases "rs = []") (simp_all add: nonempty_def del: map_map)
qed

lemma map_filter_tokens:
  "\<forall>r \<in> set rs. valid_range r \<Longrightarrow> List.map_filter parseToken (map range_token rs) = rs"
  by (rule map_filter_all) (simp add: valid_range_def parseToken_token)

lemma parsed_eq:
  assumes v: "rules_ok (parseHttpStatusCodeRules v)" and w: "rules_ok (parseHttpStatusCodeRules w)"
    and eq: "rules_ranges (parseHttpStatusCodeRules v) = rules_ranges (parseHttpStatusCodeRules w)"
  shows "parseHttpStatusCodeRules v = parseHttpStatusCodeRules w"
proof (rule ParsedHttpStatusCodeRules.equality)
  show "rules_invalidTokens (parseHttpStatusCodeRules v) = rules_invalidTokens (parseHttpStatusCodeRules w)"
    using v w by (simp add: parse_rules(1))
qed (use v w eq in \<open>simp_all add: parse_rules(4,5) [OF v] parse_rules(4,5) [OF w]\<close>)

lemma normal_form_read:
  assumes ok: "rules_ok (parseHttpStatusCodeRules v)"
  shows "parseHttpStatusCodeRules (Str (rules_normalized (parseHttpStatusCodeRules v))) = parseHttpStatusCodeRules v"
proof -
  let ?p = "parseHttpStatusCodeRules v" and ?q = "parseHttpStatusCodeRules (Str (rules_normalized (parseHttpStatusCodeRules v)))"
  note P = parsed_facts [OF ok]
  have raw: "rules_raw (Str (rules_normalized ?p)) = join [44] (map range_token (rules_ranges ?p))"
    by (simp add: rules_raw_def nullish_def parse_rules(4,5) [OF ok] segments_join(1) [OF P(2)])
  have seg: "rule_segments (rules_raw (Str (rules_normalized ?p))) = map range_token (rules_ranges ?p)"
    by (simp add: raw segments_join(2) [OF P(2)])
  have inv: "rules_invalidTokens ?q = []"
    using P(2) by (simp add: parse_rules(2) seg filter_empty_conv valid_range_def parseToken_token)
  then have ok': "rules_ok ?q" by (simp add: parse_rules(1))
  have rr: "rules_ranges ?q = rules_ranges ?p"
    by (simp add: parse_rules(3) [OF ok'] seg map_filter_tokens [OF P(2)] mergeRanges_id [OF P(1) valid_proper [OF P(2)]])
  show ?thesis
    by (rule parsed_eq [OF ok' ok rr])
qed



text \<open>C12: The normal form of accepted rules is read back as the same rules, and it is canonical: two accepted
  texts have the same normal form exactly when they name the same codes.\<close>

theorem status_rules_canonical:
  assumes "rules_ok (parseHttpStatusCodeRules v)" and "rules_ok (parseHttpStatusCodeRules w)"
  shows "parseHttpStatusCodeRules (Str (rules_normalized (parseHttpStatusCodeRules v))) = parseHttpStatusCodeRules v \<and>
    (rules_normalized (parseHttpStatusCodeRules v) = rules_normalized (parseHttpStatusCodeRules w) \<longleftrightarrow>
      named_codes v = named_codes w)"
proof -
  have read: "parseHttpStatusCodeRules (Str (rules_normalized (parseHttpStatusCodeRules x))) = parseHttpStatusCodeRules x"
    if "rules_ok (parseHttpStatusCodeRules x)" for x
    by (rule normal_form_read [OF that])
  have "rules_ranges (parseHttpStatusCodeRules v) = rules_ranges (parseHttpStatusCodeRules w)"
    if "named_codes v = named_codes w"
    using separated_unique parsed_facts [OF assms(1)] parsed_facts [OF assms(2)] valid_proper that by metis
  moreover have "named_codes v = named_codes w"
    if "rules_normalized (parseHttpStatusCodeRules v) = rules_normalized (parseHttpStatusCodeRules w)"
    using read assms parsed_facts(3) that by metis
  ultimately show ?thesis
    using read assms by (metis parse_rules(4,5))
qed

definition sample_rules :: jsval where
  "sample_rules = Str (js ''503, 429,500-502 , 200'')"

theorem status_rules_canonical_witness:
  "rules_normalized (parseHttpStatusCodeRules sample_rules) = js ''200,429,500-503'' \<and>
   parseHttpStatusCodeRules (Str (js ''200,429,500-503'')) = parseHttpStatusCodeRules sample_rules \<and>
   named_codes sample_rules = named_codes (Str (js ''200,429,500-503''))"
proof -
  have ok: "rules_ok (parseHttpStatusCodeRules sample_rules)" "rules_ok (parseHttpStatusCodeRules (Str (js ''200,429,500-503'')))"
    and norm: "rules_normalized (parseHttpStatusCodeRules sample_rules) = js ''200,429,500-503''"
      "rules_normalized (parseHttpStatusCodeRules (Str (js ''200,429,500-503''))) = js ''200,429,500-503''"
    by code_simp+
  show ?thesis
    using status_rules_canonical [OF ok] norm by simp
qed

section \<open>Redirects\<close>

text \<open>The redirects a mapping text sets up.\<close>

definition redirects :: "jsstr \<Rightarrow> int \<Rightarrow> int \<Rightarrow> bool" where
  "redirects text from to \<longleftrightarrow>
     (\<exists>entry \<in> set (parseStatusCodeMapping text).
        parseStatusCodeKey (fst entry) = Some from \<and> parseStatusCodeMappingTarget (snd entry) = Some to)"

lemma parseStatusCodeKey_nonneg: "parseStatusCodeKey k = Some n \<Longrightarrow> 0 \<le> n"
  by (auto simp: parseStatusCodeKey_def three_digit_code_def Let_def digits_val_nonneg split: if_splits)

lemma target_range: "parseStatusCodeMappingTarget v = Some n \<Longrightarrow> 100 \<le> n \<and> n \<le> 599"
  by (cases v) (simp_all add: parseStatusCodeMappingTarget_def Let_def split: if_splits)

lemma redirects_nonneg: "redirects text from to \<Longrightarrow> 0 \<le> from \<and> 0 \<le> to"
  unfolding redirects_def using parseStatusCodeKey_nonneg target_range by fastforce

lemma redirect_text_inj:
  assumes "0 \<le> f" "0 \<le> t" "0 \<le> f'" "0 \<le> t'" and eq: "redirect_text f t = redirect_text f' t'"
  shows "f = f' \<and> t = t'"
proof -
  have tw: "takeWhile is_digit (redirect_text a b) = int_digits a" if "0 \<le> a" for a b
    using int_digits_facts [OF that]
    by (simp add: redirect_text_def js_eval is_digit_def takeWhile_append2 list_all_iff)
  have "int_digits f = int_digits f'"
    using tw [of f t] tw [of f' t'] assms by metis
  moreover from this have "int_digits t = int_digits t'"
    using eq by (simp add: redirect_text_def)
  ultimately show ?thesis
    using assms digits_val_digits by metis
qed

lemma risky_mapping_iff:
  "risky_mapping e = Some m \<longleftrightarrow>
     (\<exists>f t. parseStatusCodeKey (fst e) = Some f \<and> parseStatusCodeMappingTarget (snd e) = Some t \<and>
        f \<in> set NON_REDIRECTABLE_STATUS_CODES \<and> f \<noteq> t \<and> m = redirect_text f t)"
  by (auto simp: risky_mapping_def split: option.splits)

lemma disallowed_set:
  "set (collectDisallowedStatusCodeRedirects text) =
     {redirect_text f t | f t. f \<in> set NON_REDIRECTABLE_STATUS_CODES \<and> f \<noteq> t \<and> redirects text f t}"
  unfolding collectDisallowedStatusCodeRedirects_def redirects_def set_sort set_uniq map_filter_set risky_mapping_iff
  by blast

text \<open>The guard reports exactly the redirects of 504 and 524 to another code that the edited mapping has and
  the saved one has not, each once and in ascending order.\<close>

lemma new_redirects_reported:
  "set (collectNewDisallowedStatusCodeRedirects original current) =
     {redirect_text f t | f t. f \<in> set NON_REDIRECTABLE_STATUS_CODES \<and> f \<noteq> t \<and>
        redirects current f t \<and> \<not> redirects original f t} \<and>
   distinct (collectNewDisallowedStatusCodeRedirects original current) \<and>
   sorted (collectNewDisallowedStatusCodeRedirects original current)"
proof -
  have new: "collectNewDisallowedStatusCodeRedirects original current =
      filter (\<lambda>m. m \<notin> set (collectDisallowedStatusCodeRedirects original))
        (collectDisallowedStatusCodeRedirects current)"
    by (simp add: collectNewDisallowedStatusCodeRedirects_def Let_def)
  have "redirect_text f t \<in> set (collectDisallowedStatusCodeRedirects original) \<longleftrightarrow>
      f \<in> set NON_REDIRECTABLE_STATUS_CODES \<and> f \<noteq> t \<and> redirects original f t"
    if "redirects current f t" for f t
    unfolding disallowed_set using redirect_text_inj redirects_nonneg that by blast
  then show ?thesis
    unfolding new set_filter disallowed_set [of current]
    by (auto simp: collectDisallowedStatusCodeRedirects_def sorted_wrt_filter)
qed

end
