(* ===== verification/KeyCreation.thy ===== *)
theory KeyCreation
  imports JsValue "HOL-Library.List_Lexorder"
begin

text \<open>
  Creation of an API key from the assistant panel: the reducer of
  \<open>features/assistant/assistant-key-creation-machine.ts\<close>, the checks of \<open>assistant-key-contract.ts\<close>, and
  the hook of \<open>use-assistant-key-creation.ts\<close> that drives the reducer.

  The hook is a state \<open>hook\<close> and a function \<open>hook_step\<close> on it with one event per callback, effect and
  reply. An asynchronous callback is a \<open>task\<close> that waits at its \<open>await\<close>, with the values its closure
  captured; replies resume a task by its position, in any order and at any time. \<open>effects\<close> is the log of what
  the hook did to the outside: requests, notifications of the parent, messages (before translation).

  What the schemas of the validation library answer and the collation keys of the locale are in
  \<open>key_env\<close>, a parameter of the definitions. The result of a refetch is also the data the query holds
  from then on.
\<close>

section \<open>Data\<close>

record AssistantCreateKeyAction =
  confirmation_token :: jsstr
  expires_in_seconds :: number
  action_name :: jsstr
  action_group :: jsstr
  conversation_id :: "number option"
  ui_path :: "jsstr option"

record AssistantCreatedKey =
  key_id :: number
  key_name :: jsstr
  key_group :: jsstr
  expired_time :: number
  card_id :: jsstr
  card_label :: "jsstr option"

datatype warning_mode = Modal | Banner | Inline

record AssistantGroupWarning =
  warning_enabled :: bool
  warning_message :: jsstr
  warning_mode :: warning_mode
  warning_confirmations :: int

record AssistantSelectableGroup =
  group_id :: jsstr
  group_warning :: "AssistantGroupWarning option"

datatype PreparedSource = External_source | Local_source

datatype AssistantKeyCreationPhase =
    Draft
  | Warning AssistantGroupWarning int
  | Preparing
  | External AssistantCreateKeyAction
  | Reviewing AssistantCreateKeyAction PreparedSource jsstr
  | Confirming AssistantCreateKeyAction PreparedSource jsstr
  | Created AssistantCreatedKey

record AssistantKeyCreationState =
  name :: jsstr
  group :: jsstr
  phase :: AssistantKeyCreationPhase

datatype CreationEvent =
    Set_name jsstr
  | Set_group jsstr
  | Load_external AssistantCreateKeyAction
  | Clear_external
  | Show_warning AssistantGroupWarning int
  | Start_preparing
  | Prepared AssistantCreateKeyAction
  | Review_external AssistantCreateKeyAction
  | Start_confirming AssistantCreateKeyAction PreparedSource jsstr
  | Set_two_factor jsstr
  | Confirmation_failed
  | Key_created AssistantCreatedKey
  | Reset

section \<open>The reducer\<close>

text \<open>\<open>None\<close> is \<open>undefined\<close>: the event belongs to another part of the reducer.\<close>

definition reduceDraftEvent :: "AssistantKeyCreationState \<Rightarrow> CreationEvent \<Rightarrow> AssistantKeyCreationState option" where
  "reduceDraftEvent s event =
     (case event of
        Set_name n \<Rightarrow> Some (if phase s = Draft then s\<lparr>name := n\<rparr> else s)
      | Set_group g \<Rightarrow> Some (if phase s = Draft then s\<lparr>group := g\<rparr> else s)
      | Load_external a \<Rightarrow> Some \<lparr>name = action_name a, group = action_group a, phase = External a\<rparr>
      | Clear_external \<Rightarrow>
          Some (case phase s of
              External _ \<Rightarrow> s\<lparr>phase := Draft\<rparr>
            | Reviewing _ src _ \<Rightarrow> if src = External_source then s\<lparr>phase := Draft\<rparr> else s
            | _ \<Rightarrow> s)
      | Reset \<Rightarrow> Some (s\<lparr>phase := Draft\<rparr>)
      | _ \<Rightarrow> None)"

definition reducePreparationEvent :: "AssistantKeyCreationState \<Rightarrow> CreationEvent \<Rightarrow> AssistantKeyCreationState option" where
  "reducePreparationEvent s event =
     (case event of
        Show_warning w count \<Rightarrow> Some (s\<lparr>phase := Warning w count\<rparr>)
      | Start_preparing \<Rightarrow> Some (s\<lparr>phase := Preparing\<rparr>)
      | Prepared a \<Rightarrow>
          Some \<lparr>name = action_name a, group = action_group a, phase = Reviewing a Local_source []\<rparr>
      | Review_external a \<Rightarrow>
          Some \<lparr>name = action_name a, group = action_group a, phase = Reviewing a External_source []\<rparr>
      | _ \<Rightarrow> None)"

definition reduceConfirmationEvent :: "AssistantKeyCreationState \<Rightarrow> CreationEvent \<Rightarrow> AssistantKeyCreationState option" where
  "reduceConfirmationEvent s event =
     (case event of
        Set_two_factor c \<Rightarrow>
          Some (case phase s of Reviewing a src _ \<Rightarrow> s\<lparr>phase := Reviewing a src c\<rparr> | _ \<Rightarrow> s)
      | Start_confirming a src c \<Rightarrow>
          Some \<lparr>name = action_name a, group = action_group a, phase = Confirming a src c\<rparr>
      | Confirmation_failed \<Rightarrow>
          Some (case phase s of Confirming a src c \<Rightarrow> s\<lparr>phase := Reviewing a src c\<rparr> | _ \<Rightarrow> s)
      | Key_created k \<Rightarrow> Some (s\<lparr>phase := Created k\<rparr>)
      | _ \<Rightarrow> None)"

definition reducer :: "AssistantKeyCreationState \<Rightarrow> CreationEvent \<Rightarrow> AssistantKeyCreationState" where
  "reducer s event =
     (case reduceDraftEvent s event of Some s' \<Rightarrow> s'
      | None \<Rightarrow> (case reducePreparationEvent s event of Some s' \<Rightarrow> s'
        | None \<Rightarrow> (case reduceConfirmationEvent s event of Some s' \<Rightarrow> s' | None \<Rightarrow> s)))"

definition initialState :: "jsstr \<Rightarrow> AssistantCreateKeyAction option \<Rightarrow> AssistantKeyCreationState" where
  "initialState n action =
     (case action of
        Some a \<Rightarrow> \<lparr>name = action_name a, group = action_group a, phase = External a\<rparr>
      | None \<Rightarrow> \<lparr>name = n, group = [], phase = Draft\<rparr>)"

definition phaseAction :: "AssistantKeyCreationPhase \<Rightarrow> AssistantCreateKeyAction option" where
  "phaseAction p =
     (case p of External a \<Rightarrow> Some a | Reviewing a _ _ \<Rightarrow> Some a | Confirming a _ _ \<Rightarrow> Some a | _ \<Rightarrow> None)"

definition selectedGroup :: "AssistantKeyCreationState \<Rightarrow> AssistantSelectableGroup list \<Rightarrow> jsstr" where
  "selectedGroup s groups =
     (if phaseAction (phase s) \<noteq> None then group s
      else if \<exists>g \<in> set groups. group_id g = group s then group s
      else case groups of g # _ \<Rightarrow> group_id g | [] \<Rightarrow> [])"

section \<open>The contract of groups and actions\<close>

record key_env =
  parse_groups :: "jsval \<Rightarrow> (jsstr \<times> AssistantGroupWarning option) list option"
  parse_action :: "AssistantCreateKeyAction \<Rightarrow> AssistantCreateKeyAction option"
  collation_key :: "jsstr \<Rightarrow> int list"

text \<open>
  \<open>s.toLowerCase() === 'auto'\<close>: no character outside ASCII has one of these letters as its lower case.
\<close>

definition is_auto :: "jsstr \<Rightarrow> bool" where
  "is_auto s \<longleftrightarrow> map (\<lambda>c. if is_upper c then c + 32 else c) s = js ''auto''"

text \<open>One turn of the loop over the catalogue: the entry it sets, if it does not continue.\<close>

definition selectable_entry :: "jsstr \<times> AssistantGroupWarning option \<Rightarrow> AssistantSelectableGroup option" where
  "selectable_entry entry =
     (let rawId = fst entry; identifier = trim rawId
      in if identifier = [] \<or> identifier \<noteq> rawId \<or> is_auto identifier then None
         else Some \<lparr>group_id = identifier,
           group_warning =
             (case snd entry of Some w \<Rightarrow> if warning_enabled w then Some w else None | None \<Rightarrow> None)\<rparr>)"

definition selectableAssistantKeyGroups :: "key_env \<Rightarrow> jsval \<Rightarrow> AssistantSelectableGroup list" where
  "selectableAssistantKeyGroups env payload =
     (case parse_groups env payload of None \<Rightarrow> []
      | Some catalogue \<Rightarrow>
        sort_key (\<lambda>g. collation_key env (group_id g))
          (map snd (foldl (\<lambda>m g. map_put (group_id g) g m) []
            (List.map_filter selectable_entry (own_entries catalogue)))))"

definition isAuthoritativePreparedKeyAction ::
  "key_env \<Rightarrow> AssistantCreateKeyAction \<Rightarrow> AssistantSelectableGroup list \<Rightarrow> (jsstr \<times> jsstr) option \<Rightarrow> bool" where
  "isAuthoritativePreparedKeyAction env v liveGroups requested =
     (case parse_action env v of None \<Rightarrow> False
      | Some action \<Rightarrow>
        if \<not> (\<exists>g \<in> set liveGroups. group_id g = action_group action) then False
        else case requested of None \<Rightarrow> True
          | Some (n, g) \<Rightarrow> n = action_name action \<and> g = action_group action)"

section \<open>The hook\<close>

datatype operation = Prepare | Confirm

text \<open>Asynchronous callbacks at their \<open>await\<close>.\<close>

datatype task =
    Prepare_groups jsstr jsstr int
  | Prepare_server "AssistantSelectableGroup list" jsstr jsstr
  | Review_groups AssistantCreateKeyAction
  | Confirm_groups AssistantCreateKeyAction PreparedSource jsstr
  | Confirm_server

datatype effect =
    Refetch_groups
  | Send_prepare jsstr jsstr int
  | Send_confirm jsstr jsstr
  | Toast_error jsstr
  | Toast_success jsstr
  | On_key_created
  | On_key_preparation_invalid

record hook =
  machine :: AssistantKeyCreationState
  operationRef :: "operation option"
  externalTokenRef :: "jsstr option"
  autoAttemptedTokenRef :: "jsstr option"
  groups :: "AssistantSelectableGroup list"
  tasks :: "task list"
  effects :: "effect list"

definition INVALIDATING_CONFIRMATION_CODES :: "jsstr list" where
  "INVALIDATING_CONFIRMATION_CODES =
     [js ''ASSISTANT_KEY_CONFIRMATION_INVALID'', js ''ASSISTANT_INVALID_GROUP'',
      js ''ASSISTANT_GROUP_WARNING_CHANGED'']"

definition dispatch :: "CreationEvent \<Rightarrow> hook \<Rightarrow> hook" where
  "dispatch event h = h\<lparr>machine := reducer (machine h) event\<rparr>"

definition emit :: "effect \<Rightarrow> hook \<Rightarrow> hook" where
  "emit e h = h\<lparr>effects := effects h @ [e]\<rparr>"

definition start_task :: "operation \<Rightarrow> task \<Rightarrow> hook \<Rightarrow> hook" where
  "start_task op t h = emit Refetch_groups (h\<lparr>operationRef := Some op, tasks := tasks h @ [t]\<rparr>)"

text \<open>The \<open>finally\<close> of every callback, after which its task is gone.\<close>

definition finish_task :: "nat \<Rightarrow> hook \<Rightarrow> hook" where
  "finish_task i h = h\<lparr>operationRef := None, tasks := take i (tasks h) @ drop (Suc i) (tasks h)\<rparr>"

definition hook_start :: "jsstr \<Rightarrow> AssistantCreateKeyAction option \<Rightarrow> AssistantSelectableGroup list \<Rightarrow> hook" where
  "hook_start label action gs =
     \<lparr>machine = initialState label action, operationRef = None,
      externalTokenRef = map_option confirmation_token action, autoAttemptedTokenRef = None,
      groups = gs, tasks = [], effects = []\<rparr>"

text \<open>The effect that follows the prop \<open>confirmationAction\<close>.\<close>

definition external_effect :: "AssistantCreateKeyAction option \<Rightarrow> hook \<Rightarrow> hook" where
  "external_effect action h =
     (let nextToken = map_option confirmation_token action
      in if nextToken = externalTokenRef h then h
         else let h1 = h\<lparr>externalTokenRef := nextToken, autoAttemptedTokenRef := None\<rparr>
              in case action of
                   Some a \<Rightarrow> dispatch (Load_external a) h1
                 | None \<Rightarrow> dispatch Clear_external h1)"

definition loadLiveGroups :: "key_env \<Rightarrow> jsval \<Rightarrow> bool \<Rightarrow> jsstr + AssistantSelectableGroup list" where
  "loadLiveGroups env payload isError =
     (let liveGroups = selectableAssistantKeyGroups env payload
      in if isError then Inl (js ''Unable to load selectable key groups. Try again.'')
         else if liveGroups = [] then Inl (js ''No selectable key groups are available for this account.'')
         else Inr liveGroups)"

definition invalidateAction :: "jsstr \<Rightarrow> hook \<Rightarrow> hook" where
  "invalidateAction message h =
     emit (Toast_error message) (emit On_key_preparation_invalid (dispatch Reset h))"

definition prepareDraft :: "int \<Rightarrow> hook \<Rightarrow> hook" where
  "prepareDraft warningConfirmations h =
     (if operationRef h \<noteq> None then h
      else start_task Prepare
        (Prepare_groups (trim (name (machine h))) (selectedGroup (machine h) (groups h)) warningConfirmations) h)"

definition group_unavailable :: jsstr where
  "group_unavailable =
     js ''The selected key group is no longer available. Choose a current group and prepare again.''"

definition preparation_invalid :: jsstr where
  "preparation_invalid =
     js ''The server returned an invalid key preparation. Refresh the page and try again.''"

text \<open>\<open>prepareDraft\<close> after the groups were loaded, up to the request.\<close>

definition prepare_loaded ::
  "nat \<Rightarrow> jsstr \<Rightarrow> jsstr \<Rightarrow> int \<Rightarrow> jsstr + AssistantSelectableGroup list \<Rightarrow> hook \<Rightarrow> hook" where
  "prepare_loaded i n g warningConfirmations loaded h =
     (case loaded of
        Inl message \<Rightarrow> finish_task i (emit (Toast_error message) (dispatch Reset h))
      | Inr liveGroups \<Rightarrow>
        (case find (\<lambda>option. group_id option = g) liveGroups of
           None \<Rightarrow> finish_task i (emit (Toast_error group_unavailable) h)
         | Some selected \<Rightarrow>
           (case group_warning selected of
              Some w \<Rightarrow>
                if warning_enabled w \<and> warningConfirmations \<noteq> warning_confirmations w
                then finish_task i (dispatch (Show_warning w 0) h)
                else emit (Send_prepare n g warningConfirmations)
                  ((dispatch Start_preparing h)\<lparr>tasks := (tasks h)[i := Prepare_server liveGroups n g]\<rparr>)
            | None \<Rightarrow> emit (Send_prepare n g warningConfirmations)
                ((dispatch Start_preparing h)\<lparr>tasks := (tasks h)[i := Prepare_server liveGroups n g]\<rparr>))))"

text \<open>\<open>prepareDraft\<close> after the reply of the server.\<close>

definition prepare_replied ::
  "key_env \<Rightarrow> nat \<Rightarrow> AssistantSelectableGroup list \<Rightarrow> jsstr \<Rightarrow> jsstr \<Rightarrow> jsstr + AssistantCreateKeyAction \<Rightarrow> hook \<Rightarrow> hook" where
  "prepare_replied env i liveGroups n g reply h =
     finish_task i
       (case reply of
          Inl message \<Rightarrow> emit (Toast_error message) (dispatch Reset h)
        | Inr action \<Rightarrow>
          if \<not> isAuthoritativePreparedKeyAction env action liveGroups (Some (n, g))
          then invalidateAction preparation_invalid h
          else dispatch (Prepared action) h)"

definition review :: "hook \<Rightarrow> hook" where
  "review h =
     (case phase (machine h) of
        Draft \<Rightarrow> prepareDraft 0 h
      | External a \<Rightarrow> if operationRef h \<noteq> None then h else start_task Prepare (Review_groups a) h
      | _ \<Rightarrow> h)"

definition review_loaded ::
  "key_env \<Rightarrow> nat \<Rightarrow> AssistantCreateKeyAction \<Rightarrow> jsstr + AssistantSelectableGroup list \<Rightarrow> hook \<Rightarrow> hook" where
  "review_loaded env i a loaded h =
     finish_task i
       (case loaded of
          Inl message \<Rightarrow> emit (Toast_error message) h
        | Inr liveGroups \<Rightarrow>
          if \<not> isAuthoritativePreparedKeyAction env a liveGroups None then invalidateAction preparation_invalid h
          else dispatch (Review_external a) h)"

definition confirmAction :: "AssistantCreateKeyAction \<Rightarrow> PreparedSource \<Rightarrow> jsstr \<Rightarrow> hook \<Rightarrow> hook" where
  "confirmAction a src code h =
     (if operationRef h \<noteq> None then h else start_task Confirm (Confirm_groups a src code) h)"

text \<open>
  An error of a reply: the code when it is an \<open>AssistantRequestError\<close>, and the message.
\<close>

definition confirm_failed :: "nat \<Rightarrow> jsstr option \<Rightarrow> jsstr \<Rightarrow> hook \<Rightarrow> hook" where
  "confirm_failed i code message h =
     finish_task i
       (case code of
          Some c \<Rightarrow>
            if c \<in> set INVALIDATING_CONFIRMATION_CODES then invalidateAction message h
            else emit (Toast_error message) (dispatch Confirmation_failed h)
        | None \<Rightarrow> emit (Toast_error message) (dispatch Confirmation_failed h))"

definition confirm_loaded ::
  "key_env \<Rightarrow> nat \<Rightarrow> AssistantCreateKeyAction \<Rightarrow> PreparedSource \<Rightarrow> jsstr \<Rightarrow>
   jsstr + AssistantSelectableGroup list \<Rightarrow> hook \<Rightarrow> hook" where
  "confirm_loaded env i a src code loaded h =
     (case loaded of
        Inl message \<Rightarrow> confirm_failed i None message h
      | Inr liveGroups \<Rightarrow>
        if \<not> isAuthoritativePreparedKeyAction env a liveGroups None
        then finish_task i (invalidateAction group_unavailable h)
        else emit (Send_confirm (confirmation_token a) code)
          ((dispatch (Start_confirming a src code) h)\<lparr>tasks := (tasks h)[i := Confirm_server]\<rparr>))"

definition confirm_replied :: "nat \<Rightarrow> (jsstr option \<times> jsstr) + AssistantCreatedKey \<Rightarrow> hook \<Rightarrow> hook" where
  "confirm_replied i reply h =
     (case reply of
        Inl (code, message) \<Rightarrow> confirm_failed i code message h
      | Inr k \<Rightarrow>
        finish_task i
          (emit (Toast_success (js ''API key created'')) (emit On_key_created (dispatch (Key_created k) h))))"

definition confirm :: "hook \<Rightarrow> hook" where
  "confirm h =
     (case phase (machine h) of Reviewing a src code \<Rightarrow> confirmAction a src code h | _ \<Rightarrow> h)"

definition acknowledgeWarning :: "hook \<Rightarrow> hook" where
  "acknowledgeWarning h =
     (case phase (machine h) of
        Warning w confirmations \<Rightarrow>
          (let next = confirmations + 1
           in if next < warning_confirmations w then dispatch (Show_warning w next) h
              else prepareDraft next h)
      | _ \<Rightarrow> h)"

definition dismiss :: "hook \<Rightarrow> hook" where
  "dismiss h =
     (let action = phaseAction (phase (machine h)); h1 = dispatch Reset h
      in if action \<noteq> None then emit On_key_preparation_invalid h1 else h1)"

text \<open>The effect behind \<open>autoConfirm\<close>; the flag is the option of the hook.\<close>

definition auto_confirm_effect :: "bool \<Rightarrow> hook \<Rightarrow> hook" where
  "auto_confirm_effect autoConfirm h =
     (case phase (machine h) of
        External a \<Rightarrow>
          if \<not> autoConfirm \<or> autoAttemptedTokenRef h = Some (confirmation_token a) then h
          else confirmAction a External_source [] (h\<lparr>autoAttemptedTokenRef := Some (confirmation_token a)\<rparr>)
      | _ \<Rightarrow> h)"

datatype hook_event =
    Action_prop "AssistantCreateKeyAction option"
  | Auto_confirm bool
  | Name_typed jsstr
  | Group_chosen jsstr
  | Two_factor_typed jsstr
  | Review_clicked
  | Confirm_clicked
  | Warning_acknowledged
  | Dismissed
  | Groups_updated jsval
  | Groups_reply nat jsval bool
  | Prepare_reply nat "jsstr + AssistantCreateKeyAction"
  | Confirm_reply nat "(jsstr option \<times> jsstr) + AssistantCreatedKey"

definition groups_reply :: "key_env \<Rightarrow> nat \<Rightarrow> jsval \<Rightarrow> bool \<Rightarrow> hook \<Rightarrow> hook" where
  "groups_reply env i payload isError h =
     (let h1 = h\<lparr>groups := selectableAssistantKeyGroups env payload\<rparr>;
          loaded = loadLiveGroups env payload isError
      in if i < length (tasks h) then
           (case tasks h ! i of
              Prepare_groups n g w \<Rightarrow> prepare_loaded i n g w loaded h1
            | Review_groups a \<Rightarrow> review_loaded env i a loaded h1
            | Confirm_groups a src code \<Rightarrow> confirm_loaded env i a src code loaded h1
            | _ \<Rightarrow> h)
         else h)"

definition hook_step :: "key_env \<Rightarrow> hook_event \<Rightarrow> hook \<Rightarrow> hook" where
  "hook_step env event h =
     (case event of
        Action_prop a \<Rightarrow> external_effect a h
      | Auto_confirm enabled \<Rightarrow> auto_confirm_effect enabled h
      | Name_typed n \<Rightarrow> dispatch (Set_name n) h
      | Group_chosen g \<Rightarrow> dispatch (Set_group g) h
      | Two_factor_typed c \<Rightarrow> dispatch (Set_two_factor c) h
      | Review_clicked \<Rightarrow> review h
      | Confirm_clicked \<Rightarrow> confirm h
      | Warning_acknowledged \<Rightarrow> acknowledgeWarning h
      | Dismissed \<Rightarrow> dismiss h
      | Groups_updated payload \<Rightarrow> h\<lparr>groups := selectableAssistantKeyGroups env payload\<rparr>
      | Groups_reply i payload isError \<Rightarrow> groups_reply env i payload isError h
      | Prepare_reply i reply \<Rightarrow>
          if i < length (tasks h) then
            (case tasks h ! i of Prepare_server liveGroups n g \<Rightarrow> prepare_replied env i liveGroups n g reply h | _ \<Rightarrow> h)
          else h
      | Confirm_reply i reply \<Rightarrow>
          if i < length (tasks h) \<and> tasks h ! i = Confirm_server then confirm_replied i reply h else h)"

definition hook_run :: "key_env \<Rightarrow> hook_event list \<Rightarrow> hook \<Rightarrow> hook" where
  "hook_run env events h = foldl (\<lambda>h e. hook_step env e h) h events"

inductive hook_reachable :: "key_env \<Rightarrow> hook \<Rightarrow> bool" for env where
  start: "hook_reachable env (hook_start label action [])"
| step: "hook_reachable env h \<Longrightarrow> hook_reachable env (hook_step env event h)"

section \<open>What every step keeps\<close>

text \<open>The name and group shown are those of the action under review.\<close>

definition coherent :: "AssistantKeyCreationState \<Rightarrow> bool" where
  "coherent s \<longleftrightarrow>
     (\<forall>a. phaseAction (phase s) = Some a \<longrightarrow> name s = action_name a \<and> group s = action_group a)"

definition task_operation :: "task \<Rightarrow> operation" where
  "task_operation t =
     (case t of Prepare_groups _ _ _ \<Rightarrow> Prepare | Prepare_server _ _ _ \<Rightarrow> Prepare | Review_groups _ \<Rightarrow> Prepare
      | Confirm_groups _ _ _ \<Rightarrow> Confirm | Confirm_server \<Rightarrow> Confirm)"

text \<open>\<open>operationRef\<close> tells whether a callback is under way and which; there is never a second one.\<close>

definition exclusive :: "hook \<Rightarrow> bool" where
  "exclusive h \<longleftrightarrow>
     (case operationRef h of None \<Rightarrow> tasks h = [] | Some op \<Rightarrow> (\<exists>t. tasks h = [t] \<and> task_operation t = op))"

lemma reducer_coherent: "coherent s \<Longrightarrow> coherent (reducer s e)"
  by (cases e; cases "phase s")
    (simp_all add: coherent_def reducer_def reduceDraftEvent_def reducePreparationEvent_def
      reduceConfirmationEvent_def phaseAction_def)

lemma dispatch_simps [simp]:
  "machine (dispatch e h) = reducer (machine h) e" "operationRef (dispatch e h) = operationRef h"
  "tasks (dispatch e h) = tasks h" "effects (dispatch e h) = effects h" "groups (dispatch e h) = groups h"
  "autoAttemptedTokenRef (dispatch e h) = autoAttemptedTokenRef h"
  by (simp_all add: dispatch_def)

lemma emit_simps [simp]:
  "machine (emit e h) = machine h" "operationRef (emit e h) = operationRef h" "tasks (emit e h) = tasks h"
  "effects (emit e h) = effects h @ [e]" "groups (emit e h) = groups h"
  "autoAttemptedTokenRef (emit e h) = autoAttemptedTokenRef h"
  by (simp_all add: emit_def)

lemma start_task_simps [simp]:
  "machine (start_task op t h) = machine h" "operationRef (start_task op t h) = Some op"
  "tasks (start_task op t h) = tasks h @ [t]" "effects (start_task op t h) = effects h @ [Refetch_groups]"
  by (simp_all add: start_task_def)

lemma finish_task_simps [simp]:
  "machine (finish_task i h) = machine h" "operationRef (finish_task i h) = None"
  "tasks (finish_task i h) = take i (tasks h) @ drop (Suc i) (tasks h)" "effects (finish_task i h) = effects h"
  by (simp_all add: finish_task_def)

lemma invalidateAction_simps [simp]:
  "machine (invalidateAction m h) = reducer (machine h) Reset" "operationRef (invalidateAction m h) = operationRef h"
  "tasks (invalidateAction m h) = tasks h"
  "effects (invalidateAction m h) = effects h @ [On_key_preparation_invalid, Toast_error m]"
  by (simp_all add: invalidateAction_def)

lemmas callback_defs =
  prepareDraft_def confirmAction_def prepare_loaded_def prepare_replied_def review_loaded_def confirm_failed_def
  confirm_loaded_def confirm_replied_def

lemma exclusive_cases:
  assumes "exclusive h"
  obtains "operationRef h = None" "tasks h = []"
  | t where "operationRef h = Some (task_operation t)" "tasks h = [t]"
  using assms by (cases "operationRef h") (auto simp: exclusive_def)

lemma exclusiveI:
  "operationRef h = None \<Longrightarrow> tasks h = [] \<Longrightarrow> exclusive h"
  "operationRef h = Some op \<Longrightarrow> tasks h = [t] \<Longrightarrow> task_operation t = op \<Longrightarrow> exclusive h"
  by (simp_all add: exclusive_def)

text \<open>What a reply does to the only task: it ends the operation or turns to the request.\<close>

lemma groups_reply_task:
  assumes "tasks h = [t]" "operationRef h = Some (task_operation t)"
  shows "exclusive (groups_reply env i payload isError h)"
  using assms
  by (cases t; cases "i < length (tasks h)")
    (auto simp: groups_reply_def callback_defs Let_def exclusive_def task_operation_def
      split: sum.splits option.splits)

lemma coherent_groups_reply:
  "coherent (machine h) \<Longrightarrow> coherent (machine (groups_reply env i payload isError h))"
  by (auto simp: groups_reply_def callback_defs Let_def reducer_coherent
      split: task.splits sum.splits option.splits)

lemma step_exclusive:
  assumes "exclusive h"
  shows "exclusive (hook_step env event h)"
proof (cases event)
  case (Groups_reply i payload isError)
  show ?thesis
    using assms
  proof (cases rule: exclusive_cases)
    case 1
    then show ?thesis
      using assms Groups_reply by (simp add: hook_step_def groups_reply_def Let_def)
  next
    case (2 t)
    then show ?thesis
      using Groups_reply by (simp add: hook_step_def groups_reply_task)
  qed
next
  case (Prepare_reply i reply)
  with assms show ?thesis
    by (auto simp: hook_step_def prepare_replied_def exclusive_def
        split: task.splits option.splits sum.splits)
next
  case (Confirm_reply i reply)
  with assms show ?thesis
    by (auto simp: hook_step_def confirm_replied_def confirm_failed_def exclusive_def
        split: option.splits sum.splits)
qed (use assms in \<open>auto simp: hook_step_def external_effect_def auto_confirm_effect_def review_def confirm_def
      acknowledgeWarning_def dismiss_def prepareDraft_def confirmAction_def exclusive_def task_operation_def Let_def
      split: AssistantKeyCreationPhase.splits option.splits\<close>)

lemma step_coherent:
  assumes "coherent (machine h)"
  shows "coherent (machine (hook_step env event h))"
proof (cases event)
  case (Groups_reply i payload isError)
  with assms show ?thesis by (simp add: hook_step_def coherent_groups_reply)
next
  case (Prepare_reply i reply)
  with assms show ?thesis
    by (auto simp: hook_step_def prepare_replied_def reducer_coherent split: task.splits sum.splits)
next
  case (Confirm_reply i reply)
  with assms show ?thesis
    by (auto simp: hook_step_def confirm_replied_def confirm_failed_def reducer_coherent
        split: option.splits sum.splits)
qed (use assms in \<open>auto simp: hook_step_def external_effect_def auto_confirm_effect_def review_def confirm_def
      acknowledgeWarning_def dismiss_def prepareDraft_def confirmAction_def reducer_coherent Let_def
      split: AssistantKeyCreationPhase.splits option.splits\<close>)

lemma reachable_keeps: "hook_reachable env h \<Longrightarrow> exclusive h \<and> coherent (machine h)"
proof (induction rule: hook_reachable.induct)
  case (start label action)
  then show ?case
    by (auto simp: hook_start_def exclusive_def initialState_def coherent_def phaseAction_def split: option.splits)
next
  case (step h event)
  then show ?case by (simp add: step_exclusive step_coherent)
qed

section \<open>Requests\<close>

text \<open>The user, or the automatic confirmation, asks for the key of action \<open>a\<close>.\<close>

definition consents :: "hook \<Rightarrow> hook_event \<Rightarrow> AssistantCreateKeyAction \<Rightarrow> jsstr \<Rightarrow> bool" where
  "consents h event a code \<longleftrightarrow>
     (event = Confirm_clicked \<and> (\<exists>src. phase (machine h) = Reviewing a src code)) \<or>
     (event = Auto_confirm True \<and> phase (machine h) = External a \<and> code = [])"

text \<open>The review of a draft is asked for, or the last of \<open>k\<close> acknowledgements of a warning is given.\<close>

definition requests_preparation :: "hook \<Rightarrow> hook_event \<Rightarrow> jsstr \<Rightarrow> jsstr \<Rightarrow> int \<Rightarrow> bool" where
  "requests_preparation h event n g k \<longleftrightarrow>
     n = trim (name (machine h)) \<and> g = selectedGroup (machine h) (groups h) \<and>
     ((event = Review_clicked \<and> phase (machine h) = Draft \<and> k = 0) \<or>
      (event = Warning_acknowledged \<and>
        (\<exists>w. phase (machine h) = Warning w (k - 1) \<and> warning_confirmations w \<le> k)))"

lemma set_update_singleton: "x \<in> set (xs[i := y]) \<Longrightarrow> x \<in> set xs \<or> x = y"
  using set_update_subset_insert by fastforce

lemma set_finish: "x \<in> set (take i xs) \<or> x \<in> set (drop (Suc i) xs) \<Longrightarrow> x \<in> set xs"
  by (meson in_set_dropD in_set_takeD)

lemma groups_reply_tasks:
  "Confirm_groups a src code \<in> set (tasks (groups_reply env i payload isError h)) \<Longrightarrow>
     Confirm_groups a src code \<in> set (tasks h)"
  "Prepare_groups n g k \<in> set (tasks (groups_reply env i payload isError h)) \<Longrightarrow>
     Prepare_groups n g k \<in> set (tasks h)"
  by (auto simp: groups_reply_def callback_defs Let_def dest: set_update_singleton set_finish in_set_takeD in_set_dropD
      split: if_splits task.splits sum.splits option.splits)

lemma step_tasks:
  "Confirm_groups a src code \<in> set (tasks (hook_step env event h)) \<Longrightarrow>
     Confirm_groups a src code \<in> set (tasks h) \<or> consents h event a code"
  "Prepare_groups n g k \<in> set (tasks (hook_step env event h)) \<Longrightarrow>
     Prepare_groups n g k \<in> set (tasks h) \<or> requests_preparation h event n g k"
  by (cases event;
      auto simp: hook_step_def external_effect_def auto_confirm_effect_def review_def confirm_def
      acknowledgeWarning_def dismiss_def callback_defs Let_def consents_def requests_preparation_def
      dest: groups_reply_tasks in_set_takeD in_set_dropD
      split: if_splits task.splits sum.splits option.splits AssistantKeyCreationPhase.splits)+

lemma groups_reply_sends:
  "Send_confirm tok code \<in> set (effects (groups_reply env i payload isError h)) \<Longrightarrow>
     Send_confirm tok code \<in> set (effects h) \<or>
     (\<not> isError \<and> (\<exists>a src. Confirm_groups a src code \<in> set (tasks h) \<and> tok = confirmation_token a \<and>
        isAuthoritativePreparedKeyAction env a (selectableAssistantKeyGroups env payload) None))"
  "Send_prepare n g k \<in> set (effects (groups_reply env i payload isError h)) \<Longrightarrow>
     Send_prepare n g k \<in> set (effects h) \<or>
     (\<not> isError \<and> Prepare_groups n g k \<in> set (tasks h) \<and>
        (\<exists>live \<in> set (selectableAssistantKeyGroups env payload). group_id live = g \<and>
           (\<forall>w. group_warning live = Some w \<longrightarrow> warning_enabled w \<longrightarrow> k = warning_confirmations w)))"
  subgoal
    by (cases "i < length (tasks h)"; cases "tasks h ! i")
      (fastforce simp: groups_reply_def callback_defs loadLiveGroups_def Let_def
        dest: nth_mem split: if_splits sum.splits option.splits)+
  subgoal
    by (cases "i < length (tasks h)"; cases "tasks h ! i")
      (fastforce simp: groups_reply_def callback_defs loadLiveGroups_def Let_def find_Some_iff
        dest: nth_mem split: if_splits sum.splits option.splits)+
  done

text \<open>Nothing else sends a request.\<close>

lemma step_quiet:
  assumes "\<And>i payload isError. event \<noteq> Groups_reply i payload isError"
  shows "\<exists>new. effects (hook_step env event h) = effects h @ new \<and>
    (\<forall>e \<in> set new. \<forall>tok code n g k. e \<noteq> Send_confirm tok code \<and> e \<noteq> Send_prepare n g k)"
  using assms
  by (cases event)
    (auto simp: hook_step_def external_effect_def auto_confirm_effect_def review_def confirm_def
      acknowledgeWarning_def dismiss_def prepareDraft_def confirmAction_def prepare_replied_def confirm_replied_def
      confirm_failed_def Let_def
      split: task.splits sum.splits option.splits AssistantKeyCreationPhase.splits)

lemma step_sends:
  "Send_confirm tok code \<in> set (effects (hook_step env event h)) \<Longrightarrow>
     Send_confirm tok code \<in> set (effects h) \<or>
     (\<exists>i payload. event = Groups_reply i payload False \<and>
       (\<exists>a src. Confirm_groups a src code \<in> set (tasks h) \<and> tok = confirmation_token a \<and>
          isAuthoritativePreparedKeyAction env a (selectableAssistantKeyGroups env payload) None))"
  "Send_prepare n g k \<in> set (effects (hook_step env event h)) \<Longrightarrow>
     Send_prepare n g k \<in> set (effects h) \<or>
     (\<exists>i payload. event = Groups_reply i payload False \<and> Prepare_groups n g k \<in> set (tasks h) \<and>
        (\<exists>live \<in> set (selectableAssistantKeyGroups env payload). group_id live = g \<and>
           (\<forall>w. group_warning live = Some w \<longrightarrow> warning_enabled w \<longrightarrow> k = warning_confirmations w)))"
  subgoal
    using step_quiet [of event env h] groups_reply_sends(1)
    by (cases "\<exists>i payload isError. event = Groups_reply i payload isError") (fastforce simp: hook_step_def)+
  subgoal
    using step_quiet [of event env h] groups_reply_sends(2)
    by (cases "\<exists>i payload isError. event = Groups_reply i payload isError") (fastforce simp: hook_step_def)+
  done

section \<open>Runs\<close>

lemma hook_run_simps [simp]:
  "hook_run env [] h = h" "hook_run env (es @ [e]) h = hook_step env e (hook_run env es h)"
  by (simp_all add: hook_run_def)

lemma hook_run_Cons [simp]: "hook_run env (e # es) h = hook_run env es (hook_step env e h)"
  by (simp add: hook_run_def)

lemma hook_run_reachable: "hook_reachable env (hook_run env es (hook_start label action []))"
  by (induction es rule: rev_induct) (auto intro: hook_reachable.intros)

lemma task_origin:
  assumes "tasks h0 = []"
  shows "Confirm_groups a src code \<in> set (tasks (hook_run env es h0)) \<Longrightarrow>
      \<exists>es1 e es2. es = es1 @ e # es2 \<and> consents (hook_run env es1 h0) e a code"
    and "Prepare_groups n g k \<in> set (tasks (hook_run env es h0)) \<Longrightarrow>
      \<exists>es1 e es2. es = es1 @ e # es2 \<and> requests_preparation (hook_run env es1 h0) e n g k"
proof (induction es rule: rev_induct)
  case Nil
  { case 1 then show ?case using assms by simp }
  { case 2 then show ?case using assms by simp }
next
  case (snoc e es)
  { case 1
    then show ?case
      using step_tasks(1) [of a src code env e "hook_run env es h0"] snoc.IH(1)
      by (metis append.assoc append_Cons hook_run_simps(2)) }
  { case 2
    then show ?case
      using step_tasks(2) [of n g k env e "hook_run env es h0"] snoc.IH(2)
      by (metis append.assoc append_Cons hook_run_simps(2)) }
qed

lemma hook_start_simps [simp]: "tasks (hook_start label action gs) = []" "effects (hook_start label action gs) = []"
  by (simp_all add: hook_start_def)

section \<open>Sample runs\<close>

definition sample_warning :: "string \<Rightarrow> AssistantGroupWarning" where
  "sample_warning m =
     \<lparr>warning_enabled = True, warning_message = js m, warning_mode = Modal, warning_confirmations = 1\<rparr>"

text \<open>
  Catalogues of the sample: a text names the groups, one letter each; the groups \<open>a\<close> and \<open>b\<close> have different
  warnings.
\<close>

definition sample_catalogue :: "jsval \<Rightarrow> (jsstr \<times> AssistantGroupWarning option) list option" where
  "sample_catalogue payload =
     (case payload of
        Str s \<Rightarrow> Some (map (\<lambda>c. ([c],
          if c = 97 then Some (sample_warning ''first'') else if c = 98 then Some (sample_warning ''second'') else None)) s)
      | _ \<Rightarrow> None)"

definition sample_env :: key_env where
  "sample_env = \<lparr>parse_groups = sample_catalogue, parse_action = Some, collation_key = id\<rparr>"

definition sample_action :: "string \<Rightarrow> string \<Rightarrow> AssistantCreateKeyAction" where
  "sample_action tok g =
     \<lparr>confirmation_token = js tok, expires_in_seconds = Num 60, action_name = js ''k'', action_group = js g,
      conversation_id = None, ui_path = None\<rparr>"

abbreviation sample_start :: hook where
  "sample_start \<equiv> hook_start (js ''k'') None []"

text \<open>A group without a warning is prepared, reviewed and confirmed.\<close>

definition sample_run :: "hook_event list" where
  "sample_run =
     [Groups_updated (Str (js ''c'')), Review_clicked, Groups_reply 0 (Str (js ''c'')) False,
      Prepare_reply 0 (Inr (sample_action ''t'' ''c'')), Two_factor_typed (js ''7''), Confirm_clicked,
      Groups_reply 0 (Str (js ''c'')) False]"

text \<open>C14: The hook runs at most one asynchronous callback at a time and \<open>operationRef\<close> always tells which; the
  name and group shown are those of the action being reviewed or confirmed.\<close>

theorem key_creation_exclusive:
  assumes "hook_reachable env h"
  shows "length (tasks h) \<le> 1 \<and>
    operationRef h = (case tasks h of [] \<Rightarrow> None | t # _ \<Rightarrow> Some (task_operation t)) \<and> coherent (machine h)"
  using reachable_keeps [OF assms] by (auto elim: exclusive_cases)

theorem key_creation_exclusive_witness:
  "length (tasks (hook_run sample_env sample_run sample_start)) \<le> 1 \<and>
   tasks (hook_run sample_env sample_run sample_start) = [Confirm_server] \<and>
   phaseAction (phase (machine (hook_run sample_env sample_run sample_start))) = Some (sample_action ''t'' ''c'') \<and>
   name (machine (hook_run sample_env sample_run sample_start)) = js ''k''"
proof -
  have "tasks (hook_run sample_env sample_run sample_start) = [Confirm_server]"
    and "phaseAction (phase (machine (hook_run sample_env sample_run sample_start))) = Some (sample_action ''t'' ''c'')"
    by code_simp+
  with key_creation_exclusive [OF hook_run_reachable, of sample_env sample_run "js ''k''" None] show ?thesis
    by (simp add: coherent_def sample_action_def)
qed

text \<open>C10: A request that creates a key is sent only for an action that was confirmed in its review, or loaded from
  outside with automatic confirmation on, and whose group was then found among the groups just read from the
  server; it carries the token of that action and the code entered for it.\<close>

theorem key_request_has_consent:
  assumes "Send_confirm tok code \<in> set (effects (hook_run env es (hook_start label action [])))"
  shows "\<exists>es1 e es2 i payload es3 a.
    es = es1 @ e # es2 @ Groups_reply i payload False # es3 \<and>
    consents (hook_run env es1 (hook_start label action [])) e a code \<and> tok = confirmation_token a \<and>
    isAuthoritativePreparedKeyAction env a (selectableAssistantKeyGroups env payload) None"
  using assms
proof (induction es rule: rev_induct)
  case (snoc e es)
  let ?h = "hook_run env es (hook_start label action [])"
  consider "Send_confirm tok code \<in> set (effects ?h)"
    | i payload a src where "e = Groups_reply i payload False" "Confirm_groups a src code \<in> set (tasks ?h)"
      "tok = confirmation_token a"
      "isAuthoritativePreparedKeyAction env a (selectableAssistantKeyGroups env payload) None"
    using step_sends(1) [of tok code env e ?h] snoc.prems by auto
  then show ?case
  proof cases
    case 1
    from snoc.IH [OF 1] obtain es1 e1 es2 i payload es3 a where
      "es = es1 @ e1 # es2 @ Groups_reply i payload False # es3"
      "consents (hook_run env es1 (hook_start label action [])) e1 a code" "tok = confirmation_token a"
      "isAuthoritativePreparedKeyAction env a (selectableAssistantKeyGroups env payload) None"
      by (elim exE conjE)
    then show ?thesis
      by (intro exI [of _ es1] exI [of _ e1] exI [of _ es2] exI [of _ i] exI [of _ payload] exI [of _ "es3 @ [e]"]
          exI [of _ a]) simp
  next
    case 2
    then obtain es1 e1 es2 where "es = es1 @ e1 # es2"
      "consents (hook_run env es1 (hook_start label action [])) e1 a code"
      using task_origin(1) [of "hook_start label action []" a src code env es] by auto
    with 2 show ?thesis
      by (intro exI [of _ es1] exI [of _ e1] exI [of _ es2] exI [of _ i] exI [of _ payload] exI [of _ "[]"]
          exI [of _ a]) simp
  qed
qed simp

theorem key_request_has_consent_witness:
  "\<exists>es1 e es2 i payload es3 a.
    sample_run = es1 @ e # es2 @ Groups_reply i payload False # es3 \<and>
    consents (hook_run sample_env es1 sample_start) e a (js ''7'') \<and> js ''t'' = confirmation_token a \<and>
    isAuthoritativePreparedKeyAction sample_env a (selectableAssistantKeyGroups sample_env payload) None"
proof -
  have "Send_confirm (js ''t'') (js ''7'') \<in> set (effects (hook_run sample_env sample_run sample_start))"
    by code_simp
  then show ?thesis by (rule key_request_has_consent)
qed

text \<open>C13: A key is prepared only for a group that was just read from the server, under the name and group the form
  showed when the user asked for it; where that group carries a warning, the request follows an acknowledgement
  and reports exactly the number of confirmations the warning asks for.\<close>

theorem preparation_request_confirmed:
  assumes "Send_prepare n g k \<in> set (effects (hook_run env es (hook_start label action [])))"
  shows "\<exists>es1 e es2 i payload es3 live.
    es = es1 @ e # es2 @ Groups_reply i payload False # es3 \<and>
    requests_preparation (hook_run env es1 (hook_start label action [])) e n g k \<and>
    live \<in> set (selectableAssistantKeyGroups env payload) \<and> group_id live = g \<and>
    (\<forall>w. group_warning live = Some w \<longrightarrow> warning_enabled w \<longrightarrow> k = warning_confirmations w)"
  using assms
proof (induction es rule: rev_induct)
  case (snoc e es)
  let ?h = "hook_run env es (hook_start label action [])"
  consider "Send_prepare n g k \<in> set (effects ?h)"
    | i payload live where "e = Groups_reply i payload False" "Prepare_groups n g k \<in> set (tasks ?h)"
      "live \<in> set (selectableAssistantKeyGroups env payload)" "group_id live = g"
      "\<forall>w. group_warning live = Some w \<longrightarrow> warning_enabled w \<longrightarrow> k = warning_confirmations w"
    using step_sends(2) [of n g k env e ?h] snoc.prems by auto
  then show ?case
  proof cases
    case 1
    from snoc.IH [OF 1] obtain es1 e1 es2 i payload es3 live where
      "es = es1 @ e1 # es2 @ Groups_reply i payload False # es3"
      "requests_preparation (hook_run env es1 (hook_start label action [])) e1 n g k"
      "live \<in> set (selectableAssistantKeyGroups env payload)" "group_id live = g"
      "\<forall>w. group_warning live = Some w \<longrightarrow> warning_enabled w \<longrightarrow> k = warning_confirmations w"
      by (elim exE conjE)
    then show ?thesis
      by (intro exI [of _ es1] exI [of _ e1] exI [of _ es2] exI [of _ i] exI [of _ payload] exI [of _ "es3 @ [e]"]
          exI [of _ live]) simp
  next
    case 2
    then obtain es1 e1 es2 where "es = es1 @ e1 # es2"
      "requests_preparation (hook_run env es1 (hook_start label action [])) e1 n g k"
      using task_origin(2) [of "hook_start label action []" n g k env es] by auto
    with 2 show ?thesis
      by (intro exI [of _ es1] exI [of _ e1] exI [of _ es2] exI [of _ i] exI [of _ payload] exI [of _ "[]"]
          exI [of _ live]) simp
  qed
qed simp

theorem preparation_request_confirmed_witness:
  "\<exists>es1 e es2 i payload es3 live.
    [Groups_updated (Str (js ''b'')), Review_clicked, Groups_reply 0 (Str (js ''b'')) False, Warning_acknowledged,
     Groups_reply 0 (Str (js ''b'')) False] = es1 @ e # es2 @ Groups_reply i payload False # es3 \<and>
    requests_preparation (hook_run sample_env es1 sample_start) e (js ''k'') (js ''b'') 1 \<and>
    live \<in> set (selectableAssistantKeyGroups sample_env payload) \<and> group_id live = js ''b'' \<and>
    (\<forall>w. group_warning live = Some w \<longrightarrow> warning_enabled w \<longrightarrow> 1 = warning_confirmations w)"
proof -
  have "Send_prepare (js ''k'') (js ''b'') 1 \<in> set (effects (hook_run sample_env
    [Groups_updated (Str (js ''b'')), Review_clicked, Groups_reply 0 (Str (js ''b'')) False, Warning_acknowledged,
     Groups_reply 0 (Str (js ''b'')) False] sample_start))"
    by code_simp
  then show ?thesis by (rule preparation_request_confirmed)
qed

lemma groups_reply_after:
  "tasks h = [t] \<Longrightarrow> tasks (groups_reply env 0 payload isError h) = [] \<or>
     (\<exists>live n g. tasks (groups_reply env 0 payload isError h) = [Prepare_server live n g]) \<or>
     tasks (groups_reply env 0 payload isError h) = [Confirm_server]"
  by (cases t) (auto simp: groups_reply_def callback_defs Let_def split: sum.splits option.splits)

lemma server_reply_after:
  "tasks h = [Prepare_server live n g] \<Longrightarrow> tasks (hook_step env (Prepare_reply 0 r) h) = []"
  "tasks h = [Confirm_server] \<Longrightarrow> tasks (hook_step env (Prepare_reply 0 r) h) = [Confirm_server]"
  "tasks h = [Confirm_server] \<Longrightarrow> tasks (hook_step env (Confirm_reply 0 r') h) = []"
  "tasks h = [] \<Longrightarrow> hook_step env (Prepare_reply 0 r) h = h" "tasks h = [] \<Longrightarrow> hook_step env (Confirm_reply 0 r') h = h"
  by (simp_all add: hook_step_def prepare_replied_def confirm_replied_def confirm_failed_def
      split: sum.splits option.splits prod.splits)

text \<open>C30: Whatever the replies are, once the groups and the server have answered no operation is left under way, so
  the next review or confirmation is not refused.\<close>

theorem key_operation_ends:
  assumes "hook_reachable env h"
  shows "operationRef (hook_run env [Groups_reply 0 payload isError, Prepare_reply 0 r, Confirm_reply 0 r'] h) = None"
proof -
  let ?h1 = "hook_step env (Groups_reply 0 payload isError) h"
  let ?h2 = "hook_step env (Prepare_reply 0 r) ?h1"
  let ?h3 = "hook_step env (Confirm_reply 0 r') ?h2"
  have ex: "exclusive h"
    using reachable_keeps [OF assms] by simp
  have "tasks ?h1 = [] \<or> (\<exists>live n g. tasks ?h1 = [Prepare_server live n g]) \<or> tasks ?h1 = [Confirm_server]"
    using ex
  proof (cases rule: exclusive_cases)
    case 1
    then show ?thesis by (simp add: hook_step_def groups_reply_def Let_def)
  next
    case (2 t)
    then show ?thesis using groups_reply_after [of h t] by (simp add: hook_step_def)
  qed
  then have "tasks ?h2 = [] \<or> tasks ?h2 = [Confirm_server]"
    by (elim disjE exE) (simp_all add: server_reply_after)
  then have "tasks ?h3 = []"
    by (elim disjE) (simp_all add: server_reply_after)
  moreover have "exclusive ?h3"
    using ex by (intro step_exclusive)
  ultimately have "operationRef ?h3 = None"
    by (auto elim: exclusive_cases)
  then show ?thesis by simp
qed

theorem key_operation_ends_witness:
  "operationRef (hook_run sample_env [Groups_updated (Str (js ''c'')), Review_clicked] sample_start) = Some Prepare \<and>
   operationRef (hook_run sample_env [Groups_reply 0 (Str (js ''c'')) False,
     Prepare_reply 0 (Inl (js ''no'')), Confirm_reply 0 (Inl (None, []))]
     (hook_run sample_env [Groups_updated (Str (js ''c'')), Review_clicked] sample_start)) = None"
proof
  show "operationRef (hook_run sample_env [Groups_updated (Str (js ''c'')), Review_clicked] sample_start) = Some Prepare"
    by code_simp
  show "operationRef (hook_run sample_env [Groups_reply 0 (Str (js ''c'')) False,
     Prepare_reply 0 (Inl (js ''no'')), Confirm_reply 0 (Inl (None, []))]
     (hook_run sample_env [Groups_updated (Str (js ''c'')), Review_clicked] sample_start)) = None"
    by (rule key_operation_ends [OF hook_run_reachable])
qed

section \<open>Warnings\<close>

text \<open>The schema of the catalogue asks for one to three confirmations of a warning.\<close>

definition confirmations_bounded :: "key_env \<Rightarrow> bool" where
  "confirmations_bounded env \<longleftrightarrow>
     (\<forall>payload catalogue. parse_groups env payload = Some catalogue \<longrightarrow>
        (\<forall>(rawId, warning) \<in> set catalogue. \<forall>w. warning = Some w \<longrightarrow>
           1 \<le> warning_confirmations w \<and> warning_confirmations w \<le> 3))"

definition warning_ok :: "AssistantKeyCreationPhase \<Rightarrow> bool" where
  "warning_ok p \<longleftrightarrow>
     (case p of Warning w c \<Rightarrow> 0 \<le> c \<and> c < warning_confirmations w \<and> warning_confirmations w \<le> 3 | _ \<Rightarrow> True)"

lemma foldl_map_put_snd:
  "set (map snd (foldl (\<lambda>m g. map_put (f g) g m) m0 xs)) \<subseteq> set (map snd m0) \<union> set xs"
proof (induction xs arbitrary: m0)
  case (Cons x xs)
  have put: "set (map snd (map_put k v m)) \<subseteq> insert v (set (map snd m))" for k v and m :: "('b \<times> 'a) list"
    by (induction k v m rule: map_put.induct) auto
  show ?case
    using Cons.IH [of "map_put (f x) x m0"] put [of "f x" x m0] by auto
qed simp

lemma selectable_warning:
  assumes "confirmations_bounded env" "live \<in> set (selectableAssistantKeyGroups env payload)"
    "group_warning live = Some w"
  shows "1 \<le> warning_confirmations w \<and> warning_confirmations w \<le> 3"
proof (cases "parse_groups env payload")
  case None
  with assms(2) show ?thesis by (simp add: selectableAssistantKeyGroups_def)
next
  case (Some catalogue)
  let ?gs = "List.map_filter selectable_entry (own_entries catalogue)"
  have "live \<in> set (map snd (foldl (\<lambda>m g. map_put (group_id g) g m) [] ?gs))"
    using assms(2) Some by (simp add: selectableAssistantKeyGroups_def)
  then have "live \<in> set ?gs"
    using foldl_map_put_snd [of group_id "[]" ?gs] by auto
  then obtain rawId warning where entry: "(rawId, warning) \<in> set catalogue" "selectable_entry (rawId, warning) = Some live"
    by (auto simp: List.map_filter_def)
  then have "warning = Some w"
    using assms(3) by (auto simp: selectable_entry_def Let_def split: if_splits option.splits)
  with entry(1) Some assms(1) show ?thesis
    unfolding confirmations_bounded_def by blast
qed

lemma reducer_warning:
  assumes "warning_ok (phase s)" and "\<And>w c. e \<noteq> Show_warning w c"
  shows "warning_ok (phase (reducer s e))"
  using assms
  by (cases e; cases "phase s")
    (simp_all add: warning_ok_def reducer_def reduceDraftEvent_def reducePreparationEvent_def reduceConfirmationEvent_def)

lemma reducer_show_warning [simp]: "phase (reducer s (Show_warning w c)) = Warning w c"
  by (simp add: reducer_def reduceDraftEvent_def reducePreparationEvent_def)

lemmas dispatch_warning =
  reducer_warning [where e = "Set_name n" for n, simplified] reducer_warning [where e = "Set_group g" for g, simplified]
  reducer_warning [where e = "Load_external a" for a, simplified] reducer_warning [where e = Clear_external, simplified]
  reducer_warning [where e = Start_preparing, simplified] reducer_warning [where e = "Prepared a" for a, simplified]
  reducer_warning [where e = "Review_external a" for a, simplified]
  reducer_warning [where e = "Start_confirming a src c" for a src c, simplified]
  reducer_warning [where e = "Set_two_factor c" for c, simplified]
  reducer_warning [where e = Confirmation_failed, simplified] reducer_warning [where e = "Key_created k" for k, simplified]
  reducer_warning [where e = Reset, simplified]

lemma new_warning:
  assumes "confirmations_bounded env" "find P (selectableAssistantKeyGroups env payload) = Some live"
    "group_warning live = Some w"
  shows "warning_ok (Warning w 0)"
proof -
  have "live \<in> set (selectableAssistantKeyGroups env payload)"
    using assms(2) by (metis find_Some_iff nth_mem)
  from selectable_warning [OF assms(1) this assms(3)] show ?thesis
    by (simp add: warning_ok_def)
qed

lemma callback_machine [simp]:
  "machine (prepareDraft k h) = machine h" "machine (confirmAction a src code h) = machine h"
  by (simp_all add: prepareDraft_def confirmAction_def)

lemma callbacks_machine [simp]:
  "machine (review h) = machine h" "machine (confirm h) = machine h" "machine (auto_confirm_effect b h) = machine h"
  by (cases "phase (machine h)"; simp add: review_def confirm_def auto_confirm_effect_def)+

lemma confirm_failed_warning:
  "warning_ok (phase (machine h)) \<Longrightarrow> warning_ok (phase (machine (confirm_failed i code m h)))"
  by (cases code) (simp_all add: confirm_failed_def dispatch_warning)

lemma prepare_loaded_warning:
  assumes "warning_ok (phase (machine h))"
    and "\<And>gs live w. loaded = Inr gs \<Longrightarrow> find (\<lambda>option. group_id option = g) gs = Some live \<Longrightarrow>
      group_warning live = Some w \<Longrightarrow> warning_ok (Warning w 0)"
  shows "warning_ok (phase (machine (prepare_loaded i n g k loaded h)))"
proof (cases loaded)
  case (Inr live)
  show ?thesis
  proof (cases "find (\<lambda>option. group_id option = g) live")
    case (Some selected)
    then show ?thesis
      using Inr assms by (cases "group_warning selected") (simp_all add: prepare_loaded_def dispatch_warning)
  qed (use Inr assms(1) in \<open>simp add: prepare_loaded_def\<close>)
qed (use assms(1) in \<open>simp add: prepare_loaded_def dispatch_warning\<close>)

lemma groups_reply_warning:
  assumes "confirmations_bounded env" "warning_ok (phase (machine h))"
  shows "warning_ok (phase (machine (groups_reply env i payload isError h)))"
proof (cases "i < length (tasks h)")
  case True
  let ?h = "h\<lparr>groups := selectableAssistantKeyGroups env payload\<rparr>" and ?l = "loadLiveGroups env payload isError"
  have h: "warning_ok (phase (machine ?h))" using assms(2) by simp
  have live: "?l = Inr gs \<Longrightarrow> gs = selectableAssistantKeyGroups env payload" for gs
    by (simp add: loadLiveGroups_def Let_def split: if_splits)
  show ?thesis
  proof (cases "tasks h ! i")
    case (Prepare_groups n g k)
    have "warning_ok (phase (machine (prepare_loaded i n g k ?l ?h)))"
      using h live new_warning [OF assms(1)] by (cases ?l) (auto intro!: prepare_loaded_warning)
    with True Prepare_groups show ?thesis by (simp add: groups_reply_def Let_def)
  next
    case (Review_groups a)
    have "warning_ok (phase (machine (review_loaded env i a ?l ?h)))"
      using h by (cases ?l) (simp_all add: review_loaded_def dispatch_warning)
    with True Review_groups show ?thesis by (simp add: groups_reply_def Let_def)
  next
    case (Confirm_groups a src code)
    have "warning_ok (phase (machine (confirm_loaded env i a src code ?l ?h)))"
      using h by (cases ?l) (simp_all add: confirm_loaded_def confirm_failed_warning dispatch_warning)
    with True Confirm_groups show ?thesis by (simp add: groups_reply_def Let_def)
  qed (use assms(2) in \<open>simp_all add: groups_reply_def Let_def\<close>)
qed (use assms(2) in \<open>simp add: groups_reply_def Let_def\<close>)

lemma step_warning:
  assumes "confirmations_bounded env" "warning_ok (phase (machine h))"
  shows "warning_ok (phase (machine (hook_step env event h)))"
proof (cases event)
  case (Groups_reply i payload isError)
  then show ?thesis using groups_reply_warning [OF assms] by (simp add: hook_step_def)
next
  case Warning_acknowledged
  with assms(2) show ?thesis
    by (cases "phase (machine h)") (simp_all add: hook_step_def acknowledgeWarning_def Let_def warning_ok_def)
next
  case (Prepare_reply i reply)
  with assms(2) show ?thesis
    by (cases reply; cases "tasks h ! i") (simp_all add: hook_step_def prepare_replied_def dispatch_warning)
next
  case (Confirm_reply i reply)
  with assms(2) show ?thesis
    by (cases reply) (simp_all add: hook_step_def confirm_replied_def confirm_failed_warning dispatch_warning
        split: prod.splits)
next
  case (Action_prop a)
  with assms(2) show ?thesis
    by (cases a) (simp_all add: hook_step_def external_effect_def Let_def dispatch_warning)
qed (use assms(2) in \<open>simp_all add: hook_step_def dismiss_def Let_def dispatch_warning\<close>)

text \<open>While a warning is shown, the acknowledgements already given are fewer than the warning asks for, and it
  asks for three at most.\<close>

lemma warning_count_bounded:
  assumes "confirmations_bounded env" and "hook_reachable env h" and "phase (machine h) = Warning w c"
  shows "0 \<le> c \<and> c < warning_confirmations w \<and> warning_confirmations w \<le> 3"
proof -
  from assms(2) have "warning_ok (phase (machine h))"
  proof (induction rule: hook_reachable.induct)
    case (start label action)
    then show ?case by (simp add: hook_start_def initialState_def warning_ok_def split: option.splits)
  next
    case (step h event)
    then show ?case using step_warning [OF assms(1)] by simp
  qed
  with assms(3) show ?thesis by (simp add: warning_ok_def)
qed

lemma sample_confirmations: "confirmations_bounded sample_env"
  by (auto simp: confirmations_bounded_def sample_env_def sample_catalogue_def sample_warning_def split: jsval.splits if_splits)

section \<open>Races\<close>


definition overlapping_run :: "hook_event list" where
  "overlapping_run =
     [Groups_updated (Str (js ''c'')), Auto_confirm True, Groups_reply 0 (Str (js ''c'')) False,
      Action_prop (Some (sample_action ''u'' ''c'')), Auto_confirm True, Confirm_reply 0 (Inl (None, js ''no''))]"


end
