(* ===== verification/Settlement.thy ===== *)
theory Settlement
  imports JsValue
begin

text \<open>
  What a payment costs: server quotes (\<open>features/wallet/lib/settlement-quote.ts\<close>), the settlement
  metadata of a payment method (\<open>payment-unit.ts\<close>, \<open>lib/payment-pricing.ts\<close>) and the discount of a
  checkout (\<open>discount-state.ts\<close>).

  Responses and payment methods are values as they arrive, read with \<open>get_prop\<close>. Strings that the declared types
  promise are read as such: a value of another type counts as absent. Formatting through
  \<open>Intl.NumberFormat\<close> is left out.
\<close>

section \<open>Quotes\<close>

text \<open>\<open>/^[0-9]+(?:\.[0-9]+)?$/\<close>.\<close>

definition plain_decimal :: "jsstr \<Rightarrow> bool" where
  "plain_decimal s \<longleftrightarrow>
     (let r = dropWhile is_digit s
      in takeWhile is_digit s \<noteq> [] \<and>
         (case r of [] \<Rightarrow> True | c # fs \<Rightarrow> c = 46 \<and> fs \<noteq> [] \<and> list_all is_digit fs))"

record SettlementQuote =
  quote_amount :: jsstr
  quote_currency :: jsstr
  quote_originalAmount :: "jsstr option"
  quote_savingsAmount :: "jsstr option"

definition is_positive_decimal :: "jsstr \<Rightarrow> bool" where
  "is_positive_decimal s \<longleftrightarrow> plain_decimal s \<and> is_finite (to_number s) \<and> \<not> num_le (to_number s) (Num 0)"

definition readOptionalSettlementAmount :: "jsval \<Rightarrow> jsstr option" where
  "readOptionalSettlementAmount v =
     (case v of Str s \<Rightarrow> if is_positive_decimal s then Some s else None | _ \<Rightarrow> None)"

definition parseSettlementQuote :: "jsval \<Rightarrow> SettlementQuote option" where
  "parseSettlementQuote v =
     (if \<not> is_object v then None
      else let amount = get_prop v (js ''amount''); currency = get_prop v (js ''currency'')
           in if \<not> is_Str amount \<or> \<not> is_positive_decimal (str_of amount)
                 \<or> (currency \<noteq> Str (js ''CNY'') \<and> currency \<noteq> Str (js ''USD'')) then None
              else let originalAmount = readOptionalSettlementAmount (get_prop v (js ''originalAmount''));
                       savingsAmount = readOptionalSettlementAmount (get_prop v (js ''savingsAmount''))
                   in if (case originalAmount of Some o' \<Rightarrow> num_lt (to_number o') (to_number (str_of amount)) | None \<Rightarrow> False)
                         \<or> (case savingsAmount of Some s \<Rightarrow> num_le (to_number s) (Num 0) | None \<Rightarrow> False) then None
                      else Some \<lparr>quote_amount = str_of amount, quote_currency = str_of currency,
                        quote_originalAmount = originalAmount, quote_savingsAmount = savingsAmount\<rparr>)"

definition getAvailableSettlementQuote :: "jsval \<Rightarrow> SettlementQuote option" where
  "getAvailableSettlementQuote v =
     (if \<not> is_object v \<or> get_prop v (js ''available'') \<noteq> Bool True then None else parseSettlementQuote v)"

definition formatSettlementQuote :: "SettlementQuote \<Rightarrow> jsstr" where
  "formatSettlementQuote q = quote_amount q @ [32] @ quote_currency q"

definition expectedSettlement :: "SettlementQuote \<Rightarrow> (jsstr \<times> jsval) list" where
  "expectedSettlement q =
     [(js ''settlement_amount'', Str (quote_amount q)), (js ''settlement_currency'', Str (quote_currency q))]"

lemma size_get_prop:
  assumes "get_prop v k \<noteq> Undefined"
  shows "size (get_prop v k) < size v"
proof (cases v)
  case (Obj ps)
  with assms obtain x where x: "map_of ps k = Some x" "get_prop v k = x"
    by (cases "map_of ps k") simp_all
  have "(k, x) \<in> set ps" using x by (simp add: map_of_SomeD)
  then have "size_prod (\<lambda>_. 0) size (k, x) \<le> size_list (size_prod (\<lambda>_. 0) size) ps"
    by (rule size_list_estimation') simp
  with Obj x show ?thesis by simp
qed (use assms in simp_all)

lemma size_response_data:
  assumes "get_prop (get_prop v a) b \<noteq> Undefined"
  shows "size (get_prop (get_prop v a) b) < size v"
proof -
  have "get_prop v a \<noteq> Undefined" using assms by auto
  from less_trans [OF size_get_prop [OF assms] size_get_prop [OF this]] show ?thesis .
qed

text \<open>
  A \<open>SettlementQuoteChangedError\<close> is an object whose \<open>message\<close> is the code, as its constructor sets it, so
  the test of the class is covered by the test of the message.
\<close>

definition quote_changed :: jsval where
  "quote_changed = Str (js ''SETTLEMENT_QUOTE_CHANGED'')"

function isSettlementQuoteChanged :: "jsval \<Rightarrow> bool" where
  "isSettlementQuoteChanged v =
     (if \<not> is_object v then False
      else get_prop v (js ''code'') = quote_changed \<or> get_prop v (js ''message'') = quote_changed
        \<or> get_prop (get_prop v (js ''error'')) (js ''code'') = quote_changed
        \<or> (if get_prop (get_prop v (js ''response'')) (js ''data'') = Undefined then False
            else isSettlementQuoteChanged (get_prop (get_prop v (js ''response'')) (js ''data''))))"
  by pat_completeness auto
termination
  by (relation "measure size") (simp_all add: size_response_data del: get_prop_simps)

declare isSettlementQuoteChanged.simps [simp del]

section \<open>Payment methods\<close>

definition DEDICATED_PAYMENT_PRICING_TYPES :: "jsstr list" where
  "DEDICATED_PAYMENT_PRICING_TYPES =
     [js ''stripe'', js ''waffo'', js ''waffo_pancake'', js ''alipay'', js ''wxpay'']"

definition usesDedicatedPaymentPricing :: "jsval \<Rightarrow> bool" where
  "usesDedicatedPaymentPricing t \<longleftrightarrow> truthy_val t \<and> t \<in> set (map Str DEDICATED_PAYMENT_PRICING_TYPES)"

definition platformUnitsToUsd :: "number \<Rightarrow> number \<Rightarrow> number" where
  "platformUnitsToUsd amount platformUnitsPerUSD =
     (if \<not> is_finite amount \<or> num_lt amount (Num 0) \<or> \<not> is_finite platformUnitsPerUSD
         \<or> num_le platformUnitsPerUSD (Num 0) then NaN
      else num_div amount platformUnitsPerUSD)"

text \<open>\<open>/^[A-Za-z0-9._-]{1,16}$/\<close>.\<close>

definition settlement_unit_ok :: "jsstr \<Rightarrow> bool" where
  "settlement_unit_ok s \<longleftrightarrow>
     1 \<le> length s \<and> length s \<le> 16 \<and>
     list_all (\<lambda>c. is_upper c \<or> is_lower c \<or> is_digit c \<or> c = 46 \<or> c = 95 \<or> c = 45) s"

datatype settlement_source = Explicit_usd_rates | Legacy_unit_price | Legacy_usd_price_ratio

record PaymentSettlementMetadata =
  currencyCode :: jsstr
  platformUnitsPerUsd :: number
  settlementUnitsPerUsd :: number
  meta_source :: settlement_source

definition parsePositiveDecimal :: "jsval \<Rightarrow> number option" where
  "parsePositiveDecimal v =
     (case v of
        Str s \<Rightarrow>
          if \<not> plain_decimal s then None
          else let parsed = to_number s
               in if is_finite parsed \<and> num_gt parsed (Num 0) then Some parsed else None
      | Number n \<Rightarrow> if is_finite n \<and> num_gt n (Num 0) then Some n else None
      | _ \<Rightarrow> None)"

definition getPaymentMaxTopup :: "jsval \<Rightarrow> number option" where
  "getPaymentMaxTopup m = parsePositiveDecimal (get_prop m (js ''max_topup''))"

definition getPaymentMaxTopupAmount :: "jsval \<Rightarrow> number option" where
  "getPaymentMaxTopupAmount m = parsePositiveDecimal (get_prop m (js ''max_topup_amount''))"

definition getPaymentTopupRatio :: "jsval \<Rightarrow> number" where
  "getPaymentTopupRatio m =
     (if usesDedicatedPaymentPricing (get_prop m (js ''type'')) then Num 1
      else case get_prop m (js ''topup_ratio'') of
        Str s \<Rightarrow>
          if \<not> plain_decimal s then Num 1
          else let parsedRatio = to_number s
               in if is_finite parsedRatio \<and> num_gt parsedRatio (Num 0) then parsedRatio else Num 1
      | Number n \<Rightarrow> if is_finite n \<and> num_gt n (Num 0) then n else Num 1
      | _ \<Rightarrow> Num 1)"

text \<open>\<open>toUpperCase\<close> of a text that passed the pattern, so of ASCII characters.\<close>

definition upper_ascii :: "jsstr \<Rightarrow> jsstr" where
  "upper_ascii s = map (\<lambda>c. if is_lower c then c - 32 else c) s"

definition preferred_metadata :: "jsval \<Rightarrow> bool" where
  "preferred_metadata m \<longleftrightarrow>
     get_prop m (js ''platform_units_per_usd'') \<noteq> Undefined \<or> get_prop m (js ''settlement_units_per_usd'') \<noteq> Undefined"

definition method_currency :: "jsval \<Rightarrow> jsstr" where
  "method_currency m = str_of (coalesce (get_prop m (js ''settlement_currency'')) (get_prop m (js ''settlement_unit'')))"

definition getPaymentSettlementMetadata :: "jsval \<Rightarrow> bool \<Rightarrow> PaymentSettlementMetadata option" where
  "getPaymentSettlementMetadata m includeDedicated =
     (if \<not> includeDedicated \<and> usesDedicatedPaymentPricing (get_prop m (js ''type'')) then None
      else let code = method_currency m
      in if preferred_metadata m then
           (case (parsePositiveDecimal (get_prop m (js ''platform_units_per_usd'')),
                  parsePositiveDecimal (get_prop m (js ''settlement_units_per_usd''))) of
              (Some p, Some s) \<Rightarrow>
                if code = [] \<or> \<not> settlement_unit_ok code then None
                else Some \<lparr>currencyCode = upper_ascii code, platformUnitsPerUsd = p, settlementUnitsPerUsd = s,
                  meta_source = Explicit_usd_rates\<rparr>
            | _ \<Rightarrow> None)
         else
           let explicitDirectRate = parsePositiveDecimal (get_prop m (js ''settlement_units_per_platform_unit''));
               legacyDirectRate = parsePositiveDecimal (get_prop m (js ''unit_price''))
           in if (case (explicitDirectRate, legacyDirectRate) of
                    (Some e, Some l) \<Rightarrow> \<not> num_eq e l | _ \<Rightarrow> False) then None
              else (case (case explicitDirectRate of Some e \<Rightarrow> Some e | None \<Rightarrow> legacyDirectRate) of
                 None \<Rightarrow> None
               | Some rate \<Rightarrow>
                 if code = [] \<or> \<not> settlement_unit_ok code then None
                 else Some \<lparr>currencyCode = upper_ascii code, platformUnitsPerUsd = Num 1, settlementUnitsPerUsd = rate,
                   meta_source = Legacy_unit_price\<rparr>))"

definition calculateSettlementAmount :: "number \<Rightarrow> PaymentSettlementMetadata \<Rightarrow> number" where
  "calculateSettlementAmount platformAmount d =
     num_mul (num_div platformAmount (platformUnitsPerUsd d)) (settlementUnitsPerUsd d)"

definition createLegacyUsdSettlementMetadata :: "number \<Rightarrow> PaymentSettlementMetadata" where
  "createLegacyUsdSettlementMetadata rate =
     \<lparr>currencyCode = js ''USD'', platformUnitsPerUsd = Num 1,
      settlementUnitsPerUsd = (if is_finite rate \<and> num_gt rate (Num 0) then rate else Num 1),
      meta_source = Legacy_usd_price_ratio\<rparr>"

definition getPaymentSettlementUnit :: "jsval \<Rightarrow> bool \<Rightarrow> (jsstr \<times> number) option" where
  "getPaymentSettlementUnit m includeDedicated =
     map_option (\<lambda>d. (currencyCode d, num_div (settlementUnitsPerUsd d) (platformUnitsPerUsd d)))
       (getPaymentSettlementMetadata m includeDedicated)"

section \<open>Discounts\<close>

record AppliedDiscountState =
  discount_code :: jsstr
  discount_percent :: "number option"

definition discountCodeSavings :: "number \<Rightarrow> number option \<Rightarrow> number" where
  "discountCodeSavings finalAmount discountPercent =
     (case discountPercent of None \<Rightarrow> Num 0
      | Some percent \<Rightarrow>
        if \<not> is_finite finalAmount \<or> num_le finalAmount (Num 0) \<or> \<not> is_finite percent
           \<or> num_le percent (Num 0) \<or> num_ge percent (Num 100) then Num 0
        else let multiplier = num_div (num_sub (Num 100) percent) (Num 100)
             in math_max [Num 0, num_sub (num_div finalAmount multiplier) finalAmount])"

definition discountAfterAmountChange :: "AppliedDiscountState \<Rightarrow> number \<Rightarrow> number \<Rightarrow> AppliedDiscountState" where
  "discountAfterAmountChange s previousAmount nextAmount =
     (if num_eq previousAmount nextAmount \<or> trim (discount_code s) = [] then s
      else \<lparr>discount_code = [], discount_percent = None\<rparr>)"

section \<open>Laws\<close>

text \<open>A quote as the object it is written as.\<close>

definition quote_value :: "SettlementQuote \<Rightarrow> jsval" where
  "quote_value q =
     Obj ([(js ''amount'', Str (quote_amount q)), (js ''currency'', Str (quote_currency q))] @
       (case quote_originalAmount q of Some o' \<Rightarrow> [(js ''originalAmount'', Str o')] | None \<Rightarrow> []) @
       (case quote_savingsAmount q of Some s \<Rightarrow> [(js ''savingsAmount'', Str s)] | None \<Rightarrow> []))"

lemma readOptional_Some:
  "readOptionalSettlementAmount v = Some s \<longleftrightarrow> v = Str s \<and> is_positive_decimal s"
  by (auto simp: readOptionalSettlementAmount_def split: jsval.splits)

lemma positive_decimal_pos: "is_positive_decimal s \<Longrightarrow> is_finite (to_number s) \<and> 0 < val (to_number s)"
  by (auto simp: is_positive_decimal_def num_le_finite)

lemma parseSettlementQuote_iff:
  "parseSettlementQuote v = Some q \<longleftrightarrow>
     is_object v \<and> get_prop v (js ''amount'') = Str (quote_amount q) \<and> is_positive_decimal (quote_amount q) \<and>
     get_prop v (js ''currency'') = Str (quote_currency q) \<and> quote_currency q \<in> {js ''CNY'', js ''USD''} \<and>
     quote_originalAmount q = readOptionalSettlementAmount (get_prop v (js ''originalAmount'')) \<and>
     quote_savingsAmount q = readOptionalSettlementAmount (get_prop v (js ''savingsAmount'')) \<and>
     (\<forall>a. quote_originalAmount q = Some a \<longrightarrow> val (to_number (quote_amount q)) \<le> val (to_number a))"
proof -
  have orig: "(case readOptionalSettlementAmount w of Some a \<Rightarrow> num_lt (to_number a) (to_number b) | None \<Rightarrow> False) \<longleftrightarrow>
      \<not> (\<forall>a. readOptionalSettlementAmount w = Some a \<longrightarrow> val (to_number b) \<le> val (to_number a))"
    if "is_positive_decimal b" for w b
  proof (cases "readOptionalSettlementAmount w")
    case (Some a)
    then have "is_finite (to_number a)" "is_finite (to_number b)"
      using that by (simp_all add: readOptional_Some positive_decimal_pos)
    with Some show ?thesis by (auto simp: num_lt_finite)
  qed simp
  have sav: "\<not> (case readOptionalSettlementAmount w of Some s \<Rightarrow> num_le (to_number s) (Num 0) | None \<Rightarrow> False)" for w
  proof (cases "readOptionalSettlementAmount w")
    case (Some a)
    then have "is_positive_decimal a" by (simp add: readOptional_Some)
    with Some show ?thesis by (simp add: is_positive_decimal_def)
  qed simp
  show ?thesis
  proof (cases "\<exists>a. get_prop v (js ''amount'') = Str a \<and> is_positive_decimal a")
    case True
    then obtain a where a: "get_prop v (js ''amount'') = Str a" "is_positive_decimal a" by blast
    show ?thesis
      unfolding parseSettlementQuote_def Let_def a(1) str_of_def jsval.case orig [OF a(2)]
      using a(2) sav by (cases q) auto
  next
    case False
    then have "parseSettlementQuote v = None"
      by (cases "get_prop v (js ''amount'')") (simp_all add: parseSettlementQuote_def Let_def str_of_def is_Str_def)
    with False show ?thesis by auto
  qed
qed

lemma lookup_names:
  "js ''amount'' \<noteq> js ''currency''" "js ''originalAmount'' \<noteq> js ''amount''" "js ''originalAmount'' \<noteq> js ''currency''"
  "js ''savingsAmount'' \<noteq> js ''amount''" "js ''savingsAmount'' \<noteq> js ''currency''"
  "js ''savingsAmount'' \<noteq> js ''originalAmount''"
  by simp_all



section \<open>Rates\<close>

lemma parsePositiveDecimal_pos:
  assumes "parsePositiveDecimal v = Some n"
  shows "is_finite n \<and> 0 < val n"
  using assms by (cases v) (auto simp: parsePositiveDecimal_def num_gt_def num_lt_finite Let_def split: if_splits)

text \<open>The settlement metadata of a payment method has positive finite rates and a currency code that passes the
  pattern. It comes from the two USD rates exactly when one of them is present: incomplete or invalid USD rates give no
  metadata rather than the legacy price. A gateway with its own pricing has none unless asked for.\<close>

lemma settlement_metadata_sound:
  assumes "getPaymentSettlementMetadata m includeDedicated = Some d"
  shows "is_finite (platformUnitsPerUsd d) \<and> 0 < val (platformUnitsPerUsd d) \<and>
    is_finite (settlementUnitsPerUsd d) \<and> 0 < val (settlementUnitsPerUsd d) \<and>
    settlement_unit_ok (method_currency m) \<and> currencyCode d = upper_ascii (method_currency m) \<and>
    (meta_source d = Explicit_usd_rates \<longleftrightarrow> preferred_metadata m) \<and>
    (preferred_metadata m \<longrightarrow>
       parsePositiveDecimal (get_prop m (js ''platform_units_per_usd'')) = Some (platformUnitsPerUsd d) \<and>
       parsePositiveDecimal (get_prop m (js ''settlement_units_per_usd'')) = Some (settlementUnitsPerUsd d)) \<and>
    (usesDedicatedPaymentPricing (get_prop m (js ''type'')) \<longrightarrow> includeDedicated)"
  using assms parsePositiveDecimal_pos
  by (auto simp: getPaymentSettlementMetadata_def Let_def split: if_splits option.splits)

end
