(* ===== verification/Checkout.thy ===== *)
theory Checkout
  imports Settlement
begin

text \<open>
  Payment methods and checkouts of the wallet: \<open>features/wallet/lib/payment.ts\<close>, the payment hooks
  \<open>use-payment.ts\<close>, \<open>use-waffo-payment.ts\<close>, \<open>use-creem-payment.ts\<close> and
  \<open>use-waffo-pancake-payment.ts\<close>, and the interface language they send (\<open>lib/waffo-pancake-checkout.ts\<close>,
  \<open>i18n/languages.ts\<close>).

  A payment is a function of the answer of its request (\<open>Inl\<close> a rejection, \<open>Inr\<close> the response) that returns the
  result and the log of its effects: windows opened, closed and navigated, forms submitted, requests, messages before
  translation, and the changes of \<open>processing\<close>. \<open>browser\<close> is what the browser decides: the protocol
  \<open>new URL\<close> reads (\<open>None\<close>: it throws), the user agent, whether \<open>window.open\<close> yields a window, and the random name
  given to it. Whether the user has closed that window meanwhile is the argument \<open>closed'\<close>.
\<close>

record browser =
  url_protocol :: "jsstr \<Rightarrow> jsstr option"
  user_agent :: jsstr
  popup_opens :: bool
  popup_name :: jsstr

datatype pay_effect =
    Open_window
  | Own_popup jsstr
  | Close_popup
  | Navigate_popup jsstr
  | Navigate_current jsstr
  | Submit_form jsstr "(jsstr \<times> jsstr) list" "jsstr option"
  | Request jsstr "(jsstr \<times> jsval) list"
  | Set_processing bool
  | Toast_error jsval
  | Toast_success jsstr
  | Toast_info jsstr

section \<open>Windows and forms\<close>

definition isPositivePaymentAmount :: "jsval \<Rightarrow> bool" where
  "isPositivePaymentAmount v \<longleftrightarrow> is_Number v \<and> is_finite (num_of v) \<and> num_gt (num_of v) (Num 0)"

definition isSafariBrowser :: "browser \<Rightarrow> bool" where
  "isSafariBrowser br \<longleftrightarrow>
     str_includes (user_agent br) (js ''Safari'') \<and>
     \<not> list_ex (str_includes (user_agent br)) [js ''Chrome'', js ''CriOS'', js ''FxiOS'', js ''EdgiOS'', js ''OPiOS'']"

definition isSafeHttpCheckoutUrl :: "browser \<Rightarrow> jsval \<Rightarrow> bool" where
  "isSafeHttpCheckoutUrl br v =
     (case v of
        Str s \<Rightarrow>
          trim s \<noteq> [] \<and>
          (case url_protocol br s of Some p \<Rightarrow> p = js ''http:'' \<or> p = js ''https:'' | None \<Rightarrow> False)
      | _ \<Rightarrow> False)"

text \<open>\<open>Object.entries\<close> of any value, with \<open>String\<close> of what it holds.\<close>

definition entry_texts :: "jsval \<Rightarrow> (jsstr \<times> jsstr) list" where
  "entry_texts v =
     (case v of
        Obj ps \<Rightarrow> map (\<lambda>(k, x). (k, string_of_val x)) (own_entries ps)
      | Arr xs \<Rightarrow> map (\<lambda>i. (int_digits (int i), string_of_val (xs ! i))) [0..<length xs]
      | Str s \<Rightarrow> map (\<lambda>i. (int_digits (int i), [s ! i])) [0..<length s]
      | _ \<Rightarrow> [])"

definition submitPaymentForm :: "browser \<Rightarrow> jsval \<Rightarrow> jsval \<Rightarrow> jsval \<Rightarrow> bool \<times> pay_effect list" where
  "submitPaymentForm br url params target =
     (if \<not> isSafeHttpCheckoutUrl br url then (False, [])
      else (True, [Submit_form (str_of url) (entry_texts params)
        (if truthy_val target then Some (str_of target)
         else if target = Undefined \<and> \<not> isSafariBrowser br then Some (js ''_blank'') else None)]))"

record PaymentCheckout =
  checkout_target :: "jsstr option"
  checkout_popup :: bool

definition reservePaymentCheckout :: "browser \<Rightarrow> PaymentCheckout \<times> pay_effect list" where
  "reservePaymentCheckout br =
     (if isSafariBrowser br then (\<lparr>checkout_target = None, checkout_popup = False\<rparr>, [])
      else if popup_opens br then
        (\<lparr>checkout_target = Some (popup_name br), checkout_popup = True\<rparr>, [Open_window, Own_popup (popup_name br)])
      else (\<lparr>checkout_target = None, checkout_popup = False\<rparr>, [Open_window]))"

definition cancelPaymentCheckout :: "PaymentCheckout \<Rightarrow> pay_effect list" where
  "cancelPaymentCheckout c = (if checkout_popup c then [Close_popup] else [])"

definition navigateCurrentWindow :: "jsstr \<Rightarrow> pay_effect list" where
  "navigateCurrentWindow url = [Navigate_current url]"

definition redirectCurrentWindowToPaymentCheckout :: "browser \<Rightarrow> jsval \<Rightarrow> bool \<times> pay_effect list" where
  "redirectCurrentWindowToPaymentCheckout br url =
     (if \<not> isSafeHttpCheckoutUrl br url then (False, []) else (True, navigateCurrentWindow (str_of url)))"

definition redirectToPaymentCheckout :: "browser \<Rightarrow> PaymentCheckout \<Rightarrow> bool \<Rightarrow> jsval \<Rightarrow> bool \<times> pay_effect list" where
  "redirectToPaymentCheckout br c closed' url =
     (if \<not> isSafeHttpCheckoutUrl br url then (False, [])
      else if checkout_popup c \<and> \<not> closed' then (True, [Navigate_popup (str_of url)])
      else (True, navigateCurrentWindow (str_of url)))"

section \<open>Payment methods\<close>

definition isStripePayment :: "jsval \<Rightarrow> bool" where
  "isStripePayment t \<longleftrightarrow> t = Str (js ''stripe'')"

definition isCreemPayment :: "jsval \<Rightarrow> bool" where
  "isCreemPayment t \<longleftrightarrow> t = Str (js ''creem'')"

definition isWaffoPayment :: "jsval \<Rightarrow> bool" where
  "isWaffoPayment t \<longleftrightarrow> t = Str (js ''waffo'')"

definition isWaffoPancakePayment :: "jsval \<Rightarrow> bool" where
  "isWaffoPancakePayment t \<longleftrightarrow> t = Str (js ''waffo_pancake'')"

definition getEpayMethods :: "jsval list \<Rightarrow> jsval list" where
  "getEpayMethods payMethods =
     filter (\<lambda>m. let t = get_prop m (js ''type'')
       in truthy_val t \<and> \<not> isStripePayment t \<and> \<not> isCreemPayment t \<and> \<not> isWaffoPayment t \<and> \<not> isWaffoPancakePayment t)
       payMethods"

definition isWaffoPancakeCurrencySupported :: bool where
  "isWaffoPancakeCurrencySupported = True"

definition isPaymentMethodCurrencySupported :: "jsval \<Rightarrow> bool" where
  "isPaymentMethodCurrencySupported t \<longleftrightarrow> \<not> isWaffoPancakePayment t \<or> isWaffoPancakeCurrencySupported"

text \<open>The processor a payment is handed to, with its arguments.\<close>

datatype dispatched =
    Refused
  | To_regular number jsval jsstr
  | To_waffo number number jsstr
  | To_waffo_pancake number "(jsstr \<times> jsval) list"

definition dispatchSelectedPayment ::
  "jsval \<Rightarrow> number \<Rightarrow> number option \<Rightarrow> (jsstr \<times> jsval) list option \<Rightarrow> jsstr \<Rightarrow> dispatched" where
  "dispatchSelectedPayment paymentMethod topupAmount waffoMethodIndex options discountCode =
     (let t = get_prop paymentMethod (js ''type'')
      in if isWaffoPayment t then
           (case waffoMethodIndex of None \<Rightarrow> Refused | Some i \<Rightarrow> To_waffo topupAmount i discountCode)
         else if isWaffoPancakePayment t then
           (case options of None \<Rightarrow> Refused
            | Some ps \<Rightarrow>
              if parseSettlementQuote (Obj [(js ''amount'', get_prop (Obj ps) (js ''settlement_amount'')),
                   (js ''currency'', get_prop (Obj ps) (js ''settlement_currency''))]) = None then Refused
              else To_waffo_pancake topupAmount
                (if discountCode = [] then ps else map_put (js ''discount_code'') (Str discountCode) ps))
         else To_regular topupAmount t discountCode)"

record TopupAvailability =
  standardMethods :: "jsval list"
  waffoMethods :: "jsval list"
  creemProducts :: "jsval list"
  defaultQuotedType :: jsval
  hasPaymentMethod :: bool

definition elements :: "jsval \<Rightarrow> jsval list" where
  "elements v = (case v of Arr xs \<Rightarrow> xs | _ \<Rightarrow> [])"

definition standard_method :: "jsval \<Rightarrow> jsval \<Rightarrow> bool" where
  "standard_method topupInfo m =
     (let t = get_prop m (js ''type'')
      in if \<not> truthy_val (get_prop m (js ''name'')) \<or> \<not> truthy_val t then False
         else if \<not> isPaymentMethodCurrencySupported t then False
         else if isStripePayment t then get_prop topupInfo (js ''enable_stripe_topup'') = Bool True
         else if isWaffoPancakePayment t then get_prop topupInfo (js ''enable_waffo_pancake_topup'') = Bool True
         else if isCreemPayment t \<or> isWaffoPayment t then False
         else get_prop topupInfo (js ''enable_online_topup'') = Bool True)"

definition getTopupAvailability :: "jsval \<Rightarrow> TopupAvailability" where
  "getTopupAvailability topupInfo =
     (if \<not> truthy_val topupInfo then
        \<lparr>standardMethods = [], waffoMethods = [], creemProducts = [], defaultQuotedType = Null, hasPaymentMethod = False\<rparr>
      else
        let standard = filter (standard_method topupInfo) (elements (get_prop topupInfo (js ''pay_methods'')));
            waffo = (if truthy_val (get_prop topupInfo (js ''enable_waffo_topup''))
              then filter (\<lambda>m. truthy_val (get_prop m (js ''name''))) (elements (get_prop topupInfo (js ''waffo_pay_methods'')))
              else []);
            creem = (if truthy_val (get_prop topupInfo (js ''enable_creem_topup''))
              then filter (\<lambda>p. truthy_val (get_prop p (js ''name'')) \<and> truthy_val (get_prop p (js ''productId'')))
                (elements (get_prop topupInfo (js ''creem_products'')))
              else [])
        in \<lparr>standardMethods = standard, waffoMethods = waffo, creemProducts = creem,
            defaultQuotedType = coalesce (case standard of m # _ \<Rightarrow> get_prop m (js ''type'') | [] \<Rightarrow> Undefined)
              (if waffo \<noteq> [] then Str (js ''waffo'') else Null),
            hasPaymentMethod = (standard \<noteq> [] \<or> waffo \<noteq> [] \<or> creem \<noteq> [])\<rparr>)"

definition getDefaultPaymentType :: "jsval \<Rightarrow> jsval" where
  "getDefaultPaymentType topupInfo = defaultQuotedType (getTopupAvailability topupInfo)"

definition DEFAULT_MIN_TOPUP :: jsval where
  "DEFAULT_MIN_TOPUP = Number (Num 1)"

definition getMinTopupAmount :: "jsval \<Rightarrow> jsval" where
  "getMinTopupAmount topupInfo =
     (if \<not> truthy_val topupInfo then DEFAULT_MIN_TOPUP
      else let t = defaultQuotedType (getTopupAvailability topupInfo)
           in if isStripePayment t then get_prop topupInfo (js ''stripe_min_topup'')
              else if isWaffoPayment t then or_else (get_prop topupInfo (js ''waffo_min_topup'')) DEFAULT_MIN_TOPUP
              else if isWaffoPancakePayment t
                then or_else (get_prop topupInfo (js ''waffo_pancake_min_topup'')) DEFAULT_MIN_TOPUP
              else if truthy_val t then get_prop topupInfo (js ''min_topup'')
              else DEFAULT_MIN_TOPUP)"

definition getTopupRecordPlatformAmount :: "jsval \<Rightarrow> jsval" where
  "getTopupRecordPlatformAmount record =
     (let micros = get_prop record (js ''platform_amount_micros'')
      in if val_is_safe_integer micros \<and> num_gt (num_of micros) (Num 0)
         then Number (num_div (num_of micros) (Num 1000000)) else get_prop record (js ''amount''))"

definition DEFAULT_PRESET_MULTIPLIERS :: "number list" where
  "DEFAULT_PRESET_MULTIPLIERS = map Num [1, 5, 10, 30, 50, 100, 300, 500]"

definition generatePresetAmounts :: "number \<Rightarrow> number list" where
  "generatePresetAmounts minAmount = map (num_mul minAmount) DEFAULT_PRESET_MULTIPLIERS"

definition mergePresetAmounts :: "number list \<Rightarrow> jsval \<Rightarrow> (number \<times> jsval) list" where
  "mergePresetAmounts amountOptions discounts =
     map (\<lambda>amount. (amount, or_else (get_prop discounts (number_to_string amount)) (Number (Num 1)))) amountOptions"

section \<open>Interface language\<close>

definition INTERFACE_LANGUAGE_OPTIONS :: "jsstr list" where
  "INTERFACE_LANGUAGE_OPTIONS =
     [js ''zhCN'', js ''en'', js ''fr'', js ''ru'', js ''ja'', js ''vi'', js ''zhTW'']"

definition normalizeInterfaceLanguage :: "jsval \<Rightarrow> jsstr" where
  "normalizeInterfaceLanguage v =
     (if \<not> truthy_val v then js ''en''
      else let normalized = lower_ascii (map (\<lambda>c. if c = 95 then 45 else c) (trim (str_of v)))
           in if normalized \<in> {js ''zhtw'', js ''zh-tw'', js ''zh-hk'', js ''zh-mo''}
                 \<or> starts_with normalized (js ''zh-hant'') then js ''zhTW''
              else if normalized \<in> {js ''zh'', js ''zhcn'', js ''zh-cn'', js ''zh-sg''}
                 \<or> starts_with normalized (js ''zh-hans'') \<or> starts_with normalized (js ''zh-'') then js ''zhCN''
              else case find (\<lambda>code. lower_ascii code = normalized) INTERFACE_LANGUAGE_OPTIONS of
                Some code \<Rightarrow> code | None \<Rightarrow> js ''en'')"

definition getWaffoPancakeCheckoutLanguage :: "jsval \<Rightarrow> jsstr" where
  "getWaffoPancakeCheckoutLanguage v =
     (let l = normalizeInterfaceLanguage v
      in if l = js ''zhCN'' then js ''zh-Hans'' else if l = js ''zhTW'' then js ''zh-Hant-TW''
         else if l = js ''ja'' then js ''ja-JP'' else if l = js ''ru'' then js ''ru-RU''
         else if l = js ''vi'' then js ''vi-VN'' else js ''en'')"

definition getDefaultWaffoPancakeCheckoutRegion :: "jsval \<Rightarrow> jsstr" where
  "getDefaultWaffoPancakeCheckoutRegion v =
     (let l = normalizeInterfaceLanguage v
      in if l = js ''zhCN'' \<or> l = js ''zhTW'' then js ''china'' else js ''global'')"

section \<open>Payments\<close>

definition isApiSuccess :: "jsval \<Rightarrow> bool" where
  "isApiSuccess response \<longleftrightarrow>
     get_prop response (js ''success'') = Bool True \<or> get_prop response (js ''message'') = Str (js ''success'')"

definition discount_part :: "jsstr \<Rightarrow> (jsstr \<times> jsval) list" where
  "discount_part code = (if code = [] then [] else [(js ''discount_code'', Str code)])"

text \<open>The \<open>catch\<close> of the hooks with a reserved checkout, also reached when the response is not an object.\<close>

definition payment_failed :: "PaymentCheckout \<Rightarrow> bool \<times> pay_effect list" where
  "payment_failed c = (False, cancelPaymentCheckout c @ [Toast_error (Str (js ''Payment request failed''))])"

definition invalid_redirect :: "PaymentCheckout \<Rightarrow> bool \<times> pay_effect list" where
  "invalid_redirect c = (False, cancelPaymentCheckout c @ [Toast_error (Str (js ''Invalid payment redirect URL''))])"

text \<open>A redirect that succeeds or falls back to \<open>invalid_redirect\<close>, with the message of the hook.\<close>

definition redirected :: "bool \<times> pay_effect list \<Rightarrow> PaymentCheckout \<Rightarrow> string \<Rightarrow> bool \<times> pay_effect list" where
  "redirected r c message =
     (if fst r then (True, snd r @ [Toast_success (js message)]) else invalid_redirect c)"

text \<open>\<open>setProcessing(true)\<close>, the reservation and the request, what the answer leads to, \<open>setProcessing(false)\<close>.\<close>

definition with_checkout ::
  "browser \<Rightarrow> pay_effect \<Rightarrow> (PaymentCheckout \<Rightarrow> jsval \<Rightarrow> bool \<times> pay_effect list) \<Rightarrow> jsval + jsval \<Rightarrow> bool \<times> pay_effect list" where
  "with_checkout br request answered outcome =
     (let (c, opened) = reservePaymentCheckout br;
          (ok, effs) = (case outcome of
              Inl _ \<Rightarrow> payment_failed c
            | Inr response \<Rightarrow> if nullish response then payment_failed c else answered c response)
      in (ok, [Set_processing True] @ opened @ [request] @ effs @ [Set_processing False]))"

definition payment_answered :: "browser \<Rightarrow> jsval \<Rightarrow> bool \<Rightarrow> PaymentCheckout \<Rightarrow> jsval \<Rightarrow> bool \<times> pay_effect list" where
  "payment_answered br paymentType closed' c response =
     (let data = get_prop response (js ''data''); isStripe = isStripePayment paymentType
      in if \<not> isApiSuccess response then
           (False, cancelPaymentCheckout c @
             [Toast_error (or_else (get_prop response (js ''message'')) (Str (js ''Payment request failed'')))])
         else if isStripe \<and> truthy_val (get_prop data (js ''pay_link'')) then
           redirected (redirectToPaymentCheckout br c closed' (get_prop data (js ''pay_link''))) c
             ''Redirecting to payment page...''
         else if \<not> isStripe \<and> truthy_val data \<and> isSafeHttpCheckoutUrl br (get_prop response (js ''url'')) then
           redirected (submitPaymentForm br (get_prop response (js ''url'')) data
             (case checkout_target c of Some t \<Rightarrow> Str t | None \<Rightarrow> Null)) c ''Redirecting to payment page...''
         else invalid_redirect c)"

definition payment_request :: "number \<Rightarrow> jsval \<Rightarrow> jsstr \<Rightarrow> pay_effect" where
  "payment_request topupAmount paymentType discountCode =
     (if isStripePayment paymentType then
        Request (js ''stripe'') ([(js ''amount'', Number (num_floor topupAmount)),
          (js ''payment_method'', Str (js ''stripe''))] @ discount_part discountCode)
      else Request (js ''pay'') ([(js ''amount'', Number (num_floor topupAmount)),
          (js ''payment_method'', paymentType)] @ discount_part discountCode))"

definition processPayment ::
  "browser \<Rightarrow> bool \<Rightarrow> number \<Rightarrow> jsval \<Rightarrow> jsstr \<Rightarrow> bool \<Rightarrow> jsval + jsval \<Rightarrow> bool \<times> pay_effect list" where
  "processPayment br localPreview topupAmount paymentType discountCode closed' outcome =
     (if localPreview then
        (False, [Toast_info (js ''Local preview only: no payment is started and no balance is changed.'')])
      else with_checkout br (payment_request topupAmount paymentType discountCode)
        (payment_answered br paymentType closed') outcome)"

definition getPaymentUrl :: "jsval \<Rightarrow> jsstr option" where
  "getPaymentUrl data =
     (case get_prop data (js ''payment_url'') of Str u \<Rightarrow> Some u | _ \<Rightarrow> None)"

definition getErrorMessage :: "jsval \<Rightarrow> jsval \<Rightarrow> jsval" where
  "getErrorMessage message data =
     (if is_Str data \<and> trim (str_of data) \<noteq> [] then data
      else or_else message (Str (js ''Payment request failed'')))"

definition waffo_answered :: "browser \<Rightarrow> bool \<Rightarrow> PaymentCheckout \<Rightarrow> jsval \<Rightarrow> bool \<times> pay_effect list" where
  "waffo_answered br closed' c response =
     (let data = get_prop response (js ''data''); paymentUrl = getPaymentUrl data
      in if isApiSuccess response \<and> paymentUrl \<noteq> None \<and> the paymentUrl \<noteq> [] then
           redirected (redirectToPaymentCheckout br c closed' (Str (the paymentUrl))) c ''Redirecting to payment page...''
         else (False, cancelPaymentCheckout c @
           [Toast_error (getErrorMessage (get_prop response (js ''message'')) data)]))"

definition processWaffoPayment ::
  "browser \<Rightarrow> number \<Rightarrow> jsval \<Rightarrow> jsstr \<Rightarrow> bool \<Rightarrow> jsval + jsval \<Rightarrow> bool \<times> pay_effect list" where
  "processWaffoPayment br topupAmount payMethodIndex discountCode closed' outcome =
     with_checkout br
       (Request (js ''waffo'') ([(js ''amount'', Number (num_floor topupAmount)),
          (js ''pay_method_index'', payMethodIndex)] @ discount_part discountCode))
       (waffo_answered br closed') outcome"

definition creem_answered :: "browser \<Rightarrow> bool \<Rightarrow> PaymentCheckout \<Rightarrow> jsval \<Rightarrow> bool \<times> pay_effect list" where
  "creem_answered br closed' c response =
     (let url = get_prop (get_prop response (js ''data'')) (js ''checkout_url'')
      in if isApiSuccess response \<and> truthy_val url then
           redirected (redirectToPaymentCheckout br c closed' url) c ''Redirecting to Creem checkout...''
         else (False, cancelPaymentCheckout c @
           [Toast_error (or_else (get_prop response (js ''message'')) (Str (js ''Payment request failed'')))]))"

definition processCreemPayment :: "browser \<Rightarrow> jsstr \<Rightarrow> bool \<Rightarrow> jsval + jsval \<Rightarrow> bool \<times> pay_effect list" where
  "processCreemPayment br productId closed' outcome =
     with_checkout br
       (Request (js ''creem'') [(js ''product_id'', Str productId), (js ''payment_method'', Str (js ''creem''))])
       (creem_answered br closed') outcome"

text \<open>
  The hosted checkout: the result is a boolean, or the exception that the quote has changed (\<open>Inl\<close>).
  \<open>current\<close> and \<open>still_current\<close> are what \<open>isCurrent()\<close> answers before and after the request.
\<close>

datatype pay_exception = SettlementQuoteChanged

definition getCheckoutUrl :: "jsval \<Rightarrow> jsstr option" where
  "getCheckoutUrl data = (case get_prop data (js ''checkout_url'') of Str u \<Rightarrow> Some u | _ \<Rightarrow> None)"

definition pancake_failed :: "bool \<Rightarrow> jsval \<Rightarrow> (pay_exception + bool) \<times> pay_effect list" where
  "pancake_failed still_current error =
     (if \<not> still_current then (Inr False, [])
      else if isSettlementQuoteChanged error then (Inl SettlementQuoteChanged, [])
      else (Inr False, [Toast_error (Str (js ''Payment request failed''))]))"

definition pancake_answered :: "browser \<Rightarrow> bool \<Rightarrow> jsval \<Rightarrow> (pay_exception + bool) \<times> pay_effect list" where
  "pancake_answered br still_current response =
     (if \<not> still_current then (Inr False, [])
      else if isSettlementQuoteChanged response then (Inl SettlementQuoteChanged, [])
      else if nullish response then pancake_failed still_current (Obj [])
      else
        (case (isApiSuccess response, getCheckoutUrl (get_prop response (js ''data''))) of
           (True, Some url) \<Rightarrow>
             if url = [] then
               (Inr False, [Toast_error (getErrorMessage (get_prop response (js ''message'')) (get_prop response (js ''data'')))])
             else if \<not> isSafeHttpCheckoutUrl br (Str url) then
               (Inr False, [Toast_error (Str (js ''Invalid payment redirect URL''))])
             else (Inr True, [Toast_success (js ''Redirecting to payment page...''), Navigate_current url])
         | _ \<Rightarrow>
             (Inr False, [Toast_error (getErrorMessage (get_prop response (js ''message'')) (get_prop response (js ''data'')))])))"

definition processWaffoPancakePayment ::
  "browser \<Rightarrow> jsval \<Rightarrow> number \<Rightarrow> jsval \<Rightarrow> bool \<Rightarrow> bool \<Rightarrow> jsval + jsval \<Rightarrow> (pay_exception + bool) \<times> pay_effect list" where
  "processWaffoPancakePayment br interfaceLanguage topupAmount options current still_current outcome =
     (case parseSettlementQuote (Obj [(js ''amount'', get_prop options (js ''settlement_amount'')),
          (js ''currency'', get_prop options (js ''settlement_currency''))]) of
        None \<Rightarrow> (Inr False, [])
      | Some quote \<Rightarrow>
        if \<not> current then (Inr False, [])
        else let request = Request (js ''waffo_pancake'') ([(js ''amount'', Number (num_floor topupAmount))] @
                 expectedSettlement quote @
                 [(js ''checkout_region'', coalesce (get_prop options (js ''checkout_region''))
                     (Str (getDefaultWaffoPancakeCheckoutRegion interfaceLanguage))),
                  (js ''checkout_language'', coalesce (get_prop options (js ''checkout_language''))
                     (Str (getWaffoPancakeCheckoutLanguage interfaceLanguage)))] @
                 (if truthy_val (get_prop options (js ''discount_code''))
                  then [(js ''discount_code'', get_prop options (js ''discount_code''))] else []));
                 (result, effs) = (case outcome of
                     Inl error \<Rightarrow> pancake_failed still_current error
                   | Inr response \<Rightarrow> pancake_answered br still_current response)
             in (result, [Set_processing True, request] @ effs @ [Set_processing False]))"

section \<open>The contract of a checkout\<close>

text \<open>Where an effect takes the user, if anywhere.\<close>

definition nav_url :: "pay_effect \<Rightarrow> jsstr option" where
  "nav_url e =
     (case e of Navigate_popup u \<Rightarrow> Some u | Navigate_current u \<Rightarrow> Some u | Submit_form u _ _ \<Rightarrow> Some u | _ \<Rightarrow> None)"

definition navigations :: "pay_effect list \<Rightarrow> pay_effect list" where
  "navigations effs = filter (\<lambda>e. nav_url e \<noteq> None) effs"

text \<open>
  How a payment must end: a success has taken the user to one safe address and leaves the window open; a failure has gone
  nowhere and has closed the window it had reserved.
\<close>

definition settles :: "browser \<Rightarrow> bool \<Rightarrow> bool \<times> pay_effect list \<Rightarrow> bool" where
  "settles br reserved r \<longleftrightarrow>
     (\<forall>e \<in> set (snd r). \<forall>u. nav_url e = Some u \<longrightarrow> isSafeHttpCheckoutUrl br (Str u)) \<and>
     length (navigations (snd r)) = (if fst r then 1 else 0) \<and>
     (fst r \<longrightarrow> Close_popup \<notin> set (snd r)) \<and> (\<not> fst r \<longrightarrow> reserved \<longrightarrow> Close_popup \<in> set (snd r))"

lemma nav_url_simps [simp]:
  "nav_url Open_window = None" "nav_url (Own_popup n) = None" "nav_url Close_popup = None"
  "nav_url (Navigate_popup u) = Some u" "nav_url (Navigate_current u) = Some u" "nav_url (Submit_form u ps t) = Some u"
  "nav_url (Request k qs) = None" "nav_url (Set_processing b) = None" "nav_url (Toast_error v) = None"
  "nav_url (Toast_success s) = None" "nav_url (Toast_info s) = None"
  by (simp_all add: nav_url_def)

lemma navigations_simps [simp]:
  "navigations [] = []" "navigations (e # es) = (if nav_url e = None then navigations es else e # navigations es)"
  "navigations (es @ fs) = navigations es @ navigations fs"
  by (simp_all add: navigations_def)

lemma settles_cancel:
  "settles br (checkout_popup c) (False, cancelPaymentCheckout c @ [Toast_error m])"
  by (auto simp: settles_def cancelPaymentCheckout_def)

lemma safe_is_string: "isSafeHttpCheckoutUrl br v \<Longrightarrow> v = Str (str_of v)"
  by (cases v) (simp_all add: isSafeHttpCheckoutUrl_def str_of_def)

lemma redirect_safe:
  "(\<forall>e \<in> set (snd (redirectToPaymentCheckout br c closed' url)). \<forall>u. nav_url e = Some u \<longrightarrow> isSafeHttpCheckoutUrl br (Str u)) \<and>
   length (navigations (snd (redirectToPaymentCheckout br c closed' url))) =
     (if fst (redirectToPaymentCheckout br c closed' url) then 1 else 0) \<and>
   Close_popup \<notin> set (snd (redirectToPaymentCheckout br c closed' url))"
  using safe_is_string [of br url] by (auto simp: redirectToPaymentCheckout_def navigateCurrentWindow_def)

lemma submit_safe:
  "(\<forall>e \<in> set (snd (submitPaymentForm br url ps target)). \<forall>u. nav_url e = Some u \<longrightarrow> isSafeHttpCheckoutUrl br (Str u)) \<and>
   length (navigations (snd (submitPaymentForm br url ps target))) = (if fst (submitPaymentForm br url ps target) then 1 else 0) \<and>
   Close_popup \<notin> set (snd (submitPaymentForm br url ps target))"
  using safe_is_string [of br url] by (auto simp: submitPaymentForm_def)

lemma settles_redirected:
  assumes "(\<forall>e \<in> set (snd r). \<forall>u. nav_url e = Some u \<longrightarrow> isSafeHttpCheckoutUrl br (Str u)) \<and>
    length (navigations (snd r)) = (if fst r then 1 else 0) \<and> Close_popup \<notin> set (snd r)"
  shows "settles br (checkout_popup c) (redirected r c m)"
proof (cases "fst r")
  case True
  with assms show ?thesis by (auto simp: redirected_def settles_def)
next
  case False
  then show ?thesis using settles_cancel by (simp add: redirected_def invalid_redirect_def)
qed

lemma settles_answers:
  "settles br (checkout_popup c) (payment_answered br paymentType closed' c response)"
  "settles br (checkout_popup c) (waffo_answered br closed' c response)"
  "settles br (checkout_popup c) (creem_answered br closed' c response)"
  by (simp_all add: payment_answered_def waffo_answered_def creem_answered_def Let_def invalid_redirect_def
      settles_cancel settles_redirected redirect_safe submit_safe)

text \<open>The window reserved for a checkout, and what opening it did.\<close>

definition reserves_popup :: "browser \<Rightarrow> bool" where
  "reserves_popup br \<longleftrightarrow> \<not> isSafariBrowser br \<and> popup_opens br"

lemma reserve_facts:
  "checkout_popup (fst (reservePaymentCheckout br)) \<longleftrightarrow> reserves_popup br"
  "navigations (snd (reservePaymentCheckout br)) = []" "Close_popup \<notin> set (snd (reservePaymentCheckout br))"
  by (auto simp: reservePaymentCheckout_def reserves_popup_def)

text \<open>
  A payment with a reserved checkout: a request that takes the user nowhere by itself, and an answer that settles.
\<close>

locale checkout_flow =
  fixes request :: pay_effect
    and answered :: "browser \<Rightarrow> bool \<Rightarrow> PaymentCheckout \<Rightarrow> jsval \<Rightarrow> bool \<times> pay_effect list"
  assumes request_quiet: "nav_url request = None \<and> request \<noteq> Close_popup"
    and answered_settles: "settles br (checkout_popup c) (answered br closed' c response)"
begin

lemma outcome_settles:
  "settles br (checkout_popup c)
     (case outcome of Inl _ \<Rightarrow> payment_failed c
      | Inr response \<Rightarrow> if nullish response then payment_failed c else answered br closed' c response)"
  using settles_cancel answered_settles by (simp add: payment_failed_def split: sum.split)

lemma flow_settles: "settles br (reserves_popup br) (with_checkout br request (answered br closed') outcome)"
proof -
  obtain c opened where c: "reservePaymentCheckout br = (c, opened)" by fastforce
  define r where "r = (case outcome of Inl _ \<Rightarrow> payment_failed c
      | Inr response \<Rightarrow> if nullish response then payment_failed c else answered br closed' c response)"
  have flow: "with_checkout br request (answered br closed') outcome =
      (fst r, [Set_processing True] @ opened @ [request] @ snd r @ [Set_processing False])"
    unfolding with_checkout_def c r_def by (cases outcome) (simp_all add: Let_def split_beta)
  have s: "settles br (reserves_popup br) r"
    using outcome_settles [where br = br and c = c and outcome = outcome and closed' = closed'] reserve_facts(1) [of br] c unfolding r_def by simp
  have "nav_url e = None" if "e \<in> set opened" for e
    using reserve_facts(2) [of br] c that by (auto simp: navigations_def filter_empty_conv)
  then show ?thesis
    using s request_quiet reserve_facts(2,3) [of br] c unfolding flow settles_def by auto
qed

lemma flow_processing: "\<exists>effs. snd (with_checkout br request (answered br closed') outcome) =
    [Set_processing True] @ effs @ [Set_processing False]"
  by (simp add: with_checkout_def Let_def split_beta)

end

interpretation regular_flow:
  checkout_flow "payment_request topupAmount paymentType discountCode" "\<lambda>br. payment_answered br paymentType"
  by unfold_locales (simp_all add: payment_request_def settles_answers)

interpretation waffo_flow:
  checkout_flow "Request k ps" waffo_answered
  by unfold_locales (simp_all add: settles_answers)

interpretation creem_flow:
  checkout_flow "Request k ps" creem_answered
  by unfold_locales (simp_all add: settles_answers)

lemma pancake_navigations:
  "(\<forall>e \<in> set (snd (processWaffoPancakePayment br l n options current still outcome)). \<forall>u. nav_url e = Some u \<longrightarrow>
      isSafeHttpCheckoutUrl br (Str u)) \<and>
   length (navigations (snd (processWaffoPancakePayment br l n options current still outcome))) =
     (if fst (processWaffoPancakePayment br l n options current still outcome) = Inr True then 1 else 0)"
  by (auto simp: processWaffoPancakePayment_def pancake_failed_def pancake_answered_def Let_def
      split: option.split sum.split bool.split)

text \<open>C9: Every payment flow takes the user only to http and https addresses the browser could parse. The flows with a
  reserved window end in one of two ways: a success has navigated or submitted exactly once and keeps the window, a
  failure has navigated nowhere and has closed the window. The hosted checkout navigates once when it succeeds and
  never otherwise, and the local preview does nothing.\<close>

theorem checkout_contract:
  "settles br (reserves_popup br) (processPayment br False topupAmount paymentType discountCode closed' outcome) \<and>
   settles br (reserves_popup br) (processWaffoPayment br topupAmount payMethodIndex discountCode closed' outcome) \<and>
   settles br (reserves_popup br) (processCreemPayment br productId closed' outcome) \<and>
   settles br False (fst (processWaffoPancakePayment br l topupAmount options current still outcome) = Inr True,
     navigations (snd (processWaffoPancakePayment br l topupAmount options current still outcome))) \<and>
   navigations (snd (processPayment br True topupAmount paymentType discountCode closed' outcome)) = []"
proof -
  have "settles br False (fst (processWaffoPancakePayment br l topupAmount options current still outcome) = Inr True,
     navigations (snd (processWaffoPancakePayment br l topupAmount options current still outcome)))"
    using pancake_navigations [of br l topupAmount options current still outcome]
    by (auto simp: settles_def navigations_def)
  then show ?thesis
    using regular_flow.flow_settles waffo_flow.flow_settles creem_flow.flow_settles
    by (simp add: processPayment_def processWaffoPayment_def processCreemPayment_def)
qed

text \<open>What the hosted checkout sends when its options hold the quote \<open>q\<close>.\<close>

lemma pancake_request:
  assumes "parseSettlementQuote (Obj [(js ''amount'', get_prop options (js ''settlement_amount'')),
      (js ''currency'', get_prop options (js ''settlement_currency''))]) = Some q"
  shows "\<exists>props effs. snd (processWaffoPancakePayment br l n options True still outcome) =
      [Set_processing True, Request (js ''waffo_pancake'') props] @ effs \<and>
    set (expectedSettlement q) \<subseteq> set props \<and> (js ''amount'', Number (num_floor n)) \<in> set props"
  unfolding processWaffoPancakePayment_def assms option.case by (simp add: Let_def split_beta) blast

text \<open>C11: A hosted-checkout payment is dispatched only with a quote the wallet can read, and the request it leads to
  carries exactly the amount and currency of that quote, whatever discount code was added on the way.\<close>

theorem dispatched_quote_is_sent:
  assumes "dispatchSelectedPayment m topupAmount index (Some ps) code = To_waffo_pancake n qs"
  shows "\<exists>q props effs.
    get_prop (Obj ps) (js ''settlement_amount'') = Str (quote_amount q) \<and>
    get_prop (Obj ps) (js ''settlement_currency'') = Str (quote_currency q) \<and> 0 < val (to_number (quote_amount q)) \<and>
    snd (processWaffoPancakePayment br l n (Obj qs) True still outcome) =
      [Set_processing True, Request (js ''waffo_pancake'') props] @ effs \<and>
    set (expectedSettlement q) \<subseteq> set props \<and> (js ''amount'', Number (num_floor topupAmount)) \<in> set props"
proof -
  let ?v = "Obj [(js ''amount'', get_prop (Obj ps) (js ''settlement_amount'')),
      (js ''currency'', get_prop (Obj ps) (js ''settlement_currency''))]"
  obtain q where q: "parseSettlementQuote ?v = Some q"
    and n: "n = topupAmount" and qs: "qs = (if code = [] then ps else map_put (js ''discount_code'') (Str code) ps)"
    using assms by (auto simp: dispatchSelectedPayment_def Let_def split: if_splits option.splits)
  have amount: "get_prop ?v (js ''amount'') = Str (quote_amount q)" "get_prop ?v (js ''currency'') = Str (quote_currency q)"
    and pos: "0 < val (to_number (quote_amount q))"
    using q positive_decimal_pos by (auto simp only: parseSettlementQuote_iff)
  have same: "get_prop (Obj qs) (js ''settlement_amount'') = get_prop (Obj ps) (js ''settlement_amount'')"
    "get_prop (Obj qs) (js ''settlement_currency'') = get_prop (Obj ps) (js ''settlement_currency'')"
    using qs by (auto simp: get_prop_def)
  obtain props effs where
    "snd (processWaffoPancakePayment br l n (Obj qs) True still outcome) =
      [Set_processing True, Request (js ''waffo_pancake'') props] @ effs"
    "set (expectedSettlement q) \<subseteq> set props" "(js ''amount'', Number (num_floor topupAmount)) \<in> set props"
    using pancake_request [of "Obj qs" q] q unfolding same n by blast
  moreover have "get_prop (Obj ps) (js ''settlement_amount'') = Str (quote_amount q)"
    "get_prop (Obj ps) (js ''settlement_currency'') = Str (quote_currency q)"
    using amount by (simp_all only: get_prop_simps) (simp_all add: lookup_names lookup_names [symmetric])
  ultimately show ?thesis using pos by blast
qed

theorem dispatched_quote_is_sent_witness:
  "dispatchSelectedPayment (Obj [(js ''type'', Str (js ''waffo_pancake''))]) (Num 20) None
     (Some [(js ''settlement_amount'', Str (js ''9.9'')), (js ''settlement_currency'', Str (js ''CNY''))]) (js ''SPRING'') =
   To_waffo_pancake (Num 20) [(js ''settlement_amount'', Str (js ''9.9'')), (js ''settlement_currency'', Str (js ''CNY'')),
     (js ''discount_code'', Str (js ''SPRING''))] \<and>
   (\<exists>q props effs.
    get_prop (Obj [(js ''settlement_amount'', Str (js ''9.9'')), (js ''settlement_currency'', Str (js ''CNY''))])
      (js ''settlement_amount'') = Str (quote_amount q) \<and>
    get_prop (Obj [(js ''settlement_amount'', Str (js ''9.9'')), (js ''settlement_currency'', Str (js ''CNY''))])
      (js ''settlement_currency'') = Str (quote_currency q) \<and> 0 < val (to_number (quote_amount q)) \<and>
    snd (processWaffoPancakePayment \<lparr>url_protocol = (\<lambda>_. None), user_agent = [], popup_opens = True, popup_name = []\<rparr>
      Undefined (Num 20) (Obj [(js ''settlement_amount'', Str (js ''9.9'')), (js ''settlement_currency'', Str (js ''CNY'')),
        (js ''discount_code'', Str (js ''SPRING''))]) True True (Inr Null)) =
      [Set_processing True, Request (js ''waffo_pancake'') props] @ effs \<and>
    set (expectedSettlement q) \<subseteq> set props \<and> (js ''amount'', Number (num_floor (Num 20))) \<in> set props)"
proof -
  have d: "dispatchSelectedPayment (Obj [(js ''type'', Str (js ''waffo_pancake''))]) (Num 20) None
     (Some [(js ''settlement_amount'', Str (js ''9.9'')), (js ''settlement_currency'', Str (js ''CNY''))]) (js ''SPRING'') =
   To_waffo_pancake (Num 20) [(js ''settlement_amount'', Str (js ''9.9'')), (js ''settlement_currency'', Str (js ''CNY'')),
     (js ''discount_code'', Str (js ''SPRING''))]"
    by code_simp
  show ?thesis
    by (rule conjI [OF d dispatched_quote_is_sent [OF d]])
qed

end
