(* ===== verification/PaymentQuote.thy ===== *)
theory PaymentQuote
  imports Checkout
begin

text \<open>
  The price shown in the wallet: \<open>requestPaymentQuote\<close> and the quote state of \<open>usePayment\<close> in
  \<open>features/wallet/hooks/use-payment.ts\<close>. Calculations overlap: each takes the next request id and waits for its
  answer in \<open>pending\<close>; answers arrive in any order, and the account, preference or language (the scope) may change or the
  page may be left in between.
\<close>

section \<open>Reading an answer\<close>

text \<open>\<open>Number.parseFloat\<close>: the longest prefix that is a decimal literal.\<close>

definition exponent_prefix :: "jsstr \<Rightarrow> jsstr" where
  "exponent_prefix s =
     (case s of c # r \<Rightarrow>
        if c = 101 \<or> c = 69 then
          (let sg = (case r of d # _ \<Rightarrow> if d = 43 \<or> d = 45 then [d] else [] | [] \<Rightarrow> []);
               ds = takeWhile is_digit (drop (length sg) r)
           in if ds = [] then [] else c # sg @ ds)
        else []
      | [] \<Rightarrow> [])"

definition parse_float :: "jsstr \<Rightarrow> number" where
  "parse_float s =
     (let t = trim_start s;
          neg = (case t of c # _ \<Rightarrow> c = 45 | [] \<Rightarrow> False);
          u = (case t of c # r \<Rightarrow> if c = 43 \<or> c = 45 then r else t | [] \<Rightarrow> []);
          ip = takeWhile is_digit u; r1 = dropWhile is_digit u;
          fp = (case r1 of c # r \<Rightarrow> if c = 46 then c # takeWhile is_digit r else [] | [] \<Rightarrow> []);
          r2 = drop (length fp) r1;
          v = (if starts_with u (js ''Infinity'') then Infin False
               else case decimal_value (ip @ fp @ exponent_prefix r2) of Some q \<Rightarrow> round64 q | None \<Rightarrow> NaN)
      in if neg then num_neg v else v)"

record payment_quote =
  pq_amount :: number
  pq_settlementQuote :: "SettlementQuote option"
  pq_errorReason :: "jsstr option"

definition extractErrorReason :: "jsval \<Rightarrow> jsstr option" where
  "extractErrorReason res =
     (let data = get_prop res (js ''data''); message = get_prop res (js ''message'')
      in if is_Str data \<and> trim (str_of data) \<noteq> [] \<and> data \<noteq> Str (js ''error'') then Some (trim (str_of data))
         else if is_Str message \<and> trim (str_of message) \<noteq> [] \<and> message \<noteq> Str (js ''error'') \<and> message \<noteq> Str (js ''success'')
           then Some (trim (str_of message))
         else None)"

definition no_quote :: "jsstr option \<Rightarrow> payment_quote" where
  "no_quote reason = \<lparr>pq_amount = Num 0, pq_settlementQuote = None, pq_errorReason = reason\<rparr>"

text \<open>Which calculator is asked, and with what.\<close>

definition quote_request :: "number \<Rightarrow> jsval \<Rightarrow> jsstr \<Rightarrow> jsstr \<times> (jsstr \<times> jsval) list" where
  "quote_request topupAmount paymentType discountCode =
     (let usesRegularCalculator = (\<not> isStripePayment paymentType \<and> \<not> isWaffoPayment paymentType \<and>
            \<not> isWaffoPancakePayment paymentType)
      in (if isStripePayment paymentType then js ''stripe'' else if isWaffoPayment paymentType then js ''waffo''
          else if isWaffoPancakePayment paymentType then js ''waffoPancake'' else js ''regular'',
          [(js ''amount'', Number topupAmount)] @
          (if usesRegularCalculator then [(js ''payment_method'', paymentType)] else []) @ discount_part discountCode))"

text \<open>
  \<open>requestPaymentQuote\<close> after its answer: \<open>Inl\<close> a rejection, \<open>Inr\<close> a response. \<open>None\<close> is the exception raised
  when the response is \<open>undefined\<close> or \<open>null\<close>.
\<close>

definition requestPaymentQuote :: "jsval \<Rightarrow> jsval + jsval \<Rightarrow> payment_quote option" where
  "requestPaymentQuote paymentType outcome =
     (case outcome of
        Inl error \<Rightarrow>
          (let body = get_prop (get_prop error (js ''response'')) (js ''data'');
               reason = or_else (or_else (get_prop body (js ''data'')) (get_prop body (js ''message'')))
                 (or_else (get_prop error (js ''message'')) Undefined)
           in Some (no_quote (case reason of Str s \<Rightarrow> Some s | _ \<Rightarrow> None)))
      | Inr response \<Rightarrow>
        if nullish response then None
        else let data = get_prop response (js ''data'')
          in if \<not> isApiSuccess response \<or> \<not> truthy_val data then Some (no_quote (extractErrorReason response))
             else if isWaffoPancakePayment paymentType then
               (case parseSettlementQuote (Obj [(js ''amount'', data),
                    (js ''currency'', get_prop response (js ''settlement_currency'')),
                    (js ''originalAmount'', get_prop response (js ''original_settlement_amount'')),
                    (js ''savingsAmount'', get_prop response (js ''savings_settlement_amount''))]) of
                  Some q \<Rightarrow> Some \<lparr>pq_amount = to_number (quote_amount q), pq_settlementQuote = Some q, pq_errorReason = None\<rparr>
                | None \<Rightarrow> Some (no_quote (extractErrorReason response)))
             else Some \<lparr>pq_amount = parse_float (string_of_val data), pq_settlementQuote = None, pq_errorReason = None\<rparr>)"

section \<open>The quote of the page\<close>

record calculation =
  calc_id :: nat
  calc_scope :: jsstr
  calc_amount :: number
  calc_type :: jsval
  calc_code :: jsstr

record quote_state =
  scope_key :: jsstr
  mounted :: bool
  quote :: "(jsstr \<times> number \<times> SettlementQuote option) option"
  calculatingScope :: "jsstr option"
  quoteError :: "jsstr option"
  lastQuoteError :: "jsstr option"
  amountRequestId :: nat
  pending :: "calculation list"
  returned :: "(nat \<times> number) list"

definition quote_start :: "jsstr \<Rightarrow> quote_state" where
  "quote_start scope =
     \<lparr>scope_key = scope, mounted = True, quote = None, calculatingScope = None, quoteError = None, lastQuoteError = None,
      amountRequestId = 0, pending = [], returned = []\<rparr>"

text \<open>What the page shows: a quote of another scope is hidden.\<close>

definition shown_quote :: "quote_state \<Rightarrow> (number \<times> SettlementQuote option) option" where
  "shown_quote s =
     (case quote s of Some (sc, a, q) \<Rightarrow> if sc = scope_key s then Some (a, q) else None | None \<Rightarrow> None)"

definition shown_amount :: "quote_state \<Rightarrow> number" where
  "shown_amount s = (case shown_quote s of Some (a, _) \<Rightarrow> a | None \<Rightarrow> Num 0)"

definition calculating :: "quote_state \<Rightarrow> bool" where
  "calculating s \<longleftrightarrow> calculatingScope s = Some (scope_key s)"

definition invalidateQuote :: "quote_state \<Rightarrow> quote_state" where
  "invalidateQuote s =
     s\<lparr>amountRequestId := Suc (amountRequestId s), quote := None, calculatingScope := None, quoteError := None,
       lastQuoteError := None\<rparr>"

text \<open>\<open>calculatePaymentAmount\<close> up to its request.\<close>

definition calculatePaymentAmount :: "bool \<Rightarrow> number \<Rightarrow> jsval \<Rightarrow> jsstr \<Rightarrow> quote_state \<Rightarrow> quote_state" where
  "calculatePaymentAmount localPreview topupAmount paymentType discountCode s =
     (let requestId = Suc (amountRequestId s); s1 = s\<lparr>amountRequestId := requestId\<rparr>
      in if localPreview \<and> \<not> isWaffoPancakePayment paymentType then
           s1\<lparr>quote := Some (scope_key s, topupAmount, None), quoteError := None, lastQuoteError := None,
              returned := returned s @ [(requestId, topupAmount)]\<rparr>
         else
           s1\<lparr>quote := None, calculatingScope := Some (scope_key s), quoteError := None, lastQuoteError := None,
              pending := pending s @ [\<lparr>calc_id = requestId, calc_scope = scope_key s, calc_amount = topupAmount,
                calc_type = paymentType, calc_code = discountCode\<rparr>]\<rparr>)"

text \<open>\<open>isCurrent()\<close> in the closure of a calculation, and whether it is the newest.\<close>

definition newest :: "calculation \<Rightarrow> quote_state \<Rightarrow> bool" where
  "newest c s \<longleftrightarrow> calc_id c = amountRequestId s \<and> mounted s \<and> scope_key s = calc_scope c"

definition amount_answered :: "calculation \<Rightarrow> jsval + jsval \<Rightarrow> quote_state \<Rightarrow> quote_state" where
  "amount_answered c outcome s =
     (case requestPaymentQuote (calc_type c) outcome of
        Some calculated \<Rightarrow>
          if \<not> newest c s then s\<lparr>returned := returned s @ [(calc_id c, Num 0)]\<rparr>
          else s\<lparr>lastQuoteError := pq_errorReason calculated, quoteError := pq_errorReason calculated,
                 quote := Some (calc_scope c, pq_amount calculated, pq_settlementQuote calculated),
                 returned := returned s @ [(calc_id c, pq_amount calculated)], calculatingScope := None\<rparr>
      | None \<Rightarrow>
          if newest c s
          then s\<lparr>quote := None, quoteError := None, lastQuoteError := None,
                 returned := returned s @ [(calc_id c, Num 0)], calculatingScope := None\<rparr>
          else s\<lparr>returned := returned s @ [(calc_id c, Num 0)]\<rparr>)"

datatype quote_event =
    Calculate number jsval jsstr
  | Answer nat "jsval + jsval"
  | Invalidate
  | Scope_changed jsstr
  | Unmounted

definition quote_step :: "bool \<Rightarrow> quote_event \<Rightarrow> quote_state \<Rightarrow> quote_state" where
  "quote_step localPreview event s =
     (case event of
        Calculate a t c \<Rightarrow> calculatePaymentAmount localPreview a t c s
      | Answer i outcome \<Rightarrow>
          (case find (\<lambda>c. calc_id c = i) (pending s) of
             Some c \<Rightarrow> amount_answered c outcome (s\<lparr>pending := filter (\<lambda>c. calc_id c \<noteq> i) (pending s)\<rparr>)
           | None \<Rightarrow> s)
      | Invalidate \<Rightarrow> invalidateQuote s
      | Scope_changed scope \<Rightarrow> s\<lparr>scope_key := scope\<rparr>
      | Unmounted \<Rightarrow> s\<lparr>mounted := False\<rparr>)"

definition quote_run :: "bool \<Rightarrow> quote_event list \<Rightarrow> quote_state \<Rightarrow> quote_state" where
  "quote_run localPreview events s = foldl (\<lambda>s e. quote_step localPreview e s) s events"

section \<open>Only the newest calculation sets the quote\<close>

lemma quote_run_simps [simp]:
  "quote_run pre [] s = s" "quote_run pre (es @ [e]) s = quote_step pre e (quote_run pre es s)"
  by (simp_all add: quote_run_def)

text \<open>The events that take a new request id.\<close>

definition renews :: "quote_event \<Rightarrow> bool" where
  "renews e = (case e of Calculate _ _ _ \<Rightarrow> True | Invalidate \<Rightarrow> True | _ \<Rightarrow> False)"

text \<open>The last request id taken in the run \<open>es\<close> was that of this calculation, asked for in the scope \<open>sc\<close>.\<close>

definition last_calculation ::
  "bool \<Rightarrow> quote_state \<Rightarrow> quote_event list \<Rightarrow> number \<Rightarrow> jsval \<Rightarrow> jsstr \<Rightarrow> jsstr \<Rightarrow> quote_event list \<Rightarrow> bool" where
  "last_calculation pre s0 es a t c sc es2 \<longleftrightarrow>
     (\<exists>es1. es = es1 @ Calculate a t c # es2 \<and> (\<forall>e \<in> set es2. \<not> renews e) \<and> scope_key (quote_run pre es1 s0) = sc)"

lemma last_calculation_now: "scope_key (quote_run pre es s0) = sc \<Longrightarrow> last_calculation pre s0 (es @ [Calculate a t c]) a t c sc []"
  by (auto simp: last_calculation_def)

lemma last_calculation_later:
  "last_calculation pre s0 es a t c sc es2 \<Longrightarrow> \<not> renews e \<Longrightarrow> last_calculation pre s0 (es @ [e]) a t c sc (es2 @ [e])"
  by (auto simp: last_calculation_def)

text \<open>What a quote must come from.\<close>

definition answers ::
  "bool \<Rightarrow> nat \<Rightarrow> number \<Rightarrow> jsval \<Rightarrow> quote_event list \<Rightarrow> number \<Rightarrow> SettlementQuote option \<Rightarrow> bool" where
  "answers pre i a t es2 amount sq \<longleftrightarrow>
     (pre \<and> \<not> isWaffoPancakePayment t \<and> amount = a \<and> sq = None) \<or>
     (\<exists>outcome r. Answer i outcome \<in> set es2 \<and> requestPaymentQuote t outcome = Some r \<and>
        amount = pq_amount r \<and> sq = pq_settlementQuote r)"

lemma answers_later: "answers pre i a t es2 amount sq \<Longrightarrow> answers pre i a t (es2 @ [e]) amount sq"
  by (auto simp: answers_def)

definition quote_inv :: "bool \<Rightarrow> quote_state \<Rightarrow> quote_event list \<Rightarrow> bool" where
  "quote_inv pre s0 es \<longleftrightarrow>
     (let s = quote_run pre es s0 in
       (\<forall>p \<in> set (pending s). calc_id p \<le> amountRequestId s \<and>
          (calc_id p = amountRequestId s \<longrightarrow>
             (\<exists>es2. last_calculation pre s0 es (calc_amount p) (calc_type p) (calc_code p) (calc_scope p) es2))) \<and>
       (\<forall>sc amount sq. quote s = Some (sc, amount, sq) \<longrightarrow>
          (\<exists>a t c es2. last_calculation pre s0 es a t c sc es2 \<and> answers pre (amountRequestId s) a t es2 amount sq)))"

lemma quote_inv_pending:
  assumes "quote_inv pre s0 es" "p \<in> set (pending (quote_run pre es s0))"
  shows "calc_id p \<le> amountRequestId (quote_run pre es s0)"
    and "calc_id p = amountRequestId (quote_run pre es s0) \<Longrightarrow>
      \<exists>es2. last_calculation pre s0 es (calc_amount p) (calc_type p) (calc_code p) (calc_scope p) es2"
  using assms by (simp_all add: quote_inv_def Let_def)

lemma quote_inv_quote:
  assumes "quote_inv pre s0 es" "quote (quote_run pre es s0) = Some (sc, amount, sq)"
  shows "\<exists>a t c es2. last_calculation pre s0 es a t c sc es2 \<and>
    answers pre (amountRequestId (quote_run pre es s0)) a t es2 amount sq"
  using assms by (simp add: quote_inv_def Let_def)

text \<open>An event that takes no request id keeps what was known, and may replace the quote by one it can justify.\<close>

lemma quote_inv_quiet:
  assumes inv: "quote_inv pre s0 es" and e: "\<not> renews e"
    and sub: "set (pending (quote_run pre (es @ [e]) s0)) \<subseteq> set (pending (quote_run pre es s0))"
    and same: "amountRequestId (quote_run pre (es @ [e]) s0) = amountRequestId (quote_run pre es s0)"
    and new: "\<And>sc amount sq. quote (quote_run pre (es @ [e]) s0) = Some (sc, amount, sq) \<Longrightarrow>
      quote (quote_run pre es s0) = Some (sc, amount, sq) \<or>
      (\<exists>a t c es2. last_calculation pre s0 es a t c sc es2 \<and>
         answers pre (amountRequestId (quote_run pre es s0)) a t (es2 @ [e]) amount sq)"
  shows "quote_inv pre s0 (es @ [e])"
proof -
  have "calc_id p \<le> amountRequestId (quote_run pre (es @ [e]) s0) \<and>
      (calc_id p = amountRequestId (quote_run pre (es @ [e]) s0) \<longrightarrow>
        (\<exists>es2. last_calculation pre s0 (es @ [e]) (calc_amount p) (calc_type p) (calc_code p) (calc_scope p) es2))"
    if "p \<in> set (pending (quote_run pre (es @ [e]) s0))" for p
    unfolding same using quote_inv_pending [OF inv subsetD [OF sub that]] last_calculation_later [OF _ e] by blast
  moreover have "\<exists>a t c es2. last_calculation pre s0 (es @ [e]) a t c sc es2 \<and>
      answers pre (amountRequestId (quote_run pre (es @ [e]) s0)) a t es2 amount sq"
    if "quote (quote_run pre (es @ [e]) s0) = Some (sc, amount, sq)" for sc amount sq
    unfolding same using new [OF that] quote_inv_quote [OF inv] last_calculation_later [OF _ e] answers_later by meson
  ultimately show ?thesis unfolding quote_inv_def Let_def by blast
qed

text \<open>An event that takes one leaves no calculation newest but its own.\<close>

lemma quote_inv_renewed:
  assumes inv: "quote_inv pre s0 es"
    and "amountRequestId (quote_run pre (es @ [e]) s0) = Suc (amountRequestId (quote_run pre es s0))"
    and "\<And>p. p \<in> set (pending (quote_run pre (es @ [e]) s0)) \<Longrightarrow> p \<in> set (pending (quote_run pre es s0)) \<or>
      (calc_id p = Suc (amountRequestId (quote_run pre es s0)) \<and>
       last_calculation pre s0 (es @ [e]) (calc_amount p) (calc_type p) (calc_code p) (calc_scope p) [])"
    and "\<And>sc amount sq. quote (quote_run pre (es @ [e]) s0) = Some (sc, amount, sq) \<Longrightarrow>
      \<exists>a t c. last_calculation pre s0 (es @ [e]) a t c sc [] \<and> answers pre (Suc (amountRequestId (quote_run pre es s0))) a t [] amount sq"
  shows "quote_inv pre s0 (es @ [e])"
  using assms(3,4) quote_inv_pending(1) [OF inv] unfolding quote_inv_def Let_def assms(2)
  by (metis Suc_n_not_le_n le_SucI order_refl)

lemma answered_frame:
  "pending (amount_answered c outcome s) = pending s" "amountRequestId (amount_answered c outcome s) = amountRequestId s"
  "quote (amount_answered c outcome s) = Some (sc, amount, sq) \<Longrightarrow> quote s = Some (sc, amount, sq) \<or>
     (calc_id c = amountRequestId s \<and> sc = calc_scope c \<and>
      (\<exists>r. requestPaymentQuote (calc_type c) outcome = Some r \<and> amount = pq_amount r \<and> sq = pq_settlementQuote r))"
  by (auto simp: amount_answered_def newest_def split: option.splits if_splits)

lemma step_answer:
  assumes inv: "quote_inv pre s0 es"
  shows "quote_inv pre s0 (es @ [Answer i outcome])"
proof (cases "find (\<lambda>c. calc_id c = i) (pending (quote_run pre es s0))")
  case None
  with inv show ?thesis
    by (intro quote_inv_quiet) (simp_all add: renews_def quote_step_def)
next
  case (Some c)
  have c: "c \<in> set (pending (quote_run pre es s0))" "calc_id c = i"
    using Some by (auto simp: find_Some_iff)
  show ?thesis
  proof (rule quote_inv_quiet [OF inv])
    fix sc amount sq
    assume q: "quote (quote_run pre (es @ [Answer i outcome]) s0) = Some (sc, amount, sq)"
    then consider "quote (quote_run pre es s0) = Some (sc, amount, sq)"
      | r where "calc_id c = amountRequestId (quote_run pre es s0)" "sc = calc_scope c"
        "requestPaymentQuote (calc_type c) outcome = Some r" "amount = pq_amount r" "sq = pq_settlementQuote r"
      using Some answered_frame(3) [of c outcome _ sc amount sq] by (fastforce simp: quote_step_def)
    then show "quote (quote_run pre es s0) = Some (sc, amount, sq) \<or>
      (\<exists>a t c es2. last_calculation pre s0 es a t c sc es2 \<and>
         answers pre (amountRequestId (quote_run pre es s0)) a t (es2 @ [Answer i outcome]) amount sq)"
    proof cases
      case 2
      from quote_inv_pending(2) [OF inv c(1) 2(1)] obtain es2 where
        "last_calculation pre s0 es (calc_amount c) (calc_type c) (calc_code c) sc es2"
        using 2(2) by blast
      moreover have "answers pre (amountRequestId (quote_run pre es s0)) (calc_amount c) (calc_type c)
          (es2 @ [Answer i outcome]) amount sq"
        using 2 c(2) by (auto simp: answers_def)
      ultimately show ?thesis by blast
    qed simp
  qed (use Some in \<open>auto simp: renews_def quote_step_def answered_frame\<close>)
qed

lemma quote_inv_run: "quote_inv pre (quote_start sc0) es"
proof (induction es rule: rev_induct)
  case Nil
  then show ?case by (simp add: quote_inv_def quote_start_def)
next
  case (snoc e es)
  show ?case
  proof (cases e)
    case (Calculate a t c)
    then show ?thesis
      by (intro quote_inv_renewed [OF snoc.IH])
        (auto simp: quote_step_def calculatePaymentAmount_def Let_def answers_def last_calculation_now split: if_splits,
          blast intro: last_calculation_now [OF refl])
  next
    case (Answer i outcome)
    then show ?thesis using step_answer [OF snoc.IH] by simp
  next
    case Invalidate
    then show ?thesis
      by (intro quote_inv_renewed [OF snoc.IH]) (simp_all add: quote_step_def invalidateQuote_def)
  next
    case (Scope_changed scope)
    then show ?thesis
      by (intro quote_inv_quiet [OF snoc.IH]) (simp_all add: quote_step_def renews_def)
  next
    case Unmounted
    then show ?thesis
      by (intro quote_inv_quiet [OF snoc.IH]) (simp_all add: quote_step_def renews_def)
  qed
qed

lemma shown_quote_origin:
  assumes "shown_quote (quote_run pre es (quote_start sc0)) = Some (amount, sq)"
  shows "\<exists>a t c es2.
    last_calculation pre (quote_start sc0) es a t c (scope_key (quote_run pre es (quote_start sc0))) es2 \<and>
    answers pre (amountRequestId (quote_run pre es (quote_start sc0))) a t es2 amount sq"
proof -
  have "quote (quote_run pre es (quote_start sc0)) =
      Some (scope_key (quote_run pre es (quote_start sc0)), amount, sq)"
    using assms by (auto simp: shown_quote_def split: option.splits if_splits)
  from quote_inv_quote [OF quote_inv_run this] show ?thesis .
qed

text \<open>C7: Whatever the order in which answers arrive, the quote shown belongs to the last calculation the page asked for,
  made in the scope now current and not invalidated since: it is the answer to that very request (or, in a local
  preview, the amount itself).\<close>

theorem shown_quote_is_newest:
  assumes "shown_quote (quote_run pre es (quote_start sc0)) = Some (amount, sq)"
  shows "\<exists>es1 a t c es2. es = es1 @ Calculate a t c # es2 \<and> (\<forall>e \<in> set es2. \<not> renews e) \<and>
    scope_key (quote_run pre es1 (quote_start sc0)) = scope_key (quote_run pre es (quote_start sc0)) \<and>
    answers pre (amountRequestId (quote_run pre es (quote_start sc0))) a t es2 amount sq"
  using shown_quote_origin [OF assms] unfolding last_calculation_def by blast

text \<open>Two calculations whose answers arrive in the wrong order.\<close>

definition sample_quote_run :: "quote_event list" where
  "sample_quote_run =
     [Calculate (Num 10) (Str (js ''bank'')) [], Calculate (Num 20) (Str (js ''bank'')) [],
      Answer 2 (Inr (Obj [(js ''success'', Bool True), (js ''data'', Str (js ''140.5''))])),
      Answer 1 (Inr (Obj [(js ''success'', Bool True), (js ''data'', Str (js ''70''))]))]"

theorem shown_quote_is_newest_witness:
  "shown_quote (quote_run False sample_quote_run (quote_start (js ''u''))) = Some (Num (281 / 2), None) \<and>
   (\<exists>es1 a t c es2. sample_quote_run = es1 @ Calculate a t c # es2 \<and> (\<forall>e \<in> set es2. \<not> renews e) \<and>
    scope_key (quote_run False es1 (quote_start (js ''u''))) = scope_key (quote_run False sample_quote_run (quote_start (js ''u''))) \<and>
    answers False (amountRequestId (quote_run False sample_quote_run (quote_start (js ''u'')))) a t es2 (Num (281 / 2)) None)"
proof -
  have s: "shown_quote (quote_run False sample_quote_run (quote_start (js ''u''))) = Some (Num (281 / 2), None)"
    by code_simp
  show ?thesis
    by (rule conjI [OF s shown_quote_is_newest [OF s]])
qed

end
