(* ===== verification/ModelMapping.thy ===== *)
theory ModelMapping
  imports JsValue
begin

text \<open>
  Model lists and model redirects of a channel: \<open>features/channels/lib/model-mapping-validation.ts\<close>. The sets of the
  source are lists in insertion order without duplicates.
\<close>

section \<open>Model\<close>

definition parseModelsString :: "jsstr \<Rightarrow> jsstr list" where
  "parseModelsString modelsStr =
     (if modelsStr = [] then [] else filter nonempty (map trim (split_on 44 modelsStr)))"

definition formatModelsArray :: "jsstr list \<Rightarrow> jsstr" where
  "formatModelsArray models = join [44] (uniq models)"

definition normalizeModelName :: "jsstr \<Rightarrow> jsstr" where
  "normalizeModelName model = trim model"

text \<open>The mapping when the text is a JSON object, as both extractors and the validator test it.\<close>

definition parsed_mapping :: "jsstr \<Rightarrow> (jsstr \<times> jsval) list option" where
  "parsed_mapping text = (case json_parse text of Some (Obj ps) \<Rightarrow> Some (own_entries ps) | _ \<Rightarrow> None)"

definition extractMappingSourceModels :: "jsstr \<Rightarrow> jsstr list" where
  "extractMappingSourceModels modelMapping =
     (let trimmed = trim modelMapping
      in if trimmed = [] then []
         else case parsed_mapping trimmed of None \<Rightarrow> []
           | Some entries \<Rightarrow> uniq (filter nonempty (map (\<lambda>(k, _). trim k) entries)))"

definition extractRedirectModels :: "jsstr \<Rightarrow> jsstr list" where
  "extractRedirectModels modelMapping =
     (let trimmed = trim modelMapping
      in if trimmed = [] then []
         else case parsed_mapping trimmed of None \<Rightarrow> []
           | Some entries \<Rightarrow>
             uniq (List.map_filter (\<lambda>(_, v). case v of Str s \<Rightarrow> if trim s = [] then None else Some (trim s) | _ \<Rightarrow> None)
               entries))"

text \<open>The loop over the models compares them one by one after their lengths.\<close>

definition hasModelConfigChanged :: "jsstr list \<Rightarrow> jsstr \<Rightarrow> jsstr list \<Rightarrow> jsstr \<Rightarrow> bool" where
  "hasModelConfigChanged currentModels currentModelMapping initialModels initialModelMapping =
     (if initialModels = [] \<and> initialModelMapping = [] then True
      else if length currentModels \<noteq> length initialModels then True
      else if \<exists>i \<in> {0..<length currentModels}. currentModels ! i \<noteq> initialModels ! i then True
      else trim currentModelMapping \<noteq> trim initialModelMapping)"

definition findMissingModelsInMapping :: "jsstr \<Rightarrow> jsstr list \<Rightarrow> jsstr list" where
  "findMissingModelsInMapping modelMapping currentModels =
     (if modelMapping = [] \<or> trim modelMapping = [] then []
      else case parsed_mapping modelMapping of None \<Rightarrow> []
        | Some entries \<Rightarrow>
          (let modelSet = uniq (map normalizeModelName currentModels)
           in uniq (filter (\<lambda>k. k \<noteq> [] \<and> k \<notin> set modelSet) (map (\<lambda>(k, _). normalizeModelName k) entries))))"

datatype mapping_check = Valid | Not_an_object | Values_not_strings | Not_JSON

definition validateModelMappingJson :: "jsstr \<Rightarrow> mapping_check" where
  "validateModelMappingJson modelMapping =
     (if modelMapping = [] \<or> trim modelMapping = [] then Valid
      else case json_parse modelMapping of None \<Rightarrow> Not_JSON
        | Some (Obj ps) \<Rightarrow> if list_ex (\<lambda>(_, v). \<not> is_Str v) (own_entries ps) then Values_not_strings else Valid
        | Some _ \<Rightarrow> Not_an_object)"

definition findExposedTargetModels :: "jsstr \<Rightarrow> jsstr list \<Rightarrow> jsstr list" where
  "findExposedTargetModels modelMapping currentModels =
     (let redirectModels = extractRedirectModels modelMapping
      in if redirectModels = [] then []
         else let modelSet = uniq (map normalizeModelName currentModels)
              in filter (\<lambda>m. normalizeModelName m \<in> set modelSet) redirectModels)"

record model_categories =
  normalizedCurrentModels :: "jsstr list"
  normalizedRedirectModels :: "jsstr list"
  classificationSet :: "jsstr list"
  redirectOnlySet :: "jsstr list"

definition categorizeModelsWithRedirect :: "jsstr list \<Rightarrow> jsstr list \<Rightarrow> model_categories" where
  "categorizeModelsWithRedirect currentModels redirectModels =
     (let current = uniq (filter nonempty (map normalizeModelName currentModels));
          redirect = uniq (filter nonempty (map normalizeModelName redirectModels))
      in \<lparr>normalizedCurrentModels = current, normalizedRedirectModels = redirect,
          classificationSet = uniq (current @ redirect),
          redirectOnlySet = uniq (filter (\<lambda>m. m \<notin> set current) redirect)\<rparr>)"

section \<open>Model lists\<close>

text \<open>A name that can stand in a list: trimmed, not empty, without a comma.\<close>

definition listable :: "jsstr \<Rightarrow> bool" where
  "listable m \<longleftrightarrow> m \<noteq> [] \<and> trim m = m \<and> 44 \<notin> set m"

lemma parsed_listable: "m \<in> set (parseModelsString s) \<Longrightarrow> listable m"
  using set_trim by (fastforce simp: parseModelsString_def listable_def nonempty_def split: if_splits dest: split_on_no_sep)

lemma join_not_Nil: "ws \<noteq> [] \<Longrightarrow> \<forall>w \<in> set ws. w \<noteq> [] \<Longrightarrow> join sep ws \<noteq> []"
  by (induction sep ws rule: join.induct) auto

text \<open>A list of models that can be written is read back without its duplicates, every name read from a text can be
  written, and so formatting what was parsed loses nothing but duplicates and blanks.\<close>

lemma models_text_round_trip:
  assumes "\<forall>m \<in> set ms. listable m"
  shows "parseModelsString (formatModelsArray ms) = uniq ms \<and>
    parseModelsString (formatModelsArray (parseModelsString s)) = uniq (parseModelsString s)"
proof -
  have read: "parseModelsString (formatModelsArray xs) = uniq xs" if "\<forall>m \<in> set xs. listable m" for xs
  proof (cases "xs = []")
    case True
    then show ?thesis by (simp add: formatModelsArray_def parseModelsString_def)
  next
    case False
    have l: "\<forall>m \<in> set (uniq xs). m \<noteq> [] \<and> trim m = m \<and> 44 \<notin> set m"
      using that by (simp add: listable_def)
    have "split_on 44 (join [44] (uniq xs)) = uniq xs" "join [44] (uniq xs) \<noteq> []"
      using l False by (simp_all add: split_on_join join_not_Nil)
    moreover have "map trim (uniq xs) = uniq xs"
      using l by (intro map_idI) simp
    moreover have "filter nonempty (uniq xs) = uniq xs"
      using l by (simp add: nonempty_def)
    ultimately show ?thesis by (simp add: formatModelsArray_def parseModelsString_def)
  qed
  then show ?thesis using assms parsed_listable by blast
qed

section \<open>Redirects\<close>

lemma map_filter_strings:
  "set (List.map_filter (\<lambda>(_, v). case v of Str s \<Rightarrow> if trim s = [] then None else Some (trim s) | _ \<Rightarrow> None) entries) =
     {trim s | k s. (k, Str s) \<in> set entries \<and> trim s \<noteq> []}"
  by (force simp: List.map_filter_def split: jsval.splits if_splits)

lemma validate_iff:
  "validateModelMappingJson m = Valid \<longleftrightarrow>
     trim m = [] \<or> (\<exists>ps. json_parse m = Some (Obj ps) \<and> (\<forall>(k, v) \<in> set ps. is_Str v))"
  by (auto simp: validateModelMappingJson_def list_ex_iff split: option.splits jsval.splits)

lemma missing_set:
  assumes "trim m \<noteq> []" "parsed_mapping m = Some entries"
  shows "set (findMissingModelsInMapping m models) =
    {trim k | k v. (k, v) \<in> set entries \<and> trim k \<noteq> []} - trim ` set models"
proof -
  have "m \<noteq> []" using assms(1) by auto
  with assms have "set (findMissingModelsInMapping m models) =
      {k \<in> (\<lambda>(k, v). trim k) ` set entries. k \<noteq> [] \<and> k \<notin> trim ` set models}"
    by (simp add: findMissingModelsInMapping_def Let_def normalizeModelName_def)
  then show ?thesis by force
qed

lemma redirect_set:
  assumes "trim m \<noteq> []" "parsed_mapping (trim m) = Some entries"
  shows "set (extractRedirectModels m) = {trim s | k s. (k, Str s) \<in> set entries \<and> trim s \<noteq> []}"
  using assms by (simp add: extractRedirectModels_def Let_def map_filter_strings)

lemma exposed_filter:
  "findExposedTargetModels m models = filter (\<lambda>x. trim x \<in> trim ` set models) (extractRedirectModels m)"
  by (auto simp: findExposedTargetModels_def Let_def normalizeModelName_def)

lemma redirect_trimmed: "x \<in> set (extractRedirectModels m) \<Longrightarrow> trim x = x"
  by (auto simp: extractRedirectModels_def Let_def List.map_filter_def
      split: option.splits if_splits jsval.splits)

lemma exposed_set:
  assumes "trim m \<noteq> []" "parsed_mapping (trim m) = Some entries"
  shows "set (findExposedTargetModels m models) =
    {trim s | k s. (k, Str s) \<in> set entries \<and> trim s \<noteq> []} \<inter> trim ` set models"
  using redirect_trimmed unfolding exposed_filter redirect_set [OF assms, symmetric] by auto

lemma warnings_distinct:
  "distinct (findMissingModelsInMapping m models)" "distinct (findExposedTargetModels m models)"
  by (simp_all add: findMissingModelsInMapping_def exposed_filter extractRedirectModels_def Let_def split: option.splits)

text \<open>C32: For a mapping the validator accepts, the editor's warnings are exact: the missing models are the source names
  that the list lacks, and the exposed models are the redirect targets that the list contains, each reported once.
  The validator accepts blank texts and JSON objects of strings, and nothing else.\<close>

theorem mapping_warnings_exact:
  "(validateModelMappingJson m = Valid \<longleftrightarrow>
      trim m = [] \<or> (\<exists>ps. json_parse m = Some (Obj ps) \<and> (\<forall>(k, v) \<in> set ps. is_Str v))) \<and>
   (\<forall>entries. trim m \<noteq> [] \<longrightarrow> parsed_mapping m = Some entries \<longrightarrow>
      set (findMissingModelsInMapping m models) = {trim k | k v. (k, v) \<in> set entries \<and> trim k \<noteq> []} - trim ` set models) \<and>
   (\<forall>entries. trim m \<noteq> [] \<longrightarrow> parsed_mapping (trim m) = Some entries \<longrightarrow>
      set (findExposedTargetModels m models) = {trim s | k s. (k, Str s) \<in> set entries \<and> trim s \<noteq> []} \<inter> trim ` set models) \<and>
   distinct (findMissingModelsInMapping m models) \<and> distinct (findExposedTargetModels m models)"
  using validate_iff missing_set exposed_set warnings_distinct by (intro conjI allI impI) simp_all

theorem mapping_warnings_exact_witness:
  "set (findMissingModelsInMapping (js ''{\"a\":\"b\"}'') [js ''b'']) = {js ''a''} \<and>
   set (findExposedTargetModels (js ''{\"a\":\"b\"}'') [js ''b'']) = {js ''b''}"
proof -
  have p: "parsed_mapping (js ''{\"a\":\"b\"}'') = Some [(js ''a'', Str (js ''b''))]"
    "parsed_mapping (trim (js ''{\"a\":\"b\"}'')) = Some [(js ''a'', Str (js ''b''))]" "trim (js ''{\"a\":\"b\"}'') \<noteq> []"
    and tr: "trim (js ''a'') = js ''a''" "trim (js ''b'') = js ''b''"
    by code_simp+
  show ?thesis
    using mapping_warnings_exact [of "js ''{\"a\":\"b\"}''" "[js ''b'']"] p tr by auto
qed

end
