(* ===== verification/LightPuzzle.thy ===== *)
theory LightPuzzle
  imports JsNumber
begin

unbundle bit_operations_syntax

text \<open>
  The lights puzzle of the waiting screens (\<^verbatim>\<open>lib/light-puzzle.ts\<close>): a board of nine lights, a move
  turns over a light and its neighbours. Proved here: a move is its own inverse and moves commute, every
  board has a solution, and the solver, which runs through all 512 sets of moves, returns a shortest one.
\<close>

section \<open>The program\<close>

datatype range_error = Invalid_move | Invalid_board

definition LIGHT_PUZZLE_SEEDS :: "int list list" where
  "LIGHT_PUZZLE_SEEDS =
     [[0, 4, 8], [1, 3, 7], [0, 2, 6, 8], [2, 3, 4, 7], [0, 1, 5, 6], [1, 4, 6, 8], [0, 3, 5, 7],
      [2, 4, 5, 6], [0, 1, 2, 3, 4], [1, 2, 3, 5, 6], [0, 1, 4, 7, 8], [2, 3, 6, 7, 8]]"

definition light_distance :: "int \<Rightarrow> int \<Rightarrow> int" where
  "light_distance cell index = \<bar>cell div 3 - index div 3\<bar> + \<bar>cell mod 3 - index mod 3\<bar>"

definition toggleLight :: "bool list \<Rightarrow> number \<Rightarrow> range_error + bool list" where
  "toggleLight board index =
     (if length board \<noteq> 9 \<or> \<not> is_integer index \<or> num_lt index (Num 0) \<or> num_ge index (Num 9)
      then Inl Invalid_move
      else Inr (map (\<lambda>(cell, on). if light_distance (int cell) \<lfloor>val index\<rfloor> \<le> 1 then \<not> on else on)
             (enumerate 0 board)))"

fun apply_moves :: "bool list \<Rightarrow> number list \<Rightarrow> range_error + bool list" where
  "apply_moves board [] = Inr board"
| "apply_moves board (m # ms) = andThen (toggleLight board m) (\<lambda>b. apply_moves b ms)"

definition seed_index :: "number \<Rightarrow> nat option" where
  "seed_index rnd =
     (case rnd of Num r \<Rightarrow> Some (nat (\<bar>trunc_rat r\<bar> mod 12)) | NegZero \<Rightarrow> Some 0 | _ \<Rightarrow> None)"

definition createLightPuzzle :: "number \<Rightarrow> range_error + bool list" where
  "createLightPuzzle rnd =
     (let seed = (case seed_index rnd of Some i \<Rightarrow> LIGHT_PUZZLE_SEEDS ! i | None \<Rightarrow> LIGHT_PUZZLE_SEEDS ! 0)
      in apply_moves (replicate 9 False) (map (\<lambda>m. Num (of_int m)) seed))"

definition mask_moves :: "int \<Rightarrow> nat list" where
  "mask_moves msk = filter (\<lambda>index. msk AND push_bit index 1 \<noteq> 0) [0..<9]"

definition move_numbers :: "nat list \<Rightarrow> number list" where
  "move_numbers ms = map (\<lambda>m. Num (of_nat m)) ms"

definition try_mask :: "bool list \<Rightarrow> int \<Rightarrow> nat list option \<Rightarrow> range_error + nat list option" where
  "try_mask board msk best =
     (let moves = mask_moves msk in
      if (case best of Some b \<Rightarrow> length moves \<ge> length b | None \<Rightarrow> False) then Inr best
      else andThen (apply_moves board (move_numbers moves)) (\<lambda>result.
        Inr (if list_all Not result then Some moves else best)))"

fun try_masks :: "bool list \<Rightarrow> int list \<Rightarrow> nat list option \<Rightarrow> range_error + nat list option" where
  "try_masks board [] best = Inr best"
| "try_masks board (msk # masks) best =
     andThen (try_mask board msk best) (\<lambda>best'. try_masks board masks best')"

definition solveLightPuzzle :: "bool list \<Rightarrow> range_error + nat list" where
  "solveLightPuzzle board =
     (if length board \<noteq> 9 then Inl Invalid_board
      else andThen (try_masks board [0..511] None) (\<lambda>best.
        Inr (case best of Some moves \<Rightarrow> moves | None \<Rightarrow> [])))"

section \<open>The effect of moves\<close>

text \<open>Whether light \<open>c\<close> is turned over by move \<open>m\<close>, and by a list of moves.\<close>

definition flips :: "nat \<Rightarrow> nat \<Rightarrow> bool" where
  "flips m c \<longleftrightarrow> light_distance (int c) (int m) \<le> 1"

definition turned :: "nat list \<Rightarrow> nat \<Rightarrow> bool" where
  "turned ms c \<longleftrightarrow> odd (length (filter (\<lambda>m. flips m c) ms))"

definition press :: "bool list \<Rightarrow> nat list \<Rightarrow> bool list" where
  "press board ms = map (\<lambda>c. board ! c \<noteq> turned ms c) [0..<9]"

lemma length_press [simp]: "length (press b ms) = 9"
  by (simp add: press_def)

lemma toggleLight_press:
  assumes "length b = 9" and "m < 9"
  shows "toggleLight b (Num (of_nat m)) = Inr (press b [m])"
proof -
  have "toggleLight b (Num (of_nat m)) =
      Inr (map (\<lambda>(c, on). if flips m c then \<not> on else on) (enumerate 0 b))"
    using assms
    by (simp add: toggleLight_def is_integer_def num_ge_def num_le_def val_def flips_def num_lt.simps)
  also have "map (\<lambda>(c, on). if flips m c then \<not> on else on) (enumerate 0 b) = press b [m]"
    by (rule nth_equalityI) (use assms in \<open>auto simp: press_def turned_def nth_enumerate_eq\<close>)
  finally show ?thesis .
qed

lemma turned_append: "turned (ms @ ns) c \<longleftrightarrow> (turned ms c \<noteq> turned ns c)"
  by (auto simp: turned_def)

lemma press_press: "press (press b ms) ns = press b (ms @ ns)"
  by (auto simp: press_def turned_append)

lemma press_Nil: "length b = 9 \<Longrightarrow> press b [] = b"
  by (rule nth_equalityI) (simp_all add: press_def turned_def)

lemma apply_moves_press:
  assumes "length b = 9" and "set ms \<subseteq> {..<9}"
  shows "apply_moves b (move_numbers ms) = Inr (press b ms)"
  using assms
proof (induction ms arbitrary: b)
  case (Cons m ms)
  then show ?case by (simp add: move_numbers_def toggleLight_press press_press)
qed (simp add: move_numbers_def press_Nil)

section \<open>Sets of moves\<close>

text \<open>A list of moves does what the moves occurring an odd number of times do.\<close>

definition odd_moves :: "nat list \<Rightarrow> nat list" where
  "odd_moves ms = filter (\<lambda>m. odd (count_list ms m)) [0..<9]"

lemma count_list_distinct: "distinct xs \<Longrightarrow> count_list xs x = of_bool (x \<in> set xs)"
  by (induction xs) auto

lemma length_filter_count:
  fixes ms :: "nat list"
  assumes "set ms \<subseteq> {..<n}"
  shows "length (filter P ms) = (\<Sum>m<n. if P m then count_list ms m else 0)"
  using assms
proof (induction ms)
  case (Cons a ms)
  have "(\<Sum>m<n. if P m then count_list (a # ms) m else 0) =
      (\<Sum>m<n. (if P m then count_list ms m else 0) + (if m = a \<and> P a then 1 else 0))"
    by (rule sum.cong) auto
  also have "\<dots> = (\<Sum>m<n. if P m then count_list ms m else 0) + (if P a then 1 else 0)"
  proof -
    have "(\<Sum>m<n. if m = a then 1 else 0) = (if a \<in> {..<n} then 1 else (0 :: nat))"
      by (rule sum.delta) simp
    then show ?thesis using Cons.prems by (cases "P a") (simp_all add: sum.distrib)
  qed
  finally show ?case using Cons by simp
qed simp

lemma turned_odd_moves:
  assumes "set ms \<subseteq> {..<9}"
  shows "turned (odd_moves ms) c \<longleftrightarrow> turned ms c"
proof -
  have "odd (\<Sum>m<9. if flips m c then count_list ms m else 0) \<longleftrightarrow>
      odd (card {m \<in> {..<9}. odd (if flips m c then count_list ms m else 0)})"
    by (subst even_sum_iff) simp_all
  also have "{m \<in> {..<9}. odd (if flips m c then count_list ms m else 0)} =
      set (filter (\<lambda>m. flips m c) (odd_moves ms))"
    by (auto simp: odd_moves_def)
  also have "card (set (filter (\<lambda>m. flips m c) (odd_moves ms))) = length (filter (\<lambda>m. flips m c) (odd_moves ms))"
    by (rule distinct_card) (simp add: odd_moves_def)
  finally show ?thesis
    using length_filter_count [OF assms, of "\<lambda>m. flips m c"] by (simp add: turned_def)
qed

lemma length_odd_moves:
  assumes "set ms \<subseteq> {..<9}"
  shows "length (odd_moves ms) \<le> length ms"
proof -
  have "length (odd_moves ms) = card (set (odd_moves ms))"
    by (rule distinct_card [symmetric]) (simp add: odd_moves_def)
  also have "\<dots> \<le> card (set ms)"
    by (rule card_mono) (auto simp: odd_moves_def intro: ccontr)
  also have "\<dots> \<le> length ms" by (rule card_length)
  finally show ?thesis .
qed

lemma mask_moves_bits: "mask_moves msk = filter (bit msk) [0..<9]"
  unfolding mask_moves_def bit_iff_and_push_bit_not_eq_0 ..

lemma every_set_has_a_mask: "\<exists>msk \<in> set [0..511]. mask_moves msk = filter P [0..<9]"
proof
  let ?bs = "map P [0..<9]" and ?msk = "horner_sum of_bool 2 (map P [0..<9]) :: int"
  have "?msk < 2 ^ length ?bs" by (rule horner_sum_of_bool_2_less)
  moreover have "0 \<le> ?msk" by (simp add: horner_sum_eq_sum sum_nonneg)
  ultimately show "?msk \<in> set [0..511]" by simp
  show "mask_moves ?msk = filter P [0..<9]"
    by (auto simp: mask_moves_bits bit_horner_sum_bit_iff intro!: filter_cong)
qed

text \<open>For every light a set of moves turns over that light only, so every board can be put out.\<close>

definition single_light :: "nat list list" where
  "single_light = [[0, 2, 5, 6, 7], [4, 6, 7, 8], [0, 2, 3, 7, 8], [2, 4, 5, 8], [1, 3, 4, 5, 7], [0, 3, 4, 6],
     [0, 1, 5, 6, 8], [0, 1, 2, 4], [1, 2, 3, 6, 8]]"

lemma single_light_turns:
  "\<forall>i \<in> set [0..<9]. \<forall>c \<in> set [0..<9]. turned (single_light ! i) c \<longleftrightarrow> c = i"
  by code_simp

lemma single_light_moves: "\<forall>i \<in> set [0..<9]. set (single_light ! i) \<subseteq> {..<9}"
  by (simp add: single_light_def upt_rec)

lemma every_board_has_a_solution:
  assumes "length b = 9"
  obtains ms where "set ms \<subseteq> {..<9}" and "list_all Not (press b ms)"
proof
  let ?on = "filter ((!) b) [0..<9]"
  let ?ms = "concat (map ((!) single_light) ?on)"
  show "set ?ms \<subseteq> {..<9}" using single_light_moves by auto
  have "turned (concat (map ((!) single_light) is)) c \<longleftrightarrow> odd (count_list is c)"
    if "set is \<subseteq> {..<9}" and "c < 9" for "is" c
    using that
  proof (induction "is")
    case (Cons i "is")
    then show ?case using single_light_turns by (auto simp: turned_append)
  qed (simp add: turned_def)
  moreover have "odd (count_list ?on c) \<longleftrightarrow> b ! c" if "c < 9" for c
    using that by (simp add: count_list_distinct)
  moreover have "set ?on \<subseteq> {..<9}" by auto
  ultimately have "turned ?ms c \<longleftrightarrow> b ! c" if "c < 9" for c
    using that by blast
  then show "list_all Not (press b ?ms)" by (simp add: press_def list_all_iff)
qed

section \<open>The solver\<close>

definition solution :: "bool list \<Rightarrow> nat list \<Rightarrow> bool" where
  "solution b ms \<longleftrightarrow> set ms \<subseteq> {..<9} \<and> apply_moves b (move_numbers ms) = Inr (replicate 9 False)"

lemma solution_press:
  assumes "length b = 9"
  shows "solution b ms \<longleftrightarrow> set ms \<subseteq> {..<9} \<and> list_all Not (press b ms)"
proof -
  have "press b ms = replicate 9 False \<longleftrightarrow> list_all Not (press b ms)"
    by (auto simp: list_all_iff list_eq_iff_nth_eq in_set_conv_nth)
  then show ?thesis using assms by (auto simp: solution_def apply_moves_press)
qed

lemma mask_moves_set: "set (mask_moves msk) \<subseteq> {..<9}"
  by (auto simp: mask_moves_def)

lemma try_masks_best:
  assumes "length b = 9"
    and "\<And>ms. best = Some ms \<Longrightarrow> solution b ms \<and> ms \<in> mask_moves ` A"
    and "\<And>msk. msk \<in> A \<Longrightarrow> solution b (mask_moves msk) \<Longrightarrow>
           \<exists>ms. best = Some ms \<and> length ms \<le> length (mask_moves msk)"
  shows "\<exists>best'. try_masks b msks best = Inr best' \<and>
    (\<forall>ms. best' = Some ms \<longrightarrow> solution b ms \<and> ms \<in> mask_moves ` (A \<union> set msks)) \<and>
    (\<forall>msk \<in> A \<union> set msks. solution b (mask_moves msk) \<longrightarrow>
       (\<exists>ms. best' = Some ms \<and> length ms \<le> length (mask_moves msk)))"
  using assms(2,3)
proof (induction msks arbitrary: best A)
  case (Cons x msks)
  let ?ms = "mask_moves x"
  have run: "apply_moves b (move_numbers ?ms) = Inr (press b ?ms)"
    using assms(1) mask_moves_set by (rule apply_moves_press)
  obtain best1 where one: "try_mask b x best = Inr best1"
    and sol: "\<And>ms. best1 = Some ms \<Longrightarrow> solution b ms \<and> ms \<in> mask_moves ` insert x A"
    and least: "\<And>msk. msk \<in> insert x A \<Longrightarrow> solution b (mask_moves msk) \<Longrightarrow>
           \<exists>ms. best1 = Some ms \<and> length ms \<le> length (mask_moves msk)"
  proof (cases "\<exists>old. best = Some old \<and> length old \<le> length ?ms")
    case True
    then obtain old where old: "best = Some old" "length old \<le> length ?ms" by blast
    show thesis
      by (rule that [of best]) (use old Cons.prems in \<open>auto simp: try_mask_def\<close>)
  next
    case False
    have one: "try_mask b x best = Inr (if list_all Not (press b ?ms) then Some ?ms else best)"
      using False by (cases best) (simp_all add: try_mask_def run Let_def)
    have sol: "list_all Not (press b ?ms) \<longleftrightarrow> solution b ?ms"
      using assms(1) mask_moves_set by (simp add: solution_press)
    show thesis
    proof (cases "solution b ?ms")
      case True
      show thesis
      proof (rule that [of "Some ?ms"])
        fix msk assume "msk \<in> insert x A" "solution b (mask_moves msk)"
        then show "\<exists>ms. Some ?ms = Some ms \<and> length ms \<le> length (mask_moves msk)"
          using False Cons.prems(2) [of msk] by force
      qed (use one sol True in auto)
    next
      case False
      show thesis
        by (rule that [of best]) (use one sol False Cons.prems in auto)
    qed
  qed
  show ?case using Cons.IH [of best1 "insert x A"] sol least by (simp add: one Un_insert_right)
qed auto

lemma shortest_in_masks:
  assumes "length b = 9" and "solution b ms"
  shows "\<exists>msk \<in> set [0..511]. solution b (mask_moves msk) \<and> length (mask_moves msk) \<le> length ms"
proof -
  have ms: "set ms \<subseteq> {..<9}" using assms(2) by (simp add: solution_def)
  obtain msk where msk: "msk \<in> set [0..511]" "mask_moves msk = odd_moves ms"
    using every_set_has_a_mask [of "\<lambda>m. odd (count_list ms m)"] by (auto simp: odd_moves_def)
  have "press b (odd_moves ms) = press b ms"
    by (simp add: press_def turned_odd_moves [OF ms])
  then have "solution b (odd_moves ms)"
    using assms by (auto simp: solution_press odd_moves_def)
  with msk length_odd_moves [OF ms] show ?thesis by metis
qed

text \<open>C27: for every board of nine lights the solver returns a list of distinct moves that puts all
  lights out, and no sequence of moves, with repetitions or without, that puts them out is shorter.\<close>

theorem solveLightPuzzle_shortest:
  assumes "length board = 9"
  shows "\<exists>moves. solveLightPuzzle board = Inr moves \<and> distinct moves \<and> set moves \<subseteq> {..<9} \<and>
    apply_moves board (move_numbers moves) = Inr (replicate 9 False) \<and>
    (\<forall>ms. set ms \<subseteq> {..<9} \<and> apply_moves board (move_numbers ms) = Inr (replicate 9 False) \<longrightarrow>
       length moves \<le> length ms)"
proof -
  obtain best where best: "try_masks board [0..511] None = Inr best"
    and sol: "\<forall>ms. best = Some ms \<longrightarrow> solution board ms \<and> ms \<in> mask_moves ` set [0..511]"
    and least: "\<forall>msk \<in> set [0..511]. solution board (mask_moves msk) \<longrightarrow>
       (\<exists>ms. best = Some ms \<and> length ms \<le> length (mask_moves msk))"
    using try_masks_best [OF assms, of None "{}" "[0..511]"] by auto
  obtain ms0 where "solution board ms0"
    using every_board_has_a_solution [OF assms] solution_press [OF assms] by metis
  then obtain moves where moves: "best = Some moves"
    using shortest_in_masks [OF assms] least by blast
  have "length moves \<le> length ms" if "solution board ms" for ms
    using shortest_in_masks [OF assms that] least moves by fastforce
  moreover have "solution board moves" "distinct moves"
    using sol moves by (auto simp: mask_moves_def)
  ultimately show ?thesis
    using assms best moves by (auto simp: solveLightPuzzle_def solution_def)
qed

text \<open>A puzzle that is offered is a board of nine lights that is not yet solved, whatever number the round has.\<close>

lemma seeds_valid:
  "\<forall>seed \<in> set LIGHT_PUZZLE_SEEDS.
     \<exists>b. apply_moves (replicate 9 False) (map (\<lambda>m. Num (of_int m)) seed) = Inr b \<and>
       length b = 9 \<and> True \<in> set b"
proof -
  have "\<forall>seed \<in> set LIGHT_PUZZLE_SEEDS. (\<forall>m \<in> set seed. m \<in> {0..8}) \<and>
      True \<in> set (press (replicate 9 False) (map nat seed))"
    by code_simp
  then show ?thesis
  proof (intro ballI)
    fix seed assume *: "\<forall>seed \<in> set LIGHT_PUZZLE_SEEDS. (\<forall>m \<in> set seed. m \<in> {0..8}) \<and>
        True \<in> set (press (replicate 9 False) (map nat seed))" and "seed \<in> set LIGHT_PUZZLE_SEEDS"
    then have m: "\<forall>m \<in> set seed. m \<in> {0..8}" and on: "True \<in> set (press (replicate 9 False) (map nat seed))"
      by blast+
    have "map (\<lambda>m. Num (of_int m)) seed = move_numbers (map nat seed)"
      using m by (auto simp: move_numbers_def)
    moreover have "set (map nat seed) \<subseteq> {..<9}" using m by auto
    ultimately show "\<exists>b. apply_moves (replicate 9 False) (map (\<lambda>m. Num (of_int m)) seed) = Inr b \<and>
        length b = 9 \<and> True \<in> set b"
      using on by (simp add: apply_moves_press)
  qed
qed

lemma createLightPuzzle_unsolved:
  "\<exists>board. createLightPuzzle rnd = Inr board \<and> length board = 9 \<and> True \<in> set board"
proof -
  have "LIGHT_PUZZLE_SEEDS ! i \<in> set LIGHT_PUZZLE_SEEDS" if "i < 12" for i
    by (rule nth_mem) (use that in \<open>simp add: LIGHT_PUZZLE_SEEDS_def\<close>)
  moreover have "nat (\<bar>x\<bar> mod 12) < 12" for x :: int by simp
  ultimately show ?thesis
    unfolding createLightPuzzle_def Let_def seed_index_def
    using seeds_valid by (auto split: number.splits)
qed

theorem solveLightPuzzle_shortest_witness:
  "length [True, False, False, False, True, False, False, False, True] = 9 \<and>
   (\<exists>moves. solveLightPuzzle [True, False, False, False, True, False, False, False, True] = Inr moves \<and>
      length moves \<le> 3)"
proof -
  let ?b = "[True, False, False, False, True, False, False, False, True]"
  have nine: "length ?b = 9" by simp
  have run: "set [0, 4, 8 :: nat] \<subseteq> {..<9} \<and> apply_moves ?b (move_numbers [0, 4, 8]) = Inr (replicate 9 False)"
    by (rule conjI) (simp, code_simp)
  obtain moves where "solveLightPuzzle ?b = Inr moves"
    and least: "\<And>ms. set ms \<subseteq> {..<9} \<and> apply_moves ?b (move_numbers ms) = Inr (replicate 9 False) \<Longrightarrow>
      length moves \<le> length ms"
    using solveLightPuzzle_shortest [OF nine] by blast
  moreover have "length moves \<le> 3" using least [OF run] by simp
  ultimately show ?thesis using nine by blast
qed

end
