(* ===== verification/JsonText.thy ===== *)
theory JsonText
  imports JsValue NumberText
begin

text \<open>
  \<open>JSON.parse\<close> reads back what \<open>JSON.stringify\<close> wrote. This is the law the components that keep data as text
  (stored favourites, drawing drafts) rest on: every value made of strings, finite
  numbers, booleans, \<open>null\<close>, arrays and objects comes back as it was. What JSON cannot carry is left out
  by \<open>json_value\<close>: \<open>undefined\<close>, \<open>NaN\<close>, the infinities and \<open>-0\<close>.
\<close>

fun json_value :: "jsval \<Rightarrow> bool" where
  "json_value Undefined \<longleftrightarrow> False"
| "json_value Null \<longleftrightarrow> True"
| "json_value (Bool b) \<longleftrightarrow> True"
| "json_value (Number n) \<longleftrightarrow> (case n of Num q \<Rightarrow> round64 q = Num q | _ \<Rightarrow> False)"
| "json_value (Str s) \<longleftrightarrow> list_all (\<lambda>c. 0 \<le> c \<and> c < 65536) s"
| "json_value (Arr xs) \<longleftrightarrow> list_all json_value xs"
| "json_value (Obj ps) \<longleftrightarrow>
     distinct (map fst ps) \<and>
     list_all (\<lambda>(k, x). array_index k = None \<and> list_all (\<lambda>c. 0 \<le> c \<and> c < 65536) k \<and> json_value x) ps"

section \<open>Strings\<close>

lemma hex_digit_hex_char: "0 \<le> d \<Longrightarrow> d < 16 \<Longrightarrow> hex_digit (hex_char d) = d"
  by (simp add: hex_digit_def hex_char_def is_digit_def)

lemma hex_quads:
  assumes "0 \<le> c" and "c < 65536"
  shows "((c div 4096 mod 16 * 16 + c div 256 mod 16) * 16 + c div 16 mod 16) * 16 + c mod 16 = (c :: int)"
proof -
  define x where "x = c div 16"
  define y where "y = x div 16"
  define z where "z = y div 16"
  have c: "16 * x + c mod 16 = c" unfolding x_def by (rule mult_div_mod_eq)
  have x: "16 * y + x mod 16 = x" unfolding y_def by (rule mult_div_mod_eq)
  have y: "16 * z + y mod 16 = y" unfolding z_def by (rule mult_div_mod_eq)
  have "c div (16 * 16) = y" unfolding x_def y_def by (rule zdiv_zmult2_eq) simp
  then have y': "c div 256 = y" by simp
  have "c div (256 * 16) = c div 256 div 16" by (rule zdiv_zmult2_eq) simp
  then have z': "c div 4096 = z" unfolding y' z_def by simp
  have "0 \<le> c mod 16" "0 \<le> x mod 16" "0 \<le> y mod 16" "c mod 16 < 16" "x mod 16 < 16" "y mod 16 < 16" by simp_all
  then have "0 \<le> z" "z < 16" using assms c x y by linarith+
  then have "z mod 16 = z" by (rule mod_pos_pos_trivial)
  have "((z * 16 + m1) * 16 + m2) * 16 + m3 = c" if "16 * x + m3 = c" "16 * y + m2 = x" "16 * z + m1 = y" for m1 m2 m3
    unfolding that [symmetric] by simp
  from this [OF c x y] show ?thesis unfolding y' z' x_def [symmetric] \<open>z mod 16 = z\<close> .
qed

lemma read_string_unicode:
  assumes "list_all (\<lambda>h. 0 \<le> hex_digit h) [h1, h2, h3, h4]"
    and "((hex_digit h1 * 16 + hex_digit h2) * 16 + hex_digit h3) * 16 + hex_digit h4 = c"
  shows "read_string (92 # 117 # h1 # h2 # h3 # h4 # s) = map_option (\<lambda>(t, r). (c # t, r)) (read_string s)"
  using assms unfolding read_string.simps(2) [of 92] by simp

lemma read_string_escape:
  assumes "0 \<le> c" and "c < 65536"
  shows "read_string (escape_unit c @ s) = map_option (\<lambda>(t, r). (c # t, r)) (read_string s)"
proof -
  consider (short) "c \<in> {8, 9, 10, 12, 13, 34, 92}"
    | (unicode) "c \<notin> {8, 9, 10, 12, 13, 34, 92}" "c < 32 \<or> is_lead c \<or> is_trail c"
    | (self) "c \<notin> {8, 9, 10, 12, 13, 34, 92}" "\<not> (c < 32 \<or> is_lead c \<or> is_trail c)"
    by blast
  then show ?thesis
  proof cases
    case short
    then show ?thesis by (auto simp: escape_unit_def)
  next
    case unicode
    then have e: "escape_unit c = unicode_escape c" by (simp add: escape_unit_def)
    have h: "hex_digit (hex_char (x mod 16)) = x mod 16" for x :: int by (rule hex_digit_hex_char) simp_all
    show ?thesis unfolding e unicode_escape_def append_Cons append_Nil
      by (rule read_string_unicode) (simp add: h, simp only: h hex_quads [OF assms])
  next
    case self
    then have "escape_unit c = [c]" by (simp add: escape_unit_def)
    with self show ?thesis by simp
  qed
qed

lemma read_string_quote_body:
  assumes "list_all (\<lambda>c. 0 \<le> c \<and> c < 65536) s"
  shows "read_string (quote_body s @ 34 # r) = Some (s, r)"
  using assms
proof (induction s rule: quote_body.induct)
  case (2 c)
  then show ?case by (simp add: read_string_escape)
next
  case (3 c d s)
  show ?case
  proof (cases "is_lead c \<and> is_trail d")
    case True
    then have "c \<noteq> 34" "32 \<le> c" "c \<noteq> 92" "d \<noteq> 34" "32 \<le> d" "d \<noteq> 92"
      by (auto simp: is_lead_def is_trail_def)
    then show ?thesis using True 3 by simp
  next
    case False
    then have "quote_body (c # d # s) = escape_unit c @ quote_body (d # s)"
      by (simp only: quote_body.simps if_False)
    then show ?thesis using False 3 by (simp add: read_string_escape del: quote_body.simps read_string.simps)
  qed
qed simp

section \<open>Numbers\<close>

text \<open>What may follow a value inside an array or an object, or at the end.\<close>

definition delimited :: "jsstr \<Rightarrow> bool" where
  "delimited r \<longleftrightarrow> (case r of [] \<Rightarrow> True | c # _ \<Rightarrow> c = 44 \<or> c = 93 \<or> c = 125)"

lemma delimited_simps [simp]: "delimited []" "delimited (44 # r)" "delimited (93 # r)" "delimited (125 # r)"
  by (simp_all add: delimited_def)

lemma delimited_cases:
  assumes "delimited r"
  obtains "r = []" | t where "r = 44 # t" | t where "r = 93 # t" | t where "r = 125 # t"
  using assms by (cases r) (auto simp: delimited_def)

lemma delimiter_not_digit [simp]: "\<not> is_digit 44" "\<not> is_digit 93" "\<not> is_digit 125"
  by (simp_all add: is_digit_def)

lemma read_digits_stop:
  "list_all is_digit ds \<Longrightarrow> (r \<noteq> [] \<Longrightarrow> \<not> is_digit (hd r)) \<Longrightarrow> read_digits (ds @ r) = (ds, r)"
  by (cases r) (simp_all add: read_digits_def digit_runs)

lemma delimited_hd: "delimited r \<Longrightarrow> r \<noteq> [] \<Longrightarrow> \<not> is_digit (hd r) \<and> hd r \<noteq> 46 \<and> hd r \<noteq> 101 \<and> hd r \<noteq> 69"
  by (erule delimited_cases) simp_all

lemma read_exponent_part:
  assumes "number_parts ip fr ex" and "delimited r"
  shows "read_exponent (ex @ r) = Some (ex, r)"
proof (cases "ex = []")
  case True
  then show ?thesis using delimited_hd [OF assms(2)] by (cases r) (simp_all add: read_exponent_def)
next
  case False
  then obtain sg ds where ex: "ex = 101 # sg # ds" "sg = 43 \<or> sg = 45" "ds \<noteq> []" "list_all is_digit ds"
    using assms(1) by (auto simp: number_parts_def)
  have "read_digits (ds @ r) = (ds, r)" by (rule read_digits_stop [OF ex(4)]) (use delimited_hd [OF assms(2)] in blast)
  with ex show ?thesis by (auto simp: read_exponent_def)
qed

lemma exponent_hd: "number_parts ip fr ex \<Longrightarrow> ex \<noteq> [] \<Longrightarrow> hd ex = 101"
  by (auto simp: number_parts_def)

lemma read_fraction_part:
  assumes "number_parts ip fr ex" and "delimited r"
  shows "read_fraction (fr @ ex @ r) = Some (fr, ex @ r)"
proof -
  have stop: "ex @ r \<noteq> [] \<Longrightarrow> \<not> is_digit (hd (ex @ r)) \<and> hd (ex @ r) \<noteq> 46"
    using exponent_hd [OF assms(1)] delimited_hd [OF assms(2)] by (cases ex) auto
  show ?thesis
  proof (cases "fr = []")
    case True
    then show ?thesis using stop by (cases "ex @ r") (auto simp: read_fraction_def)
  next
    case False
    then obtain fp where fr: "fr = 46 # fp" "fp \<noteq> []" "list_all is_digit fp"
      using assms(1) by (auto simp: number_parts_def)
    have "read_digits (fp @ ex @ r) = (fp, ex @ r)" by (rule read_digits_stop [OF fr(3)]) (use stop in blast)
    with fr show ?thesis by (simp add: read_fraction_def)
  qed
qed

lemma read_integer_part:
  assumes "number_parts ip fr ex" and "delimited r"
  shows "read_digits (ip @ fr @ ex @ r) = (ip, fr @ ex @ r)"
proof (rule read_digits_stop)
  show "list_all is_digit ip" using assms(1) by (simp add: number_parts_def)
  have "hd fr = 46" if "fr \<noteq> []" using that assms(1) by (auto simp: number_parts_def)
  then show "\<not> is_digit (hd (fr @ ex @ r))" if "fr @ ex @ r \<noteq> []"
    using that exponent_hd [OF assms(1)] delimited_hd [OF assms(2)] by (cases fr; cases ex) auto
qed

lemma read_number_parts:
  assumes "number_parts ip fr ex" and "delimited r"
  shows "read_number (ip @ fr @ ex @ r) = Some (Number (to_number (ip @ fr @ ex)), r)"
    and "read_number (45 # ip @ fr @ ex @ r) = Some (Number (to_number (45 # ip @ fr @ ex)), r)"
proof -
  have ip: "ip \<noteq> []" "hd ip = 48 \<longrightarrow> length ip = 1" "hd ip \<noteq> 45"
    using assms(1) by (cases ip; auto simp: number_parts_def)+
  then obtain c t where c: "ip @ fr @ ex @ r = c # t" "c \<noteq> 45" by (cases ip) auto
  note parts = read_integer_part [OF assms] read_fraction_part [OF assms] read_exponent_part [OF assms]
  show "read_number (ip @ fr @ ex @ r) = Some (Number (to_number (ip @ fr @ ex)), r)"
    using parts ip c by (auto simp: read_number_def)
  show "read_number (45 # ip @ fr @ ex @ r) = Some (Number (to_number (45 # ip @ fr @ ex)), r)"
    using parts ip by (auto simp: read_number_def)
qed

lemma read_number_text:
  assumes "round64 q = Num q" and "delimited r"
  shows "read_number (number_to_string (Num q) @ r) = Some (Number (Num q), r)"
proof (cases q "0 :: rat" rule: linorder_cases)
  case less
  have "round64 (- q) = Num (- q)" using less assms(1) by (rule round64_minus)
  then obtain ip fr ex where t: "number_to_string (Num q) = 45 # ip @ fr @ ex" "number_parts ip fr ex"
    using number_to_string_positive [of "- q"] less by auto
  then show ?thesis
    using read_number_parts(2) [OF t(2) assms(2)] number_round_trip [OF assms(1)] by simp
next
  case equal
  have "number_parts [48] [] []" by (simp add: number_parts_def)
  then show ?thesis
    using read_number_parts(1) [of "[48]" "[]" "[]" r] number_round_trip [OF assms(1)] assms(2) equal
    by (simp add: number_to_string_def)
next
  case greater
  obtain ip fr ex where t: "number_to_string (Num q) = ip @ fr @ ex" "number_parts ip fr ex"
    using number_to_string_positive [OF greater assms(1)] by auto
  then show ?thesis
    using read_number_parts(1) [OF t(2) assms(2)] number_round_trip [OF assms(1)] by simp
qed

text \<open>A numeral starts with a digit or a minus sign.\<close>

lemma number_text_hd:
  assumes "round64 q = Num q"
  obtains c t where "number_to_string (Num q) = c # t" and "is_digit c \<or> c = 45"
proof (cases q "0 :: rat" rule: linorder_cases)
  case less
  then have "round64 (- q) = Num (- q)" using assms by (rule round64_minus)
  then show ?thesis using number_to_string_positive [of "- q"] less that by auto
next
  case equal
  then show ?thesis using that by (simp add: number_to_string_def)
next
  case greater
  obtain ip fr ex where t: "number_to_string (Num q) = ip @ fr @ ex" "number_parts ip fr ex"
    using number_to_string_positive [OF greater assms] by auto
  show ?thesis using that number_parts_hd [OF t(2)] t(1) by (cases "ip @ fr @ ex") auto
qed

section \<open>Values\<close>

text \<open>The text of a value that JSON can carry; \<open>json_stringify\<close> never answers \<open>undefined\<close> for one.\<close>

definition json_text :: "jsval \<Rightarrow> jsstr" where
  "json_text v = (case json_stringify v of Some t \<Rightarrow> t | None \<Rightarrow> js ''null'')"

lemma json_value_text: "json_value v \<Longrightarrow> json_stringify v = Some (json_text v)"
  by (cases v) (simp_all add: json_text_def)

lemma foldl_map_put:
  "distinct (map fst (qs @ ps)) \<Longrightarrow> foldl (\<lambda>o' (k, v). map_put k v o') qs ps = qs @ ps"
proof (induction ps arbitrary: qs)
  case (Cons p ps)
  obtain k v where p: "p = (k, v)" by fastforce
  have "map_put k v qs = qs @ [(k, v)]" if "k \<notin> fst ` set qs" for k :: 'a and v :: 'b and qs
    using that by (induction k v qs rule: map_put.induct) auto
  then have "map_put k v qs = qs @ [(k, v)]" using Cons.prems p by simp
  then show ?case using Cons.IH [of "qs @ [p]"] Cons.prems p by simp
qed simp

text \<open>The text of the elements of an array and of the members of an object, up to the closing bracket.\<close>

definition elements_text :: "jsval list \<Rightarrow> jsstr" where
  "elements_text xs = join [44] (map json_text xs) @ [93]"

definition member_text :: "jsstr \<times> jsval \<Rightarrow> jsstr" where
  "member_text p = quote_json (fst p) @ [58] @ json_text (snd p)"

definition members_text :: "(jsstr \<times> jsval) list \<Rightarrow> jsstr" where
  "members_text ps = join [44] (map member_text ps) @ [125]"

lemma json_text_Arr: "json_text (Arr xs) = 91 # elements_text xs"
  by (simp add: json_text_def [abs_def] elements_text_def)

lemma map_filter_texts:
  "list_all (json_value \<circ> snd) ps \<Longrightarrow>
   List.map_filter (\<lambda>(k, t). map_option (\<lambda>u. (k, u)) t) (map (\<lambda>(k, x). (k, json_stringify x)) ps) =
   map (\<lambda>(k, x). (k, json_text x)) ps"
  by (induction ps) (auto simp: List.map_filter_simps json_value_text)

lemma json_text_Obj:
  assumes "json_value (Obj ps)"
  shows "json_text (Obj ps) = 123 # members_text ps"
proof -
  have vals: "list_all (json_value \<circ> snd) ps" using assms by (auto simp: list_all_iff)
  have "list_all (\<lambda>p. array_index (fst p) = None) (map (\<lambda>(k, x). (k, json_stringify x)) ps)"
    using assms by (auto simp: list_all_iff)
  then have "own_entries (map (\<lambda>(k, x). (k, json_stringify x)) ps) = map (\<lambda>(k, x). (k, json_stringify x)) ps"
    by (rule own_entries_id)
  then show ?thesis
    using vals by (simp add: json_text_def [of "Obj ps"] map_filter_texts members_text_def member_text_def [abs_def] comp_def case_prod_beta)
qed

lemma json_text_hd:
  assumes "json_value v"
  obtains c t where "json_text v = c # t" and "\<not> json_space c" and "c \<noteq> 93" and "c \<noteq> 125"
proof (cases v)
  case (Number n)
  then obtain q where q: "n = Num q" "round64 q = Num q" using assms by (cases n) auto
  obtain c t where "number_to_string (Num q) = c # t" "is_digit c \<or> c = 45" by (rule number_text_hd [OF q(2)])
  then show ?thesis using that Number q by (auto simp: json_text_def is_digit_def json_space_def)
next
  case (Obj ps)
  then show ?thesis using that assms json_text_Obj by (simp add: json_space_def)
next
  case (Bool b)
  then show ?thesis using that by (cases b) (simp_all add: json_text_def json_space_def js_eval)
qed (use that assms in \<open>simp_all add: json_text_def json_space_def quote_json_def js_eval\<close>)

lemma skip_json_text:
  assumes "json_value v"
  shows "skip_space (json_text v @ r) = json_text v @ r"
  using json_text_hd [OF assms] by (metis append_Cons dropWhile.simps(2) skip_space_def)

lemma elements_text_Cons:
  "elements_text [x] = json_text x @ [93]"
  "elements_text (x # y # ys) = json_text x @ 44 # elements_text (y # ys)"
  by (simp_all add: elements_text_def)

lemma members_text_Cons:
  "members_text [p] = member_text p @ [125]"
  "members_text (p # q # ps) = member_text p @ 44 # members_text (q # ps)"
  by (simp_all add: members_text_def)

lemma skip_space_delimiters [simp]:
  "skip_space (44 # r) = 44 # r" "skip_space (93 # r) = 93 # r" "skip_space (125 # r) = 125 # r"
  "skip_space (58 # r) = 58 # r" "skip_space (34 # r) = 34 # r" "skip_space [] = []"
  by (simp_all add: skip_space_def json_space_def)

definition reads :: "jsval \<Rightarrow> bool" where
  "reads v \<longleftrightarrow> (\<forall>n r. 2 * length (json_text v) \<le> n \<and> delimited r \<longrightarrow> read_value n (json_text v @ r) = Some (v, r))"

lemma read_elements_text:
  assumes "xs \<noteq> []" and "\<forall>x \<in> set xs. reads x" and "2 * length (elements_text xs) \<le> Suc n"
  shows "read_elements n (elements_text xs @ r) = Some (xs, r)"
  using assms
proof (induction xs arbitrary: n rule: induct_list012)
  case (2 x)
  then obtain m where n: "n = Suc m" "2 * length (json_text x) \<le> m"
    by (cases n) (auto simp: elements_text_Cons)
  have "read_value m (json_text x @ 93 # r) = Some (x, 93 # r)"
    using 2(2) n(2) by (simp add: reads_def)
  then show ?case by (simp add: n(1) elements_text_Cons)
next
  case (3 x y ys)
  then obtain m where n: "n = Suc m" "2 * length (json_text x) \<le> m" "2 * length (elements_text (y # ys)) \<le> Suc m"
    by (cases n) (auto simp: elements_text_Cons)
  have "read_value m (json_text x @ 44 # elements_text (y # ys) @ r) = Some (x, 44 # elements_text (y # ys) @ r)"
    using 3(4) n(2) by (simp add: reads_def)
  moreover have "read_elements m (elements_text (y # ys) @ r) = Some (y # ys, r)"
    using 3 n(3) by simp
  ultimately show ?case by (simp add: n(1) elements_text_Cons(2))
qed simp

lemma member_step:
  assumes "list_all (\<lambda>c. 0 \<le> c \<and> c < 65536) k" and "reads x" and "2 * length (json_text x) \<le> m" and "delimited r"
  shows "read_members (Suc m) (member_text (k, x) @ r) =
    (case skip_space r of [] \<Rightarrow> None
     | d # r4 \<Rightarrow> if d = 125 then Some ([(k, x)], r4)
        else if d = 44 then map_option (\<lambda>(ps, u). ((k, x) # ps, u)) (read_members m r4) else None)"
proof -
  have "member_text (k, x) @ r = 34 # quote_body k @ 34 # 58 # json_text x @ r"
    by (simp add: member_text_def quote_json_def)
  moreover have "read_string (quote_body k @ 34 # 58 # json_text x @ r) = Some (k, 58 # json_text x @ r)"
    using assms(1) by (rule read_string_quote_body)
  moreover have "read_value m (json_text x @ r) = Some (x, r)"
    using assms by (simp add: reads_def)
  ultimately show ?thesis by (simp add: read_members.simps(2) del: read_string.simps)
qed

lemma read_members_text:
  assumes "ps \<noteq> []" and "\<forall>(k, x) \<in> set ps. list_all (\<lambda>c. 0 \<le> c \<and> c < 65536) k \<and> reads x"
    and "2 * length (members_text ps) \<le> Suc n"
  shows "read_members n (members_text ps @ r) = Some (ps, r)"
  using assms
proof (induction ps arbitrary: n rule: induct_list012)
  case (2 p)
  obtain k x where p: "p = (k, x)" by fastforce
  then obtain m where n: "n = Suc m" "2 * length (json_text x) \<le> m"
    using 2(3) by (cases n) (auto simp: members_text_Cons member_text_def quote_json_def)
  show ?case
    using member_step [of k x m "125 # r"] 2(2) n(2) p by (simp add: n(1) members_text_Cons(1) del: read_members.simps)
next
  case (3 p q ps)
  obtain k x where p: "p = (k, x)" by fastforce
  then obtain m where n: "n = Suc m" "2 * length (json_text x) \<le> m" "2 * length (members_text (q # ps)) \<le> Suc m"
    using 3(5) by (cases n) (auto simp: members_text_Cons member_text_def quote_json_def)
  have "read_members m (members_text (q # ps) @ r) = Some (q # ps, r)" using 3 n(3) by simp
  then show ?case
    using member_step [of k x m "44 # members_text (q # ps) @ r"] 3(4) n(2) p
    by (simp add: n(1) members_text_Cons(2) del: read_members.simps)
qed simp

lemma read_value_Suc:
  assumes "skip_space s = c # r"
  shows "read_value (Suc n) s =
    (if c = 34 then map_option (\<lambda>(t, r'). (Str t, r')) (read_string r)
     else if c = 91 then
       (case skip_space r of d # r' \<Rightarrow>
          if d = 93 then Some (Arr [], r') else map_option (\<lambda>(xs, u). (Arr xs, u)) (read_elements n r)
        | [] \<Rightarrow> None)
     else if c = 123 then
       (case skip_space r of d # r' \<Rightarrow>
          if d = 125 then Some (Obj [], r')
          else map_option (\<lambda>(ps, u). (Obj (foldl (\<lambda>o' (k, v). map_put k v o') [] ps), u)) (read_members n r)
        | [] \<Rightarrow> None)
     else if c = 116 then read_word ''true'' (Bool True) (c # r)
     else if c = 102 then read_word ''false'' (Bool False) (c # r)
     else if c = 110 then read_word ''null'' Null (c # r)
     else read_number (c # r))"
  by (simp add: assms)

lemma reads_number:
  assumes "json_value (Number n)"
  shows "reads (Number n)"
  unfolding reads_def
proof (intro allI impI)
  fix k r assume k: "2 * length (json_text (Number n)) \<le> k \<and> delimited r"
  obtain q where q: "n = Num q" "round64 q = Num q" using assms by (cases n) auto
  obtain c t where ct: "number_to_string (Num q) = c # t" "is_digit c \<or> c = 45" by (rule number_text_hd [OF q(2)])
  have shown: "json_text (Number n) = c # t" using q ct by (simp add: json_text_def)
  then obtain m where m: "k = Suc m" using k shown by (cases k) auto
  have "skip_space (json_text (Number n) @ r) = c # t @ r"
    using skip_json_text [OF assms, of r] shown by simp
  then have "read_value k (json_text (Number n) @ r) = read_number (c # t @ r)"
    unfolding m using ct(2) by (auto simp: read_value_Suc is_digit_def simp del: read_value.simps)
  also have "\<dots> = Some (Number n, r)"
    using read_number_text [OF q(2), of r] k ct q(1) by simp
  finally show "read_value k (json_text (Number n) @ r) = Some (Number n, r)" .
qed

lemma reads_string:
  assumes "json_value (Str s)"
  shows "reads (Str s)"
  unfolding reads_def
proof (intro allI impI)
  fix k r assume "2 * length (json_text (Str s)) \<le> k \<and> delimited r"
  then obtain m where m: "k = Suc m" by (cases k) (auto simp: json_text_def quote_json_def)
  have "json_text (Str s) @ r = 34 # quote_body s @ 34 # r" by (simp add: json_text_def quote_json_def)
  moreover have "read_string (quote_body s @ 34 # r) = Some (s, r)"
    using assms by (intro read_string_quote_body) simp
  ultimately show "read_value k (json_text (Str s) @ r) = Some (Str s, r)"
    by (simp add: m read_value_Suc del: read_value.simps read_string.simps)
qed

lemma read_word_text: "read_word w v (js w @ r) = Some (v, r)"
  by (simp add: read_word_def starts_with_def js_def)

lemma reads_word:
  assumes "json_text v = js w" and "js w = c # t"
    and "(w = ''true'' \<and> v = Bool True) \<or> (w = ''false'' \<and> v = Bool False) \<or> (w = ''null'' \<and> v = Null)"
  shows "reads v"
  unfolding reads_def
proof (intro allI impI)
  fix k r assume "2 * length (json_text v) \<le> k \<and> delimited r"
  then obtain m where m: "k = Suc m" using assms(1,2) by (cases k) auto
  have c: "c = (if w = ''true'' then 116 else if w = ''false'' then 102 else 110)"
    using assms(2,3) by (auto simp: js_eval)
  then have "skip_space (js w @ r) = c # t @ r" using assms(2,3) by (auto simp: skip_space_def json_space_def)
  then have "read_value k (js w @ r) = read_word w v (c # t @ r)"
    unfolding m using c assms(3) by (auto simp: read_value_Suc simp del: read_value.simps)
  then show "read_value k (json_text v @ r) = Some (v, r)"
    using read_word_text [of w v r] assms(1,2) by simp
qed

lemma reads_array:
  assumes "json_value (Arr xs)" and "\<forall>x \<in> set xs. reads x"
  shows "reads (Arr xs)"
  unfolding reads_def
proof (intro allI impI)
  fix k r assume k: "2 * length (json_text (Arr xs)) \<le> k \<and> delimited r"
  then obtain m where m: "k = Suc m" by (cases k) (auto simp: json_text_Arr)
  have sk: "skip_space (json_text (Arr xs) @ r) = 91 # elements_text xs @ r"
    using skip_json_text [OF assms(1), of r] by (simp add: json_text_Arr)
  show "read_value k (json_text (Arr xs) @ r) = Some (Arr xs, r)"
  proof (cases xs)
    case Nil
    then show ?thesis using sk by (simp add: m read_value_Suc elements_text_def del: read_value.simps)
  next
    case (Cons x ys)
    have "json_value x" using assms(1) Cons by simp
    then obtain c t where "json_text x = c # t" "\<not> json_space c" "c \<noteq> 93" by (rule json_text_hd)
    then have "skip_space (elements_text xs @ r) = elements_text xs @ r" "hd (elements_text xs @ r) = c"
      "elements_text xs @ r \<noteq> []" "c \<noteq> 93"
      using Cons by (cases ys; simp add: elements_text_Cons skip_space_def)+
    moreover have "read_elements m (elements_text xs @ r) = Some (xs, r)"
      using assms(2) k m Cons by (intro read_elements_text) (auto simp: json_text_Arr)
    ultimately show ?thesis
      using sk by (cases "elements_text xs @ r") (simp_all add: m read_value_Suc del: read_value.simps read_elements.simps)
  qed
qed

lemma reads_object:
  assumes "json_value (Obj ps)" and "\<forall>(k, x) \<in> set ps. reads x"
  shows "reads (Obj ps)"
  unfolding reads_def
proof (intro allI impI)
  fix k r assume k: "2 * length (json_text (Obj ps)) \<le> k \<and> delimited r"
  then obtain m where m: "k = Suc m" by (cases k) (auto simp: json_text_Obj [OF assms(1)])
  have sk: "skip_space (json_text (Obj ps) @ r) = 123 # members_text ps @ r"
    using skip_json_text [OF assms(1), of r] by (simp add: json_text_Obj [OF assms(1)])
  show "read_value k (json_text (Obj ps) @ r) = Some (Obj ps, r)"
  proof (cases ps)
    case Nil
    then show ?thesis using sk by (simp add: m read_value_Suc members_text_def del: read_value.simps)
  next
    case (Cons p qs)
    have "\<exists>t. members_text ps @ r = 34 # t"
      using Cons by (cases qs) (simp_all add: members_text_Cons member_text_def quote_json_def)
    then obtain t where t: "members_text ps @ r = 34 # t" by blast
    have "read_members m (members_text ps @ r) = Some (ps, r)"
    proof (rule read_members_text)
      show "2 * length (members_text ps) \<le> Suc m" using k by (simp add: m json_text_Obj [OF assms(1)])
    qed (use assms Cons in \<open>auto simp: list_all_iff\<close>)
    moreover have "foldl (\<lambda>o' (k, v). map_put k v o') [] ps = ps"
      using foldl_map_put [of "[]" ps] assms(1) by simp
    ultimately show ?thesis
      using sk t by (simp add: m read_value_Suc del: read_value.simps read_members.simps)
  qed
qed

lemma reads_json_value: "json_value v \<Longrightarrow> reads v"
proof (induction v rule: json_value.induct)
  case 2
  show ?case by (rule reads_word [of _ "''null''"]) (simp_all add: json_text_def js_eval)
next
  case (3 b)
  show ?case
  proof (cases b)
    case True
    then show ?thesis by (intro reads_word [of _ "''true''"]) (simp_all add: json_text_def js_eval)
  next
    case False
    then show ?thesis by (intro reads_word [of _ "''false''"]) (simp_all add: json_text_def js_eval)
  qed
next
  case (4 n)
  then show ?case by (rule reads_number)
next
  case (5 s)
  then show ?case by (rule reads_string)
next
  case (6 xs)
  then show ?case by (intro reads_array) (auto simp: list_all_iff)
next
  case (7 ps)
  have "\<forall>(k, x) \<in> set ps. reads x" using 7 by (fastforce simp: list_all_iff)
  with 7 show ?case by (intro reads_object)
qed simp

lemma json_round_trip:
  assumes "json_value v"
  shows "json_stringify v = Some (json_text v)" and "json_parse (json_text v) = Some v"
proof -
  show "json_stringify v = Some (json_text v)" using assms by (rule json_value_text)
  have "read_value (2 * length (json_text v) + 2) (json_text v @ []) = Some (v, [])"
    using reads_json_value [OF assms] unfolding reads_def by (meson delimited_simps(1) le_add1)
  then show "json_parse (json_text v) = Some v" by (simp add: json_parse_def del: read_value.simps)
qed

end
