(* ===== verification/WebStorage.thy ===== *)
theory WebStorage
  imports JsonText
begin

text \<open>
  Key-value storage of text, as the program uses \<open>localStorage\<close>: entries by key, a capacity that makes
  \<open>setItem\<close> throw, and, where a page may not use it at all, no storage (\<open>None\<close> in the clients).
  The contract clients rely on is the locale \<open>text_storage\<close>; what is written as JSON is read back.
\<close>

datatype storage_error = Quota_exceeded

record web_storage =
  stored :: "(jsstr \<times> jsstr) list"
  capacity :: int

definition stored_size :: "(jsstr \<times> jsstr) list \<Rightarrow> int" where
  "stored_size m = sum_list (map (\<lambda>(k, v). int (length k) + int (length v)) m)"

definition getItem :: "web_storage \<Rightarrow> jsstr \<Rightarrow> jsstr option" where
  "getItem st k = map_of (stored st) k"

definition setItem :: "web_storage \<Rightarrow> jsstr \<Rightarrow> jsstr \<Rightarrow> storage_error + web_storage" where
  "setItem st k v =
     (let m = map_put k v (stored st)
      in if capacity st < stored_size m then Inl Quota_exceeded else Inr (st\<lparr>stored := m\<rparr>))"

definition clear_storage :: "web_storage \<Rightarrow> web_storage" where
  "clear_storage st = st\<lparr>stored := []\<rparr>"

locale text_storage =
  fixes get :: "'s \<Rightarrow> jsstr \<Rightarrow> jsstr option"
    and put :: "'s \<Rightarrow> jsstr \<Rightarrow> jsstr \<Rightarrow> 'e + 's"
  assumes get_put: "put s k v = Inr s' \<Longrightarrow> get s' k' = (if k' = k then Some v else get s k')"
begin

lemma get_written: "put s k v = Inr s' \<Longrightarrow> get s' k = Some v"
  by (simp add: get_put)

lemma get_elsewhere: "put s k v = Inr s' \<Longrightarrow> k' \<noteq> k \<Longrightarrow> get s' k' = get s k'"
  by (simp add: get_put)

lemma json_written:
  assumes "put s k (json_text v) = Inr s'" and "json_value v"
  shows "\<exists>t. get s' k = Some t \<and> json_parse t = Some v"
  using get_written [OF assms(1)] json_round_trip(2) [OF assms(2)] by blast

end

interpretation local_storage: text_storage getItem setItem
  by unfold_locales (auto simp: getItem_def setItem_def Let_def split: if_splits)

lemma setItem_fits:
  "stored_size (map_put k v (stored st)) \<le> capacity st \<Longrightarrow> \<exists>st'. setItem st k v = Inr st'"
  by (simp add: setItem_def Let_def)

lemma stored_size_put: "stored_size (map_put k v m) \<le> stored_size m + int (length k) + int (length v)"
  by (induction k v m rule: map_put.induct) (auto simp: stored_size_def)

end
