(* ===== verification/SmsCatalog.thy ===== *)
theory SmsCatalog
  imports WebStorage
begin

text \<open>
  Choosing a number for SMS activation (\<^verbatim>\<open>features/email-activations/sms-selection.ts\<close>,
  \<^verbatim>\<open>sms-phone-number.ts\<close> and \<^verbatim>\<open>status-meta.ts\<close>): favourites kept in the browser, country
  names and flags, quantities, polling, and the reading of phone numbers.

  Unicode normalisation and the region names of the locale library are not part of the program; they are
  the fields of \<open>region_env\<close>. Case folding is written for ASCII letters where the text that is compared
  holds no letter that a character outside ASCII folds to.
\<close>

section \<open>Favourites\<close>

record HeroSmsFavoritePair =
  serviceCode :: jsstr
  countryId :: number

record HeroSmsFavoriteUpdate =
  update_items :: "HeroSmsFavoritePair list"
  added :: bool
  limitReached :: bool
  persisted :: bool

definition HERO_SMS_FAVORITES_STORAGE_KEY :: jsstr where
  "HERO_SMS_FAVORITES_STORAGE_KEY = js ''lmm-hero-sms-favorites:v1''"

definition HERO_SMS_MAX_FAVORITES :: nat where
  "HERO_SMS_MAX_FAVORITES = 30"

definition isFavoritePair :: "jsval \<Rightarrow> bool" where
  "isFavoritePair v \<longleftrightarrow>
     is_object v \<and>
     (let code = get_prop v (js ''serviceCode''); country = get_prop v (js ''countryId'')
      in is_Str code \<and> 0 < length (trim (str_of code)) \<and> length (str_of code) \<le> 64 \<and>
         val_is_integer country \<and> num_ge (num_of country) (Num 0))"

definition favoritePairKey :: "HeroSmsFavoritePair \<Rightarrow> jsstr" where
  "favoritePairKey pair = serviceCode pair @ [58] @ number_to_string (countryId pair)"

definition read_pair :: "jsval \<Rightarrow> HeroSmsFavoritePair" where
  "read_pair v = \<lparr>serviceCode = trim (str_of (get_prop v (js ''serviceCode''))),
     countryId = num_of (get_prop v (js ''countryId''))\<rparr>"

text \<open>The loop over the stored array: \<open>favorites\<close> are those found so far, \<open>seen\<close> their keys.\<close>

fun collect_favorites :: "jsval list \<Rightarrow> jsstr list \<Rightarrow> HeroSmsFavoritePair list \<Rightarrow> HeroSmsFavoritePair list" where
  "collect_favorites [] seen favorites = favorites"
| "collect_favorites (v # vs) seen favorites =
     (if \<not> isFavoritePair v then collect_favorites vs seen favorites
      else let pair = read_pair v; key = favoritePairKey pair
           in if key \<in> set seen then collect_favorites vs seen favorites
              else let favorites' = favorites @ [pair]
                   in if length favorites' = HERO_SMS_MAX_FAVORITES then favorites'
                      else collect_favorites vs (seen @ [key]) favorites')"

definition loadHeroSmsFavorites :: "web_storage option \<Rightarrow> HeroSmsFavoritePair list" where
  "loadHeroSmsFavorites storage =
     (case storage of None \<Rightarrow> []
      | Some st \<Rightarrow>
        (case json_parse (case getItem st HERO_SMS_FAVORITES_STORAGE_KEY of Some t \<Rightarrow> t | None \<Rightarrow> js ''[]'') of
           Some (Arr vs) \<Rightarrow> collect_favorites vs [] []
         | _ \<Rightarrow> []))"

definition pair_value :: "HeroSmsFavoritePair \<Rightarrow> jsval" where
  "pair_value pair = Obj [(js ''serviceCode'', Str (serviceCode pair)), (js ''countryId'', Number (countryId pair))]"

definition saveHeroSmsFavorites ::
  "HeroSmsFavoritePair list \<Rightarrow> web_storage option \<Rightarrow> bool \<times> web_storage option" where
  "saveHeroSmsFavorites favorites storage =
     (case storage of None \<Rightarrow> (False, None)
      | Some st \<Rightarrow>
        (case json_stringify (Arr (map pair_value (take HERO_SMS_MAX_FAVORITES favorites))) of
           None \<Rightarrow> (False, Some st)
         | Some text \<Rightarrow>
           (case setItem st HERO_SMS_FAVORITES_STORAGE_KEY text of
              Inl _ \<Rightarrow> (False, Some st) | Inr st' \<Rightarrow> (True, Some st'))))"

fun find_index :: "('a \<Rightarrow> bool) \<Rightarrow> 'a list \<Rightarrow> nat option" where
  "find_index P [] = None"
| "find_index P (x # xs) = (if P x then Some 0 else map_option Suc (find_index P xs))"

definition remove_at :: "nat \<Rightarrow> 'a list \<Rightarrow> 'a list" where
  "remove_at i xs = take i xs @ drop (Suc i) xs"

definition toggleHeroSmsFavorite ::
  "HeroSmsFavoritePair list \<Rightarrow> HeroSmsFavoritePair \<Rightarrow> web_storage option \<Rightarrow>
   HeroSmsFavoriteUpdate \<times> web_storage option" where
  "toggleHeroSmsFavorite favorites pair storage =
     (let key = favoritePairKey pair in
      case find_index (\<lambda>favorite. favoritePairKey favorite = key) favorites of
        Some existingIndex \<Rightarrow>
          (let items = remove_at existingIndex favorites;
               (ok, storage') = saveHeroSmsFavorites items storage
           in (\<lparr>update_items = items, added = False, limitReached = False, persisted = ok\<rparr>, storage'))
      | None \<Rightarrow>
          if length favorites \<ge> HERO_SMS_MAX_FAVORITES then
            (\<lparr>update_items = favorites, added = False, limitReached = True, persisted = True\<rparr>, storage)
          else let items = pair # favorites;
                   (ok, storage') = saveHeroSmsFavorites items storage
               in (\<lparr>update_items = items, added = True, limitReached = False, persisted = ok\<rparr>, storage'))"

definition hasHeroSmsFavorite :: "HeroSmsFavoritePair list \<Rightarrow> jsstr \<Rightarrow> number \<Rightarrow> bool" where
  "hasHeroSmsFavorite favorites code country =
     (let key = favoritePairKey \<lparr>serviceCode = code, countryId = country\<rparr>
      in list_ex (\<lambda>favorite. favoritePairKey favorite = key) favorites)"

section \<open>Services and countries\<close>

record HeroSmsSmsService =
  service_code :: jsstr
  service_name :: jsstr

record HeroSmsSmsCountry =
  country_number :: number
  country_name :: jsstr
  english_name :: jsstr
  chinese_name :: jsstr

record region_env =
  nfkd :: "jsstr \<Rightarrow> jsstr"
  has_display_names :: bool
  english_region_name :: "jsstr \<Rightarrow> jsstr option"
  region_name_in :: "jsstr \<Rightarrow> jsstr \<Rightarrow> unit + jsstr option"

datatype HeroSmsReceivingChannel = Sms | Whatsapp

definition isHeroSmsWhatsAppService :: "(jsstr + HeroSmsSmsService) option \<Rightarrow> bool" where
  "isHeroSmsWhatsAppService service =
     (case service of None \<Rightarrow> False
      | Some (Inl code) \<Rightarrow> code \<noteq> [] \<and> lower_ascii (trim code) = js ''wa''
      | Some (Inr s) \<Rightarrow> lower_ascii (trim (service_code s)) = js ''wa'' \<or>
          lower_ascii (trim (service_name s)) = js ''whatsapp'')"

definition resolveHeroSmsReceivingChannel :: "(jsstr + HeroSmsSmsService) option \<Rightarrow> HeroSmsReceivingChannel" where
  "resolveHeroSmsReceivingChannel service = (if isHeroSmsWhatsAppService service then Whatsapp else Sms)"

definition regionAliases :: "(jsstr \<times> jsstr) list" where
  "regionAliases = map (\<lambda>(name, code). (js name, js code))
     [(''bolivia'', ''BO''), (''bolivia plurinational state of'', ''BO''), (''brunei'', ''BN''),
      (''brunei darussalam'', ''BN''), (''burma'', ''MM''), (''cabo verde'', ''CV''), (''cape verde'', ''CV''),
      (''congo'', ''CG''), (''congo democratic republic of the'', ''CD''), (''cote d ivoire'', ''CI''),
      (''czech republic'', ''CZ''), (''czechia'', ''CZ''), (''democratic people s republic of korea'', ''KP''),
      (''democratic republic of the congo'', ''CD''), (''east timor'', ''TL''), (''england'', ''GB''),
      (''federated states of micronesia'', ''FM''), (''great britain'', ''GB''), (''holy see'', ''VA''),
      (''hong kong'', ''HK''), (''hong kong sar china'', ''HK''), (''iran'', ''IR''),
      (''iran islamic republic of'', ''IR''), (''ivory coast'', ''CI''),
      (''korea democratic people s republic of'', ''KP''), (''korea republic of'', ''KR''), (''kosovo'', ''XK''),
      (''laos'', ''LA''), (''lao people s democratic republic'', ''LA''), (''macao'', ''MO''),
      (''macao sar china'', ''MO''), (''macau'', ''MO''), (''macedonia'', ''MK''),
      (''micronesia federated states of'', ''FM''), (''moldova'', ''MD''), (''moldova republic of'', ''MD''),
      (''myanmar burma'', ''MM''), (''north korea'', ''KP''), (''palestinian territories'', ''PS''),
      (''palestine'', ''PS''), (''republic of korea'', ''KR''), (''republic of the congo'', ''CG''),
      (''russia'', ''RU''), (''russian federation'', ''RU''), (''south korea'', ''KR''), (''swaziland'', ''SZ''),
      (''syria'', ''SY''), (''syrian arab republic'', ''SY''), (''taiwan'', ''TW''),
      (''taiwan province of china'', ''TW''), (''tanzania'', ''TZ''), (''tanzania united republic of'', ''TZ''),
      (''the netherlands'', ''NL''), (''timor leste'', ''TL''), (''turkey'', ''TR''), (''uae'', ''AE''),
      (''uk'', ''GB''), (''united kingdom'', ''GB''), (''united states'', ''US''),
      (''united states of america'', ''US''), (''usa'', ''US''), (''vatican'', ''VA''), (''venezuela'', ''VE''),
      (''venezuela bolivarian republic of'', ''VE''), (''viet nam'', ''VN''), (''vietnam'', ''VN''),
      (''virgin islands british'', ''VG''), (''virgin islands us'', ''VI'')]"

definition currentRegionCodes :: "jsstr list" where
  "currentRegionCodes = map js
     [''AD'', ''AE'', ''AF'', ''AG'', ''AI'', ''AL'', ''AM'', ''AO'', ''AQ'', ''AR'', ''AS'', ''AT'', ''AU'',
      ''AW'', ''AX'', ''AZ'', ''BA'', ''BB'', ''BD'', ''BE'', ''BF'', ''BG'', ''BH'', ''BI'', ''BJ'', ''BL'',
      ''BM'', ''BN'', ''BO'', ''BQ'', ''BR'', ''BS'', ''BT'', ''BV'', ''BW'', ''BY'', ''BZ'', ''CA'', ''CC'',
      ''CD'', ''CF'', ''CG'', ''CH'', ''CI'', ''CK'', ''CL'', ''CM'', ''CN'', ''CO'', ''CR'', ''CU'', ''CV'',
      ''CW'', ''CX'', ''CY'', ''CZ'', ''DE'', ''DJ'', ''DK'', ''DM'', ''DO'', ''DZ'', ''EC'', ''EE'', ''EG'',
      ''EH'', ''ER'', ''ES'', ''ET'', ''FI'', ''FJ'', ''FK'', ''FM'', ''FO'', ''FR'', ''GA'', ''GB'', ''GD'',
      ''GE'', ''GF'', ''GG'', ''GH'', ''GI'', ''GL'', ''GM'', ''GN'', ''GP'', ''GQ'', ''GR'', ''GS'', ''GT'',
      ''GU'', ''GW'', ''GY'', ''HK'', ''HM'', ''HN'', ''HR'', ''HT'', ''HU'', ''ID'', ''IE'', ''IL'', ''IM'',
      ''IN'', ''IO'', ''IQ'', ''IR'', ''IS'', ''IT'', ''JE'', ''JM'', ''JO'', ''JP'', ''KE'', ''KG'', ''KH'',
      ''KI'', ''KM'', ''KN'', ''KP'', ''KR'', ''KW'', ''KY'', ''KZ'', ''LA'', ''LB'', ''LC'', ''LI'', ''LK'',
      ''LR'', ''LS'', ''LT'', ''LU'', ''LV'', ''LY'', ''MA'', ''MC'', ''MD'', ''ME'', ''MF'', ''MG'', ''MH'',
      ''MK'', ''ML'', ''MM'', ''MN'', ''MO'', ''MP'', ''MQ'', ''MR'', ''MS'', ''MT'', ''MU'', ''MV'', ''MW'',
      ''MX'', ''MY'', ''MZ'', ''NA'', ''NC'', ''NE'', ''NF'', ''NG'', ''NI'', ''NL'', ''NO'', ''NP'', ''NR'',
      ''NU'', ''NZ'', ''OM'', ''PA'', ''PE'', ''PF'', ''PG'', ''PH'', ''PK'', ''PL'', ''PM'', ''PN'', ''PR'',
      ''PS'', ''PT'', ''PW'', ''PY'', ''QA'', ''RE'', ''RO'', ''RS'', ''RU'', ''RW'', ''SA'', ''SB'', ''SC'',
      ''SD'', ''SE'', ''SG'', ''SH'', ''SI'', ''SJ'', ''SK'', ''SL'', ''SM'', ''SN'', ''SO'', ''SR'', ''SS'',
      ''ST'', ''SV'', ''SX'', ''SY'', ''SZ'', ''TC'', ''TD'', ''TF'', ''TG'', ''TH'', ''TJ'', ''TK'', ''TL'',
      ''TM'', ''TN'', ''TO'', ''TR'', ''TT'', ''TV'', ''TW'', ''TZ'', ''UA'', ''UG'', ''UM'', ''US'', ''UY'',
      ''UZ'', ''VA'', ''VC'', ''VE'', ''VG'', ''VI'', ''VN'', ''VU'', ''WF'', ''WS'', ''XK'', ''YE'', ''YT'',
      ''ZA'', ''ZM'', ''ZW'']"

definition is_ascii_alnum :: "code_unit \<Rightarrow> bool" where
  "is_ascii_alnum c \<longleftrightarrow> is_upper c \<or> is_lower c \<or> is_digit c"

text \<open>\<open>replaceAll(/[^a-zA-Z0-9]+/g, ' ')\<close>; the flag tells that the last unit belonged to a run.\<close>

fun squash_runs :: "bool \<Rightarrow> jsstr \<Rightarrow> jsstr" where
  "squash_runs in_run [] = []"
| "squash_runs in_run (c # s) =
     (if is_ascii_alnum c then c # squash_runs False s
      else if in_run then squash_runs True s else 32 # squash_runs True s)"

definition normalizeCountryName :: "region_env \<Rightarrow> jsstr \<Rightarrow> jsstr" where
  "normalizeCountryName env value =
     lower_ascii (trim (squash_runs False (concat (map (\<lambda>c. if c = 38 then js '' and '' else [c])
       (filter (\<lambda>c. \<not> (768 \<le> c \<and> c \<le> 879)) (nfkd env value))))))"

definition add_region_name ::
  "region_env \<Rightarrow> (jsstr \<times> jsstr) list \<Rightarrow> jsstr \<Rightarrow> (jsstr \<times> jsstr) list" where
  "add_region_name env index code =
     (case english_region_name env code of None \<Rightarrow> index
      | Some name \<Rightarrow>
          if name = [] \<or> name = code \<or> name = js ''Unknown Region'' then index
          else map_put (normalizeCountryName env name) code index)"

definition getEnglishRegionIndex :: "region_env \<Rightarrow> (jsstr \<times> jsstr) list" where
  "getEnglishRegionIndex env =
     (let index = (if has_display_names env then foldl (add_region_name env) [] currentRegionCodes else [])
      in foldl (\<lambda>m (name, code). map_put name code m) index regionAliases)"

definition resolveHeroSmsCountryCode :: "region_env \<Rightarrow> HeroSmsSmsCountry \<Rightarrow> jsstr option" where
  "resolveHeroSmsCountryCode env country =
     (let englishName = normalizeCountryName env (english_name country)
      in if englishName = [] then None else map_of (getEnglishRegionIndex env) englishName)"

definition from_code_point :: "int \<Rightarrow> jsstr" where
  "from_code_point cp =
     (if cp < 65536 then [cp] else [55296 + (cp - 65536) div 1024, 56320 + (cp - 65536) mod 1024])"

definition getHeroSmsCountryFlag :: "region_env \<Rightarrow> HeroSmsSmsCountry \<Rightarrow> jsstr option" where
  "getHeroSmsCountryFlag env country =
     map_option (\<lambda>code. concat (map (\<lambda>c. from_code_point (127397 + c)) code)) (resolveHeroSmsCountryCode env country)"

definition resolveDisplayLanguageTag :: "jsstr \<Rightarrow> jsstr" where
  "resolveDisplayLanguageTag language =
     (if language = js ''zhCN'' then js ''zh-CN'' else if language = js ''zhTW'' then js ''zh-TW''
      else if language = [] then js ''en'' else language)"

definition prefersProviderChineseName :: "jsstr \<Rightarrow> bool" where
  "prefersProviderChineseName languageTag =
     (let normalized = lower_ascii languageTag
      in normalized = js ''zh'' \<or> normalized = js ''zh-cn'' \<or> starts_with normalized (js ''zh-hans''))"

definition localizedRegionName :: "region_env \<Rightarrow> jsstr option \<Rightarrow> jsstr \<Rightarrow> jsstr option" where
  "localizedRegionName env code languageTag =
     (case code of None \<Rightarrow> None
      | Some c \<Rightarrow>
          if \<not> has_display_names env then None
          else (case region_name_in env languageTag c of
                  Inr (Some localized) \<Rightarrow> if localized \<noteq> [] \<and> localized \<noteq> c then Some localized else None
                | _ \<Rightarrow> None))"

definition first_nonempty :: "jsstr list \<Rightarrow> jsstr" where
  "first_nonempty names = (case filter nonempty names of n # _ \<Rightarrow> n | [] \<Rightarrow> [])"

definition getHeroSmsCountryName :: "region_env \<Rightarrow> HeroSmsSmsCountry \<Rightarrow> jsstr \<Rightarrow> jsstr" where
  "getHeroSmsCountryName env country language =
     (let languageTag = resolveDisplayLanguageTag language
      in if prefersProviderChineseName languageTag
         then first_nonempty [chinese_name country, country_name country, english_name country]
         else (case localizedRegionName env (resolveHeroSmsCountryCode env country) languageTag of
                 Some n \<Rightarrow> n
               | None \<Rightarrow> first_nonempty [english_name country, country_name country, chinese_name country]))"

definition getHeroSmsCountrySearchText :: "HeroSmsSmsCountry \<Rightarrow> jsstr" where
  "getHeroSmsCountrySearchText country =
     join [32] (filter nonempty [country_name country, english_name country, chinese_name country,
       number_to_string (country_number country)])"

text \<open>
  \<open>toUpperCase\<close> of one code unit, as far as the result is a single letter A to Z: besides the small
  letters only the dotless i (305) and the long s (383) have such an upper case.
\<close>

definition upper_unit :: "code_unit \<Rightarrow> code_unit" where
  "upper_unit c = (if is_lower c then c - 32 else if c = 305 then 73 else if c = 383 then 83 else c)"

definition getHeroSmsQuickIndex :: "region_env \<Rightarrow> jsstr \<Rightarrow> jsstr" where
  "getHeroSmsQuickIndex env value =
     (case nfkd env (trim value) of [] \<Rightarrow> js ''#''
      | c # _ \<Rightarrow> if is_upper (upper_unit c) then [upper_unit c] else js ''#'')"

section \<open>Quantities and orders\<close>

text \<open>Of an order only the identity and the status are read here.\<close>

record HeroSmsSmsOrder =
  order_id :: jsstr
  order_status :: jsstr

definition HERO_SMS_MAX_QUANTITY :: number where
  "HERO_SMS_MAX_QUANTITY = Num 10"

definition clampHeroSmsQuantity :: "number \<Rightarrow> number \<Rightarrow> number" where
  "clampHeroSmsQuantity quantity inventory =
     (let available = num_max (Num 1) (num_min HERO_SMS_MAX_QUANTITY
            (if truthy_num inventory then inventory else Num 1))
      in if \<not> is_finite quantity then Num 1
         else num_max (Num 1) (num_min available (num_floor quantity)))"

definition activeStatuses :: "jsstr list" where
  "activeStatuses = map js [''pending_provider'', ''purchase_unknown'', ''active'', ''cancel_pending'']"

definition isActiveHeroSmsSmsOrder :: "HeroSmsSmsOrder option \<Rightarrow> bool" where
  "isActiveHeroSmsSmsOrder order =
     (case order of None \<Rightarrow> False | Some ord \<Rightarrow> order_status ord \<in> set activeStatuses)"

text \<open>The interval in milliseconds; \<open>None\<close> is \<open>false\<close>: no polling.\<close>

definition getHeroSmsCurrentOrderPollingInterval :: "HeroSmsSmsOrder list option \<Rightarrow> bool \<Rightarrow> int option" where
  "getHeroSmsCurrentOrderPollingInterval orders pageVisible =
     (case orders of None \<Rightarrow> None
      | Some os \<Rightarrow>
          if os = [] then None
          else if list_ex (\<lambda>ord. isActiveHeroSmsSmsOrder (Some ord)) os
          then Some (if pageVisible then 10000 else 60000)
          else Some 60000)"

definition selectHeroSmsHistoryOrders ::
  "HeroSmsSmsOrder list option \<Rightarrow> HeroSmsSmsOrder list option \<Rightarrow> HeroSmsSmsOrder list" where
  "selectHeroSmsHistoryOrders history current =
     (let currentIds = map order_id (case current of Some os \<Rightarrow> os | None \<Rightarrow> [])
      in filter (\<lambda>ord. \<not> isActiveHeroSmsSmsOrder (Some ord) \<and> order_id ord \<notin> set currentIds)
           (case history of Some os \<Rightarrow> os | None \<Rightarrow> []))"

section \<open>Status of an activation\<close>

text \<open>\<open>None\<close> is \<open>null\<close> or \<open>undefined\<close>. No status contains a \<open>k\<close>, the one letter of those compared with
  that a character outside ASCII has as its lower case.\<close>

definition normalizeStatus :: "jsstr option \<Rightarrow> jsstr" where
  "normalizeStatus status =
     map (\<lambda>c. if c = 32 then 95 else c)
       (lower_ascii (trim (case status of Some s \<Rightarrow> s | None \<Rightarrow> js ''unknown'')))"

definition isHeroSmsActiveStatus :: "jsstr option \<Rightarrow> bool" where
  "isHeroSmsActiveStatus status \<longleftrightarrow>
     normalizeStatus status \<in> set (map js [''pending_provider'', ''active'', ''reconciling'', ''cancel_pending''])"

definition canCancelHeroSmsActivation :: "jsstr option \<Rightarrow> bool" where
  "canCancelHeroSmsActivation status \<longleftrightarrow>
     normalizeStatus status \<in> set (map js [''pending_provider'', ''active'', ''reconciling''])"

definition canReorderHeroSmsActivation :: "jsstr option \<Rightarrow> bool" where
  "canReorderHeroSmsActivation status \<longleftrightarrow>
     normalizeStatus status \<in> set (map js [''completed'', ''cancelled'', ''expired'', ''refunded''])"

datatype HeroSmsStatusTone = Tone_default | Tone_secondary | Tone_warning | Tone_destructive | Tone_outline

definition status_presentations :: "(jsstr \<times> jsstr \<times> HeroSmsStatusTone) list" where
  "status_presentations =
     map (\<lambda>(s, l, tone). (js s, js l, tone))
      [(''pending_provider'', ''Pending purchase'', Tone_warning),
       (''active'', ''Awaiting code'', Tone_secondary),
       (''completed'', ''Code received'', Tone_default),
       (''cancelled'', ''Cancelled'', Tone_outline),
       (''expired'', ''Expired'', Tone_outline),
       (''reconciling'', ''Reconciling'', Tone_warning),
       (''cancel_pending'', ''Cancel pending'', Tone_warning),
       (''refunded'', ''Refunded'', Tone_outline),
       (''failed'', ''Failed'', Tone_destructive)]"

text \<open>The label to translate and its tone; the icons carry no information.\<close>

definition getHeroSmsStatusPresentation :: "jsstr option \<Rightarrow> jsstr \<times> HeroSmsStatusTone" where
  "getHeroSmsStatusPresentation status =
     (case map_of status_presentations (normalizeStatus status) of
        Some p \<Rightarrow> p | None \<Rightarrow> (js ''Unknown status'', Tone_outline))"

definition getHeroSmsStatusOptions :: "(jsstr \<times> jsstr) list" where
  "getHeroSmsStatusOptions =
     map (\<lambda>(l, v). (js l, js v))
      [(''All statuses'', ''all''), (''Pending purchase'', ''pending_provider''), (''Awaiting code'', ''active''),
       (''Code received'', ''completed''), (''Reconciling'', ''reconciling''), (''Cancel pending'', ''cancel_pending''),
       (''Cancelled'', ''cancelled''), (''Expired'', ''expired''), (''Refunded'', ''refunded''), (''Failed'', ''failed'')]"

section \<open>Phone numbers\<close>

definition HERO_SMS_DIALING_PREFIXES :: "jsstr list" where
  "HERO_SMS_DIALING_PREFIXES = map js
     [''1242'', ''1246'', ''1264'', ''1268'', ''1284'', ''1340'', ''1345'', ''1441'', ''1473'', ''1649'', ''1664'',
      ''1670'', ''1671'', ''1684'', ''1721'', ''1758'', ''1767'', ''1784'', ''1868'', ''1869'', ''1876'', ''211'',
      ''212'', ''213'', ''216'', ''218'', ''220'', ''221'', ''222'', ''223'', ''224'', ''225'', ''226'', ''227'',
      ''228'', ''229'', ''230'', ''231'', ''232'', ''233'', ''234'', ''235'', ''236'', ''237'', ''238'', ''239'',
      ''240'', ''241'', ''242'', ''243'', ''244'', ''245'', ''246'', ''248'', ''249'', ''250'', ''251'', ''252'',
      ''253'', ''254'', ''255'', ''256'', ''257'', ''258'', ''260'', ''261'', ''262'', ''263'', ''264'', ''265'',
      ''266'', ''267'', ''268'', ''269'', ''290'', ''291'', ''297'', ''298'', ''299'', ''350'', ''351'', ''352'',
      ''353'', ''354'', ''355'', ''356'', ''357'', ''358'', ''359'', ''370'', ''371'', ''372'', ''373'', ''374'',
      ''375'', ''376'', ''377'', ''378'', ''380'', ''381'', ''382'', ''383'', ''385'', ''386'', ''387'', ''389'',
      ''420'', ''421'', ''423'', ''500'', ''501'', ''502'', ''503'', ''504'', ''505'', ''506'', ''507'', ''508'',
      ''509'', ''590'', ''591'', ''592'', ''593'', ''594'', ''595'', ''596'', ''597'', ''598'', ''599'', ''670'',
      ''672'', ''673'', ''674'', ''675'', ''676'', ''677'', ''678'', ''679'', ''680'', ''681'', ''682'', ''683'',
      ''685'', ''686'', ''687'', ''688'', ''689'', ''690'', ''691'', ''692'', ''850'', ''852'', ''853'', ''855'',
      ''856'', ''880'', ''886'', ''960'', ''961'', ''962'', ''963'', ''964'', ''965'', ''966'', ''967'', ''968'',
      ''970'', ''971'', ''972'', ''973'', ''974'', ''975'', ''976'', ''977'', ''992'', ''993'', ''994'', ''995'',
      ''996'', ''998'', ''20'', ''27'', ''30'', ''31'', ''32'', ''33'', ''34'', ''36'', ''39'', ''40'', ''41'',
      ''43'', ''44'', ''45'', ''46'', ''47'', ''48'', ''49'', ''51'', ''52'', ''53'', ''54'', ''55'', ''56'',
      ''57'', ''58'', ''60'', ''61'', ''62'', ''63'', ''64'', ''65'', ''66'', ''81'', ''82'', ''84'', ''86'',
      ''90'', ''91'', ''92'', ''93'', ''94'', ''95'', ''98'', ''1'', ''7'']"

record HeroSmsPhoneNumberParts =
  callingCode :: jsstr
  subscriberNumber :: jsstr
  e164 :: jsstr
  display :: jsstr
  masked :: bool

text \<open>Four bullets (8226), then nothing or white space and four digits.\<close>

definition is_masked :: "jsstr \<Rightarrow> bool" where
  "is_masked raw \<longleftrightarrow>
     take 4 raw = replicate 4 8226 \<and>
     (let rest = drop 4 raw; tail = dropWhile is_space rest
      in rest = [] \<or> (length tail < length rest \<and> length tail = 4 \<and> list_all is_digit tail))"

definition resolveHeroSmsPhoneNumber :: "jsstr option \<Rightarrow> HeroSmsPhoneNumberParts option" where
  "resolveHeroSmsPhoneNumber value =
     (let raw = trim (case value of Some s \<Rightarrow> s | None \<Rightarrow> []) in
      if is_masked raw then
        Some \<lparr>callingCode = [], subscriberNumber = raw, e164 = raw, display = raw, masked = True\<rparr>
      else
        let digits0 = filter is_digit raw;
            digits = (if starts_with digits0 (js ''00'') then drop 2 digits0 else digits0)
        in if digits = [] then None
           else let code = (case find (\<lambda>prefix. starts_with digits prefix) HERO_SMS_DIALING_PREFIXES of
                       Some p \<Rightarrow> p | None \<Rightarrow> []);
                    subscriber = (if code \<noteq> [] then drop (length code) digits else digits);
                    number = [43] @ digits
                in Some \<lparr>callingCode = code, subscriberNumber = subscriber, e164 = number,
                     display = (if code \<noteq> [] \<and> subscriber \<noteq> [] then [43] @ code @ [32] @ subscriber else number),
                     masked = False\<rparr>)"

section \<open>Favourites are kept\<close>

text \<open>A favourite as the page offers it: a trimmed code of at most 64 units and a country number.\<close>

definition valid_favorite :: "HeroSmsFavoritePair \<Rightarrow> bool" where
  "valid_favorite p \<longleftrightarrow>
     serviceCode p \<noteq> [] \<and> trim (serviceCode p) = serviceCode p \<and> length (serviceCode p) \<le> 64 \<and>
     list_all (\<lambda>c. 0 \<le> c \<and> c < 65536) (serviceCode p) \<and>
     (case countryId p of Num q \<Rightarrow> is_integer (Num q) \<and> 0 \<le> q \<and> round64 q = Num q | _ \<Rightarrow> False)"

definition valid_favorites :: "HeroSmsFavoritePair list \<Rightarrow> bool" where
  "valid_favorites ps \<longleftrightarrow>
     list_all valid_favorite ps \<and> distinct (map favoritePairKey ps) \<and> length ps \<le> HERO_SMS_MAX_FAVORITES"

lemma pair_value_json:
  assumes "valid_favorite p"
  shows "json_value (pair_value p)"
proof -
  have "array_index (js ''serviceCode'') = None" "array_index (js ''countryId'') = None"
    "js ''serviceCode'' \<noteq> js ''countryId''"
    "list_all (\<lambda>c. 0 \<le> c \<and> c < 65536) (js ''serviceCode'')" "list_all (\<lambda>c. 0 \<le> c \<and> c < 65536) (js ''countryId'')"
    by code_simp+
  with assms show ?thesis by (auto simp: pair_value_def valid_favorite_def split: number.splits)
qed

lemma pair_value_read:
  assumes "valid_favorite p"
  shows "isFavoritePair (pair_value p)" and "read_pair (pair_value p) = p"
proof -
  have k: "js ''serviceCode'' \<noteq> js ''countryId''" by code_simp
  have code: "get_prop (pair_value p) (js ''serviceCode'') = Str (serviceCode p)"
    and country: "get_prop (pair_value p) (js ''countryId'') = Number (countryId p)"
    using k by (simp_all add: pair_value_def)
  obtain q where q: "countryId p = Num q" "is_integer (Num q)" "0 \<le> q"
    using assms by (auto simp: valid_favorite_def split: number.splits)
  then have "num_ge (Num q) (Num 0)" by (simp add: num_ge_def num_le_def)
  with q show "isFavoritePair (pair_value p)"
    using assms unfolding isFavoritePair_def code country
    by (simp add: valid_favorite_def str_of_def num_of_def is_object_def pair_value_def)
  show "read_pair (pair_value p) = p"
    using assms unfolding read_pair_def code country by (simp add: valid_favorite_def str_of_def num_of_def)
qed

lemma collect_written:
  assumes "list_all valid_favorite ps" and "distinct (map favoritePairKey (acc @ ps))"
    and "length (acc @ ps) \<le> HERO_SMS_MAX_FAVORITES"
  shows "collect_favorites (map pair_value ps) (map favoritePairKey acc) acc = acc @ ps"
  using assms
proof (induction ps arbitrary: acc)
  case (Cons p ps)
  have p: "isFavoritePair (pair_value p)" "read_pair (pair_value p) = p"
    using Cons.prems(1) by (simp_all add: pair_value_read)
  have new: "favoritePairKey p \<notin> set (map favoritePairKey acc)" using Cons.prems(2) by auto
  show ?case
  proof (cases "length (acc @ [p]) = HERO_SMS_MAX_FAVORITES")
    case True
    then have "ps = []" using Cons.prems(3) by (cases ps) simp_all
    with True p new show ?thesis by simp
  next
    case False
    have "collect_favorites (map pair_value ps) (map favoritePairKey (acc @ [p])) (acc @ [p]) = (acc @ [p]) @ ps"
      using Cons.prems by (intro Cons.IH) simp_all
    with False p new show ?thesis by simp
  qed
qed simp

lemma saved_favorites_load:
  assumes "valid_favorites ps" and "saveHeroSmsFavorites ps (Some st) = (True, st')"
  shows "loadHeroSmsFavorites st' = ps"
proof -
  let ?v = "Arr (map pair_value ps)"
  have ps: "take HERO_SMS_MAX_FAVORITES ps = ps" using assms(1) by (simp add: valid_favorites_def)
  have v: "json_value ?v"
    using assms(1) by (auto simp: valid_favorites_def list_all_iff pair_value_json)
  obtain st1 where st1: "setItem st HERO_SMS_FAVORITES_STORAGE_KEY (json_text ?v) = Inr st1" "st' = Some st1"
    using assms(2) json_round_trip(1) [OF v]
    by (auto simp: saveHeroSmsFavorites_def ps simp del: json_stringify.simps split: sum.splits)
  obtain t where "getItem st1 HERO_SMS_FAVORITES_STORAGE_KEY = Some t" "json_parse t = Some ?v"
    using local_storage.json_written [OF st1(1) v] by blast
  then have "loadHeroSmsFavorites st' = collect_favorites (map pair_value ps) [] []"
    by (simp add: loadHeroSmsFavorites_def st1(2))
  also have "\<dots> = ps" using collect_written [of ps "[]"] assms(1) by (simp add: valid_favorites_def)
  finally show ?thesis .
qed

lemma find_index_Some:
  assumes "find_index P xs = Some i"
  shows "i < length xs" and "P (xs ! i)"
  using assms by (induction xs arbitrary: i) (auto split: if_splits)

lemma find_index_None: "find_index P xs = None \<longleftrightarrow> \<not> list_ex P xs"
  by (induction xs) auto

lemma remove_at_parts:
  assumes "i < length xs"
  obtains ys zs where "xs = ys @ xs ! i # zs" and "remove_at i xs = ys @ zs"
  using assms id_take_nth_drop [of i xs] by (simp add: remove_at_def)

lemma set_remove_at:
  assumes "distinct (map f xs)" and "i < length xs"
  shows "f ` set (remove_at i xs) = f ` set xs - {f (xs ! i)}"
proof -
  obtain ys zs where xs: "xs = ys @ xs ! i # zs" "remove_at i xs = ys @ zs" by (rule remove_at_parts [OF assms(2)])
  define y where "y = xs ! i"
  have x: "xs = ys @ y # zs" using xs(1) by (simp add: y_def)
  then have "f ` set xs = insert (f y) (f ` set ys \<union> f ` set zs)" "f y \<notin> f ` set ys \<union> f ` set zs"
    using assms(1) by auto
  then show ?thesis unfolding xs(2) y_def [symmetric] by (simp add: image_Un)
qed

lemma valid_remove_at:
  assumes "valid_favorites ps" and "i < length ps"
  shows "valid_favorites (remove_at i ps)"
proof -
  obtain ys y zs where "ps = ys @ y # zs" "remove_at i ps = ys @ zs" using remove_at_parts [OF assms(2)] by metis
  then show ?thesis using assms(1) by (simp add: valid_favorites_def)
qed

lemma has_favorite_iff:
  "hasHeroSmsFavorite ps code country \<longleftrightarrow>
     favoritePairKey \<lparr>serviceCode = code, countryId = country\<rparr> \<in> favoritePairKey ` set ps"
  unfolding hasHeroSmsFavorite_def Let_def list_ex_iff image_iff by (simp add: eq_commute)


section \<open>Names of countries\<close>

lemma map_of_fold_put:
  assumes "distinct (map fst ps)" and "(k, v) \<in> set ps"
  shows "map_of (foldl (\<lambda>m (name, code). map_put name code m) m0 ps) k = Some v"
proof -
  have "map_of (foldl (\<lambda>m (name, code). map_put name code m) m0 ps) =
      (\<lambda>x. case map_of (rev ps) x of Some y \<Rightarrow> Some y | None \<Rightarrow> map_of m0 x)"
    by (induction ps rule: rev_induct) (auto simp: fun_eq_iff)
  moreover have "map_of (rev ps) k = Some v"
    using assms by (simp add: map_of_is_SomeI rev_map [symmetric])
  ultimately show ?thesis by simp
qed

lemma regionAliases_distinct: "distinct (map fst regionAliases)"
  by code_simp

text \<open>The names the program lists itself are resolved as it lists them, whatever names the locale library has.\<close>

lemma alias_resolves:
  assumes "(name, code) \<in> set regionAliases" and "normalizeCountryName env (english_name country) = name"
  shows "resolveHeroSmsCountryCode env country = Some code"
proof -
  have "list_all (\<lambda>p. fst p \<noteq> []) regionAliases" by code_simp
  then have "name \<noteq> []" using assms(1) by (force simp: list_all_iff)
  then show ?thesis
    using assms map_of_fold_put [OF regionAliases_distinct assms(1)]
    by (simp add: resolveHeroSmsCountryCode_def getEnglishRegionIndex_def Let_def)
qed

section \<open>Quantities\<close>

text \<open>The quantity that is bought is between 1 and 10 and never more than what is in stock.\<close>

lemma clampHeroSmsQuantity_bounds:
  shows "is_finite (clampHeroSmsQuantity quantity inventory)"
    and "1 \<le> val (clampHeroSmsQuantity quantity inventory)"
    and "val (clampHeroSmsQuantity quantity inventory) \<le> 10"
proof -
  let ?inv = "if truthy_num inventory then inventory else Num 1"
  let ?available = "num_max (Num 1) (num_min (Num 10) ?inv)"
  have inv: "?inv \<noteq> NaN" by (simp add: truthy_num_def)
  have m: "is_finite (num_min (Num 10) ?inv) \<or> num_min (Num 10) ?inv = Infin True"
    using inv by (cases ?inv) (auto simp: num_min_def)
  have m10: "is_finite (num_min (Num 10) ?inv) \<Longrightarrow> val (num_min (Num 10) ?inv) \<le> 10"
    using inv by (cases ?inv) (auto simp: num_min_def)
  have av: "is_finite ?available \<and> 1 \<le> val ?available \<and> val ?available \<le> 10"
    using m
  proof
    assume "is_finite (num_min (Num 10) ?inv)"
    then show ?thesis using m10 by (auto simp: val_num_max num_max_finite)
  next
    assume "num_min (Num 10) ?inv = Infin True"
    then show ?thesis by (simp add: num_max_def)
  qed
  have "is_finite (clampHeroSmsQuantity quantity inventory) \<and> 1 \<le> val (clampHeroSmsQuantity quantity inventory) \<and>
      val (clampHeroSmsQuantity quantity inventory) \<le> 10"
  proof (cases "is_finite quantity")
    case True
    then have "is_finite (num_min ?available (num_floor quantity))" "val (num_min ?available (num_floor quantity)) \<le> 10"
      using av by (simp_all only: num_min_finite num_floor_finite val_num_min min.coboundedI1)
    then show ?thesis
      using True by (simp add: clampHeroSmsQuantity_def HERO_SMS_MAX_QUANTITY_def Let_def num_max_finite val_num_max)
  qed (simp add: clampHeroSmsQuantity_def)
  then show "is_finite (clampHeroSmsQuantity quantity inventory)"
    "1 \<le> val (clampHeroSmsQuantity quantity inventory)" "val (clampHeroSmsQuantity quantity inventory) \<le> 10"
    by blast+
qed

lemma clampHeroSmsQuantity_stock:
  assumes "inventory = Num k" and "1 \<le> k"
  shows "val (clampHeroSmsQuantity quantity inventory) \<le> k"
proof (cases "is_finite quantity")
  case True
  have "truthy_num inventory" using assms by (simp add: truthy_num_def)
  then show ?thesis
    using True assms
    by (simp add: clampHeroSmsQuantity_def HERO_SMS_MAX_QUANTITY_def Let_def num_max_finite num_min_finite val_num_max val_num_min)
qed (simp add: clampHeroSmsQuantity_def assms)

section \<open>Phone numbers are taken apart at the longest prefix\<close>

lemma find_first:
  assumes "sorted_wrt (\<lambda>a b. length b \<le> length a) ps" and "find P ps = Some p" and "q \<in> set ps" and "P q"
  shows "length q \<le> length (p :: 'a list)"
  using assms by (induction ps) (auto split: if_splits)

lemma prefixes_by_length: "sorted_wrt (\<lambda>a b. length b \<le> length a) HERO_SMS_DIALING_PREFIXES"
proof -
  have "successively (\<lambda>a b. length b \<le> length a) HERO_SMS_DIALING_PREFIXES" by code_simp
  moreover have "transp (\<lambda>(a :: jsstr) b. length b \<le> length a)" by (rule transpI) simp
  ultimately show ?thesis by (simp add: successively_conv_sorted_wrt)
qed

text \<open>An unmasked number is taken apart into a calling code and the rest without losing a digit, and the
  calling code is the longest known dialling prefix of the number.\<close>

lemma phone_number_longest_prefix:
  assumes "resolveHeroSmsPhoneNumber value = Some parts" and "\<not> masked parts"
  shows "e164 parts = [43] @ callingCode parts @ subscriberNumber parts \<and>
    list_all is_digit (callingCode parts @ subscriberNumber parts) \<and>
    (callingCode parts \<noteq> [] \<longrightarrow> callingCode parts \<in> set HERO_SMS_DIALING_PREFIXES) \<and>
    (\<forall>p \<in> set HERO_SMS_DIALING_PREFIXES. starts_with (callingCode parts @ subscriberNumber parts) p \<longrightarrow>
       length p \<le> length (callingCode parts))"
proof -
  let ?raw = "trim (case value of Some s \<Rightarrow> s | None \<Rightarrow> [])"
  define digits where "digits =
    (if starts_with (filter is_digit ?raw) (js ''00'') then drop 2 (filter is_digit ?raw) else filter is_digit ?raw)"
  define found where "found = find (\<lambda>prefix. starts_with digits prefix) HERO_SMS_DIALING_PREFIXES"
  define code where "code = (case found of Some p \<Rightarrow> p | None \<Rightarrow> [])"
  have d: "list_all is_digit digits"
    by (auto simp: digits_def list_all_iff dest: in_set_dropD)
  have parts: "callingCode parts = code" "subscriberNumber parts = (if code \<noteq> [] then drop (length code) digits else digits)"
    "e164 parts = [43] @ digits"
    using assms unfolding resolveHeroSmsPhoneNumber_def Let_def digits_def [symmetric] found_def [symmetric] code_def [symmetric]
    by (auto split: if_splits)
  have pre: "starts_with digits code"
  proof (cases found)
    case (Some c)
    then have "starts_with digits c" by (auto simp: found_def find_Some_iff)
    with Some show ?thesis by (simp add: code_def)
  qed (simp add: code_def starts_with_def)
  then have split: "digits = callingCode parts @ subscriberNumber parts"
    using parts by (auto simp: starts_with_iff)
  have "e164 parts = [43] @ callingCode parts @ subscriberNumber parts" using parts(3) split by simp
  moreover have "list_all is_digit (callingCode parts @ subscriberNumber parts)" using d split by simp
  moreover have "callingCode parts \<in> set HERO_SMS_DIALING_PREFIXES" if "callingCode parts \<noteq> []"
  proof (cases found)
    case (Some c)
    then have "c \<in> set HERO_SMS_DIALING_PREFIXES" by (auto simp: found_def find_Some_iff)
    with Some show ?thesis using parts(1) by (simp add: code_def)
  qed (use that parts(1) in \<open>simp add: code_def\<close>)
  moreover have "\<forall>p \<in> set HERO_SMS_DIALING_PREFIXES. starts_with (callingCode parts @ subscriberNumber parts) p \<longrightarrow>
      length p \<le> length (callingCode parts)"
  proof (intro ballI impI)
    fix p assume p: "p \<in> set HERO_SMS_DIALING_PREFIXES" "starts_with (callingCode parts @ subscriberNumber parts) p"
    then have "starts_with digits p" using split by simp
    then obtain c where c: "found = Some c" using p(1) by (cases found) (auto simp: found_def find_None_iff)
    show "length p \<le> length (callingCode parts)"
      using find_first [OF prefixes_by_length c [unfolded found_def] p(1) \<open>starts_with digits p\<close>] parts(1) c
      by (simp add: code_def)
  qed
  ultimately show ?thesis by blast
qed


end
