(* ===== verification/SmsPurchase.thy ===== *)
theory SmsPurchase
  imports SmsCatalog
begin

text \<open>
  Buying numbers (\<^verbatim>\<open>features/email-activations/sms-purchase.ts\<close>, \<^verbatim>\<open>sms-balance.ts\<close>, and the
  mutations of \<^verbatim>\<open>sms-activation-panel.tsx\<close>): a batch is bought one number at a time, each under its own
  idempotency key, with one retry when a request got no answer.

  The services a purchase calls are the fields of \<open>purchase_deps\<close>, functions on an outside state \<open>'s\<close>. An
  order is of any type \<open>'o\<close>: the purchase only passes it on. Awaiting a call is using its answer and
  the state it leaves.
\<close>

section \<open>Errors and answers\<close>

text \<open>
  What a request may throw: an error of the HTTP client, with the response when there was one, or an error
  the program made from a refused answer, with the code of the answer.
\<close>

record axios_response =
  response_status :: number
  response_data :: jsval

datatype request_error = Axios_error "axios_response option" jsstr | Plain_error jsstr jsval

text \<open>\<open>unwrap\<close>: the body of an answer is an envelope.\<close>

definition unwrap :: "jsval \<Rightarrow> request_error + jsval" where
  "unwrap body =
     (if \<not> truthy_val (get_prop body (js ''success'')) then
        Inl (Plain_error (string_of_val (or_else (get_prop body (js ''message'')) (Str (js ''HeroSMS request failed''))))
          (get_prop body (js ''code'')))
      else Inr (get_prop body (js ''data'')))"

record parsed_error =
  parsed_status :: "number option"
  parsed_code :: jsval
  parsed_message :: jsval

definition parseHeroSmsError :: "request_error \<Rightarrow> parsed_error" where
  "parseHeroSmsError err =
     (case err of
        Axios_error response message \<Rightarrow>
          (let data = (case response of Some r \<Rightarrow> response_data r | None \<Rightarrow> Undefined)
           in \<lparr>parsed_status = map_option response_status response, parsed_code = get_prop data (js ''code''),
               parsed_message = or_else (or_else (get_prop data (js ''message'')) (Str message))
                 (Str (js ''HeroSMS request failed''))\<rparr>)
      | Plain_error message _ \<Rightarrow> \<lparr>parsed_status = None, parsed_code = Undefined, parsed_message = Str message\<rparr>)"

definition isAmbiguousRequestError :: "request_error \<Rightarrow> bool" where
  "isAmbiguousRequestError err = (case err of Axios_error None _ \<Rightarrow> True | _ \<Rightarrow> False)"

section \<open>Balance\<close>

definition SMS_MINIMUM_BALANCE_USD :: number where
  "SMS_MINIMUM_BALANCE_USD = Num 10"

definition SMS_MINIMUM_BALANCE_CODE :: jsstr where
  "SMS_MINIMUM_BALANCE_CODE = js ''TEMPORARY_SMS_MINIMUM_BALANCE''"

datatype balance_status = Unknown | Allowed | Below_minimum

definition getSmsPurchaseBalance :: "jsval \<Rightarrow> number \<Rightarrow> balance_status \<times> number option" where
  "getSmsPurchaseBalance quota quotaPerUnit =
     (if \<not> is_Number quota \<or> \<not> is_finite (num_of quota) \<or> \<not> is_finite quotaPerUnit \<or> num_le quotaPerUnit (Num 0)
      then (Unknown, None)
      else (if num_ge (num_of quota) (num_mul SMS_MINIMUM_BALANCE_USD quotaPerUnit) then Allowed else Below_minimum,
            Some (num_div (num_of quota) quotaPerUnit)))"

text \<open>The codes of the HTTP client itself (\<open>ERR_BAD_REQUEST\<close> and the like) differ from this one.\<close>

definition isSmsMinimumBalanceError :: "request_error \<Rightarrow> bool" where
  "isSmsMinimumBalanceError err =
     (case err of
        Plain_error _ code \<Rightarrow> code = Str SMS_MINIMUM_BALANCE_CODE
      | Axios_error None _ \<Rightarrow> False
      | Axios_error (Some r) _ \<Rightarrow>
          is_object (response_data r) \<and> get_prop (response_data r) (js ''code'') = Str SMS_MINIMUM_BALANCE_CODE)"

section \<open>Offers\<close>

record HeroSmsSmsPriceTier =
  tier_id :: jsstr
  tier_inventory :: number
  tier_price :: jsstr
  tier_charge :: number

record HeroSmsSmsOffer =
  offer_id :: jsstr
  offer_country :: number
  offer_service :: jsstr
  offer_operator :: jsstr
  inventory :: number
  customer_price_usd :: jsstr
  charge_quota :: number
  bid :: "bool option"
  tiers :: "HeroSmsSmsPriceTier list option"

definition selectHeroSmsPriceTier :: "HeroSmsSmsOffer \<Rightarrow> jsstr \<Rightarrow> HeroSmsSmsOffer option" where
  "selectHeroSmsPriceTier offer customerPriceUSD =
     (let ts = (case tiers offer of Some (x # xs) \<Rightarrow> x # xs
          | _ \<Rightarrow> [\<lparr>tier_id = offer_id offer, tier_inventory = inventory offer,
                  tier_price = customer_price_usd offer, tier_charge = charge_quota offer\<rparr>]);
          tier = (if customerPriceUSD \<noteq> [] then find (\<lambda>candidate. tier_price candidate = customerPriceUSD) ts
                  else Some (hd ts))
      in map_option (\<lambda>t. offer\<lparr>offer_id := tier_id t, inventory := tier_inventory t,
           customer_price_usd := tier_price t, charge_quota := tier_charge t, bid := Some False\<rparr>) tier)"

definition isSamePurchaseQuote :: "HeroSmsSmsOffer \<Rightarrow> HeroSmsSmsOffer \<Rightarrow> bool" where
  "isSamePurchaseQuote initialOffer currentOffer \<longleftrightarrow>
     num_eq (offer_country currentOffer) (offer_country initialOffer) \<and>
     offer_service currentOffer = offer_service initialOffer \<and>
     offer_operator currentOffer = offer_operator initialOffer \<and>
     num_eq (charge_quota currentOffer) (charge_quota initialOffer)"

section \<open>A batch\<close>

datatype HeroSmsBatchFailureCode = PRICE_CHANGED | OUT_OF_STOCK | REQUEST_FAILED

record batch_failure =
  failure_code :: HeroSmsBatchFailureCode
  failure_item :: nat
  failure_error :: "request_error option"
  ambiguous :: bool
  failure_offerId :: "jsstr option"
  failure_idempotencyKey :: "jsstr option"

record 'o HeroSmsBatchPurchaseResult =
  requested :: number
  orders :: "'o list"
  failure :: "batch_failure option"

record ('s, 'o) purchase_deps =
  getFreshOffer :: "'s \<Rightarrow> (request_error + HeroSmsSmsOffer) \<times> 's"
  createOrder :: "jsstr \<Rightarrow> jsstr \<Rightarrow> 's \<Rightarrow> (request_error + 'o) \<times> 's"
  isAmbiguousNetworkError :: "request_error \<Rightarrow> bool"
  onProgress :: "nat \<Rightarrow> number \<Rightarrow> 's \<Rightarrow> 's"

text \<open>An error the purchase throws on: marked as ambiguous around the error of the retry, or as it came.\<close>

datatype purchase_error = Ambiguous_purchase request_error | Thrown request_error

definition createOrderWithOneSafeRetry ::
  "('s, 'o) purchase_deps \<Rightarrow> jsstr \<Rightarrow> jsstr \<Rightarrow> 's \<Rightarrow> (purchase_error + 'o) \<times> 's" where
  "createOrderWithOneSafeRetry deps offerId idempotencyKey s =
     (case createOrder deps offerId idempotencyKey s of
        (Inr r, s1) \<Rightarrow> (Inr r, s1)
      | (Inl err, s1) \<Rightarrow>
          if \<not> isAmbiguousNetworkError deps err then (Inl (Thrown err), s1)
          else (case createOrder deps offerId idempotencyKey s1 of
                  (Inr r, s2) \<Rightarrow> (Inr r, s2)
                | (Inl retryError, s2) \<Rightarrow> (Inl (Ambiguous_purchase retryError), s2)))"

definition item_key :: "jsstr \<Rightarrow> nat \<Rightarrow> jsstr" where
  "item_key idempotencyKey item = idempotencyKey @ [45] @ int_digits (int item)"

definition failed_before :: "HeroSmsBatchFailureCode \<Rightarrow> nat \<Rightarrow> request_error option \<Rightarrow> batch_failure" where
  "failed_before code item err =
     \<lparr>failure_code = code, failure_item = item, failure_error = err, ambiguous = False,
      failure_offerId = None, failure_idempotencyKey = None\<rparr>"

text \<open>The loop; the list holds the indices still to come.\<close>

fun purchase_items ::
  "('s, 'o) purchase_deps \<Rightarrow> HeroSmsSmsOffer \<Rightarrow> jsstr \<Rightarrow> number \<Rightarrow> nat list \<Rightarrow> 'o list \<Rightarrow> 's \<Rightarrow>
   'o HeroSmsBatchPurchaseResult \<times> 's" where
  "purchase_items deps initialOffer key req [] os s = (\<lparr>requested = req, orders = os, failure = None\<rparr>, s)"
| "purchase_items deps initialOffer key req (index # rest) os s =
     (case (if index = 0 then (Inr initialOffer, s) else getFreshOffer deps s) of
        (Inl err, s1) \<Rightarrow>
          (\<lparr>requested = req, orders = os, failure = Some (failed_before REQUEST_FAILED (index + 1) (Some err))\<rparr>, s1)
      | (Inr offer, s1) \<Rightarrow>
          if \<not> isSamePurchaseQuote initialOffer offer then
            (\<lparr>requested = req, orders = os, failure = Some (failed_before PRICE_CHANGED (index + 1) None)\<rparr>, s1)
          else if num_lt (inventory offer) (Num 1) then
            (\<lparr>requested = req, orders = os, failure = Some (failed_before OUT_OF_STOCK (index + 1) None)\<rparr>, s1)
          else
            (case createOrderWithOneSafeRetry deps (offer_id offer) (item_key key (index + 1)) s1 of
               (Inr ord, s2) \<Rightarrow>
                 (let os' = os @ [ord]
                  in purchase_items deps initialOffer key req rest os' (onProgress deps (length os') req s2))
             | (Inl perr, s2) \<Rightarrow>
                 (\<lparr>requested = req, orders = os, failure = Some
                    \<lparr>failure_code = REQUEST_FAILED, failure_item = index + 1,
                     failure_error = Some (case perr of Ambiguous_purchase c \<Rightarrow> c | Thrown err \<Rightarrow> err),
                     ambiguous = (case perr of Ambiguous_purchase _ \<Rightarrow> True | Thrown err \<Rightarrow> isAmbiguousNetworkError deps err),
                     failure_offerId = Some (offer_id offer), failure_idempotencyKey = Some (item_key key (index + 1))\<rparr>\<rparr>, s2)))"

definition loop_indices :: "number \<Rightarrow> nat list" where
  "loop_indices limit = [0..<nat \<lceil>val limit\<rceil>]"

definition purchaseHeroSmsBatch ::
  "('s, 'o) purchase_deps \<Rightarrow> HeroSmsSmsOffer \<Rightarrow> number \<Rightarrow> jsstr \<Rightarrow> 's \<Rightarrow> 'o HeroSmsBatchPurchaseResult \<times> 's" where
  "purchaseHeroSmsBatch deps initialOffer quantity idempotencyKey s =
     (let req = clampHeroSmsQuantity quantity (inventory initialOffer)
      in purchase_items deps initialOffer idempotencyKey req (loop_indices req) [] s)"

section \<open>The panel\<close>

text \<open>The services the panel calls: requests, the session of the page, the balance it records.\<close>

record 's panel_env =
  isCurrentSession :: "'s \<Rightarrow> bool"
  post_order :: "jsstr \<Rightarrow> jsstr \<Rightarrow> 's \<Rightarrow> (request_error + jsval) \<times> 's"
  get_offer :: "'s \<Rightarrow> (request_error + HeroSmsSmsOffer) \<times> 's"
  recordQuota :: "jsval \<Rightarrow> 's \<Rightarrow> 's"
  setBatchProgress :: "nat \<Rightarrow> number \<Rightarrow> 's \<Rightarrow> 's"

definition request_failed :: request_error where
  "request_failed = Plain_error (js ''HeroSMS request failed'') Undefined"

definition createHeroSmsSmsOrder :: "'s panel_env \<Rightarrow> jsstr \<Rightarrow> jsstr \<Rightarrow> 's \<Rightarrow> (request_error + jsval) \<times> 's" where
  "createHeroSmsSmsOrder env offerId idempotencyKey s =
     (case post_order env offerId idempotencyKey s of
        (Inl err, s1) \<Rightarrow> (Inl err, s1) | (Inr body, s1) \<Rightarrow> (unwrap body, s1))"

definition panel_createOrder :: "'s panel_env \<Rightarrow> jsstr \<Rightarrow> jsstr \<Rightarrow> 's \<Rightarrow> (request_error + jsval) \<times> 's" where
  "panel_createOrder env offerId idempotencyKey s =
     (if \<not> isCurrentSession env s then (Inl request_failed, s)
      else case createHeroSmsSmsOrder env offerId idempotencyKey s of
        (Inl err, s1) \<Rightarrow> (Inl err, s1)
      | (Inr result, s1) \<Rightarrow>
          (Inr (get_prop result (js ''order'')), recordQuota env (get_prop result (js ''quota'')) s1))"

definition panel_getFreshOffer ::
  "'s panel_env \<Rightarrow> bool \<Rightarrow> jsstr \<Rightarrow> 's \<Rightarrow> (request_error + HeroSmsSmsOffer) \<times> 's" where
  "panel_getFreshOffer env bidEnabled selectedTierPrice s =
     (case get_offer env s of
        (Inl err, s1) \<Rightarrow> (Inl err, s1)
      | (Inr fresh, s1) \<Rightarrow>
          if bidEnabled then (if bid fresh \<noteq> Some True then Inl request_failed else Inr fresh, s1)
          else (case selectHeroSmsPriceTier fresh selectedTierPrice of
                  None \<Rightarrow> (Inl request_failed, s1) | Some selected \<Rightarrow> (Inr selected, s1)))"

definition panel_deps :: "'s panel_env \<Rightarrow> bool \<Rightarrow> jsstr \<Rightarrow> ('s, jsval) purchase_deps" where
  "panel_deps env bidEnabled selectedTierPrice =
     \<lparr>getFreshOffer = panel_getFreshOffer env bidEnabled selectedTierPrice, createOrder = panel_createOrder env,
      isAmbiguousNetworkError = isAmbiguousRequestError, onProgress = setBatchProgress env\<rparr>"

datatype batch_message =
    No_message | Result_uncertain | Price_changed_before nat | Stock_ran_out_before nat | Minimum_balance | Message jsval

definition batchFailureMessage :: "'o HeroSmsBatchPurchaseResult \<Rightarrow> batch_message" where
  "batchFailureMessage result =
     (case failure result of None \<Rightarrow> No_message
      | Some f \<Rightarrow>
          if ambiguous f then Result_uncertain
          else if failure_code f = PRICE_CHANGED then Price_changed_before (failure_item f)
          else if failure_code f = OUT_OF_STOCK then Stock_ran_out_before (failure_item f)
          else (case failure_error f of
                  Some err \<Rightarrow> if isSmsMinimumBalanceError err then Minimum_balance
                            else Message (parsed_message (parseHeroSmsError err))
                | None \<Rightarrow> Message (Str (js ''HeroSMS request failed''))))"

definition stillAmbiguous :: "request_error \<Rightarrow> bool" where
  "stillAmbiguous err =
     (let parsed = parseHeroSmsError err
      in isAmbiguousRequestError err \<or> parsed_code parsed = Str (js ''UPSTREAM_BUSY'') \<or>
         (case parsed_status parsed of Some st \<Rightarrow> num_ge st (Num 500) | None \<Rightarrow> False))"

text \<open>Resolving an uncertain purchase: the same request again; the result is dropped once it is settled.\<close>

definition reconcile_run ::
  "'s panel_env \<Rightarrow> 'o HeroSmsBatchPurchaseResult option \<Rightarrow> 's \<Rightarrow> 'o HeroSmsBatchPurchaseResult option \<times> 's" where
  "reconcile_run env result s =
     (case result of None \<Rightarrow> (None, s)
      | Some r \<Rightarrow>
        (case failure r of None \<Rightarrow> (result, s)
         | Some f \<Rightarrow>
           (case (failure_offerId f, failure_idempotencyKey f) of
              (Some offerId, Some key) \<Rightarrow>
                if \<not> ambiguous f \<or> offerId = [] \<or> key = [] then (result, s)
                else (case createHeroSmsSmsOrder env offerId key s of
                        (Inr _, s1) \<Rightarrow> (None, s1)
                      | (Inl err, s1) \<Rightarrow> (if stillAmbiguous err then result else None, s1))
            | _ \<Rightarrow> (result, s))))"

section \<open>Keys of the items\<close>

lemma item_key_inject [simp]: "item_key key i = item_key key j \<longleftrightarrow> i = j"
proof
  assume "item_key key i = item_key key j"
  then have "digits_val (int_digits (int i)) = digits_val (int_digits (int j))" by (simp add: item_key_def)
  then show "i = j" by simp
qed simp

section \<open>Every purchase is accounted for\<close>

text \<open>
  What the provider of numbers promises, for \<open>placed s k\<close>: an order was placed and charged under the key \<open>k\<close>.
  An answered order is placed, and no other; an error leaves the orders under other keys as they are; an error that
  is not a lost answer, on a key under which nothing was placed, means that nothing was placed. Reading offers and
  showing progress place nothing.
\<close>

definition idempotent_provider :: "('s, 'o) purchase_deps \<Rightarrow> ('s \<Rightarrow> jsstr \<Rightarrow> bool) \<Rightarrow> bool" where
  "idempotent_provider deps placed \<longleftrightarrow>
     (\<forall>offerId k s r s'. createOrder deps offerId k s = (Inr r, s') \<longrightarrow> placed s' = (placed s)(k := True)) \<and>
     (\<forall>offerId k s err s'. createOrder deps offerId k s = (Inl err, s') \<longrightarrow>
        placed s' = placed s \<or> placed s' = (placed s)(k := True)) \<and>
     (\<forall>offerId k s err s'. createOrder deps offerId k s = (Inl err, s') \<and> \<not> isAmbiguousNetworkError deps err \<and>
        \<not> placed s k \<longrightarrow> placed s' = placed s) \<and>
     (\<forall>s r s'. getFreshOffer deps s = (r, s') \<longrightarrow> placed s' = placed s) \<and>
     (\<forall>n m s. placed (onProgress deps n m s) = placed s)"

lemma provider_answers:
  assumes "idempotent_provider deps placed"
  shows "createOrder deps offerId k s = (Inr r, s') \<Longrightarrow> placed s' = (placed s)(k := True)"
    and "createOrder deps offerId k s = (Inl err, s') \<Longrightarrow> placed s' = placed s \<or> placed s' = (placed s)(k := True)"
    and "createOrder deps offerId k s = (Inl err, s') \<Longrightarrow> \<not> isAmbiguousNetworkError deps err \<Longrightarrow> \<not> placed s k \<Longrightarrow>
      placed s' = placed s"
    and "getFreshOffer deps s = (fresh, s') \<Longrightarrow> placed s' = placed s"
    and "placed (onProgress deps n m s) = placed s"
  using assms unfolding idempotent_provider_def by metis+

lemma retry_placed:
  assumes "idempotent_provider deps placed" and "\<not> placed s k"
  shows "case createOrderWithOneSafeRetry deps offerId k s of
      (Inr r, s') \<Rightarrow> placed s' = (placed s)(k := True)
    | (Inl (Thrown err), s') \<Rightarrow> placed s' = placed s \<and> \<not> isAmbiguousNetworkError deps err
    | (Inl (Ambiguous_purchase err), s') \<Rightarrow> placed s' = placed s \<or> placed s' = (placed s)(k := True)"
proof -
  obtain a s1 where a: "createOrder deps offerId k s = (a, s1)" by fastforce
  show ?thesis
  proof (cases a)
    case (Inr r)
    then have "placed s1 = (placed s)(k := True)" using provider_answers(1) [OF assms(1)] a by blast
    then show ?thesis by (simp only: createOrderWithOneSafeRetry_def a Inr prod.case sum.case)
  next
    case (Inl err)
    have first: "placed s1 = placed s \<or> placed s1 = (placed s)(k := True)"
      using provider_answers(2) [OF assms(1)] a Inl by blast
    show ?thesis
    proof (cases "isAmbiguousNetworkError deps err")
      case False
      then have "placed s1 = placed s" using provider_answers(3) [OF assms(1)] assms(2) a Inl by blast
      with False show ?thesis by (simp add: createOrderWithOneSafeRetry_def a Inl)
    next
      case True
      obtain b s2 where b: "createOrder deps offerId k s1 = (b, s2)" by fastforce
      show ?thesis
      proof (cases b)
        case (Inl err2)
        then have "placed s2 = placed s1 \<or> placed s2 = (placed s1)(k := True)"
          using provider_answers(2) [OF assms(1)] b by blast
        then have "placed s2 = placed s \<or> placed s2 = (placed s)(k := True)" using first by auto
        with True show ?thesis by (simp add: createOrderWithOneSafeRetry_def a \<open>a = Inl err\<close> b Inl)
      next
        case (Inr r)
        then have "placed s2 = (placed s1)(k := True)" using provider_answers(1) [OF assms(1)] b by blast
        then have "placed s2 = (placed s)(k := True)" using first by auto
        with True show ?thesis by (simp add: createOrderWithOneSafeRetry_def a \<open>a = Inl err\<close> b Inr)
      qed
    qed
  qed
qed

text \<open>
  The orders placed between two states are those of the items \<open>i + 1\<close> to the last one reported, or one more when
  the failure says that its outcome is not known.
\<close>

definition accounted ::
  "('s \<Rightarrow> jsstr \<Rightarrow> bool) \<Rightarrow> jsstr \<Rightarrow> nat \<Rightarrow> 's \<Rightarrow> 'o HeroSmsBatchPurchaseResult \<Rightarrow> 's \<Rightarrow> bool" where
  "accounted placed key i s result s' \<longleftrightarrow>
     (\<forall>k. placed s' k \<longleftrightarrow> placed s k \<or> k \<in> item_key key ` {Suc i..length (orders result)}) \<or>
     (\<exists>f. failure result = Some f \<and> ambiguous f \<and>
        failure_idempotencyKey f = Some (item_key key (Suc (length (orders result)))) \<and>
        (\<forall>k. placed s' k \<longleftrightarrow> placed s k \<or> k \<in> item_key key ` {Suc i..Suc (length (orders result))}))"

lemma accounted_stop:
  assumes "placed s' = placed s" and "length (orders result) = i"
  shows "accounted placed key i s result s'"
  using assms by (auto simp: accounted_def)

lemma accounted_step:
  assumes "accounted placed key (Suc i) s1 result s'" and "placed s1 = (placed s)(item_key key (Suc i) := True)"
    and "Suc i \<le> length (orders result)"
  shows "accounted placed key i s result s'"
proof -
  have "{Suc i..m} = insert (Suc i) {Suc (Suc i)..m}" if "Suc i \<le> m" for m using that by auto
  then have ins: "k \<in> item_key key ` {Suc i..m} \<longleftrightarrow> k = item_key key (Suc i) \<or> k \<in> item_key key ` {Suc (Suc i)..m}"
    if "Suc i \<le> m" for m k using that by simp
  let ?n = "length (orders result)"
  have "placed s1 k \<longleftrightarrow> placed s k \<or> k = item_key key (Suc i)" for k using assms(2) by auto
  moreover have "Suc i \<le> Suc ?n" using assms(3) by simp
  ultimately show ?thesis
    using assms(1) unfolding accounted_def ins [OF assms(3)] ins [OF \<open>Suc i \<le> Suc ?n\<close>] by (simp add: disj_ac)
qed

text \<open>How one item of the batch ends: before any order is asked for, with a failed order, or with an order.\<close>

lemma purchase_items_step:
  assumes "purchase_items deps initialOffer key req (i # rest) os s = (result, s')"
  obtains (stopped) r s1 where "(if i = 0 then (Inr initialOffer, s) else getFreshOffer deps s) = (r, s1)"
      and "orders result = os" and "failure result \<noteq> None" and "s' = s1"
  | (failed) offer s1 perr s2 where "(if i = 0 then (Inr initialOffer, s) else getFreshOffer deps s) = (Inr offer, s1)"
      and "isSamePurchaseQuote initialOffer offer" and "\<not> num_lt (inventory offer) (Num 1)"
      and "createOrderWithOneSafeRetry deps (offer_id offer) (item_key key (Suc i)) s1 = (Inl perr, s2)"
      and "orders result = os" and "s' = s2"
      and "\<exists>f. failure result = Some f \<and> failure_idempotencyKey f = Some (item_key key (Suc i)) \<and>
        (case perr of Ambiguous_purchase _ \<Rightarrow> ambiguous f | Thrown err \<Rightarrow> True)"
  | (bought) offer s1 ord s2 where "(if i = 0 then (Inr initialOffer, s) else getFreshOffer deps s) = (Inr offer, s1)"
      and "isSamePurchaseQuote initialOffer offer" and "\<not> num_lt (inventory offer) (Num 1)"
      and "createOrderWithOneSafeRetry deps (offer_id offer) (item_key key (Suc i)) s1 = (Inr ord, s2)"
      and "purchase_items deps initialOffer key req rest (os @ [ord]) (onProgress deps (Suc (length os)) req s2) = (result, s')"
proof -
  obtain r s1 where fresh: "(if i = 0 then (Inr initialOffer, s) else getFreshOffer deps s) = (r, s1)" by (metis prod.exhaust)
  note run = assms [unfolded purchase_items.simps fresh]
  show thesis
  proof (cases "\<exists>offer. r = Inr offer \<and> isSamePurchaseQuote initialOffer offer \<and> \<not> num_lt (inventory offer) (Num 1)")
    case False
    then show thesis using run by (intro stopped [OF fresh]) (auto split: sum.splits if_splits)
  next
    case True
    then obtain offer where offer: "r = Inr offer" "isSamePurchaseQuote initialOffer offer" "\<not> num_lt (inventory offer) (Num 1)"
      by blast
    obtain a s2 where a: "createOrderWithOneSafeRetry deps (offer_id offer) (item_key key (Suc i)) s1 = (a, s2)"
      by (metis prod.exhaust)
    show thesis
    proof (cases a)
      case (Inl perr)
      then show thesis using run a offer fresh by (intro failed [of offer s1 perr s2]) (auto split: purchase_error.splits)
    next
      case (Inr ord)
      then show thesis using run a offer fresh by (intro bought [of offer s1 ord s2]) auto
    qed
  qed
qed

lemma purchase_items_accounted:
  assumes provider: "idempotent_provider deps placed"
    and "length os = i" and "\<forall>j > i. \<not> placed s (item_key key j)"
    and "purchase_items deps initialOffer key req [i..<n] os s = (result, s')"
  shows "accounted placed key i s result s' \<and> i \<le> length (orders result) \<and>
    (failure result = None \<longrightarrow> length (orders result) = max i n)"
  using assms(2-4)
proof (induction "n - i" arbitrary: i os s)
  case 0
  then have "result = \<lparr>requested = req, orders = os, failure = None\<rparr>" "s' = s" by simp_all
  with 0 show ?case using accounted_stop [of placed s' s result i key] by auto
next
  case (Suc d)
  then have list: "[i..<n] = i # [Suc i..<n]" by (simp add: upt_conv_Cons)
  have same: "placed s1 = placed s" if "(if i = 0 then (Inr initialOffer, s) else getFreshOffer deps s) = (r, s1)" for r s1
    using that provider_answers(4) [OF provider] by (cases "i = 0") auto
  have stop: ?case if "orders result = os" "placed s' = placed s" "failure result \<noteq> None"
    using that accounted_stop [of placed s' s result i key] Suc.prems(1) by auto
  let ?k = "item_key key (Suc i)"
  from Suc.prems(3) [unfolded list] show ?case
  proof (cases rule: purchase_items_step)
    case (stopped r s1)
    then show ?thesis using same stop by blast
  next
    case (failed offer s1 perr s2)
    have "\<not> placed s1 ?k" using Suc.prems(2) same [OF failed(1)] by simp
    note placed = retry_placed [OF provider this, of "offer_id offer", unfolded failed(4)]
    show ?thesis
    proof (cases "placed s2 = placed s")
      case True
      then show ?thesis using failed by (intro stop) auto
    next
      case False
      then obtain c where "perr = Ambiguous_purchase c" "placed s2 = (placed s)(?k := True)"
        using placed same [OF failed(1)] by (cases perr) auto
      then show ?thesis using failed(5-7) Suc.prems(1) by (auto simp: accounted_def)
    qed
  next
    case (bought offer s1 ord s2)
    have "\<not> placed s1 ?k" using Suc.prems(2) same [OF bought(1)] by simp
    note placed = retry_placed [OF provider this, of "offer_id offer", unfolded bought(4)]
    then have s3: "placed (onProgress deps (Suc (length os)) req s2) = (placed s)(?k := True)"
      using same [OF bought(1)] provider_answers(5) [OF provider] by simp
    from Suc.hyps(1) [OF _ _ _ bought(5)] show ?thesis
      using accounted_step [OF _ s3] s3 Suc.hyps(2) Suc.prems(1,2) by fastforce
  qed
qed


text \<open>A provider whose first answer is always lost: the order is placed, the retry learns of it.\<close>

definition forgetful_provider :: "(jsstr list, jsstr) purchase_deps" where
  "forgetful_provider =
     \<lparr>getFreshOffer = (\<lambda>s. (Inr \<lparr>offer_id = js ''o2'', offer_country = Num 6, offer_service = js ''wa'',
         offer_operator = js ''any'', inventory = Num 3, customer_price_usd = js ''0.5'', charge_quota = Num 250,
         bid = None, tiers = None\<rparr>, s)),
      createOrder = (\<lambda>offerId k s. if k \<in> set s then (Inr k, s) else (Inl (Axios_error None []), s @ [k])),
      isAmbiguousNetworkError = isAmbiguousRequestError, onProgress = (\<lambda>n m s. s)\<rparr>"


section \<open>What is requested\<close>

text \<open>The services with a record of the offers they gave and of the orders they were asked for.\<close>

datatype 'o purchase_event = Offered "request_error + HeroSmsSmsOffer" | Requested jsstr jsstr "request_error + 'o"

definition traced :: "('s, 'o) purchase_deps \<Rightarrow> ('s \<times> 'o purchase_event list, 'o) purchase_deps" where
  "traced deps =
     \<lparr>getFreshOffer = (\<lambda>(s, evs). case getFreshOffer deps s of (r, s') \<Rightarrow> (r, (s', evs @ [Offered r]))),
      createOrder = (\<lambda>offerId k (s, evs).
        case createOrder deps offerId k s of (r, s') \<Rightarrow> (r, (s', evs @ [Requested offerId k r]))),
      isAmbiguousNetworkError = isAmbiguousNetworkError deps,
      onProgress = (\<lambda>n m (s, evs). (onProgress deps n m s, evs))\<rparr>"

definition requested_keys :: "'o purchase_event list \<Rightarrow> jsstr set" where
  "requested_keys evs = {k. \<exists>offerId r. Requested offerId k r \<in> set evs}"

text \<open>
  A request after the events \<open>p\<close> is in order: it is for the first offer or one given since, with the quote of
  the first and in stock, and its key is new or was last used in the request just before, for the same offer, whose
  answer was lost.
\<close>

definition request_in_order ::
  "(request_error \<Rightarrow> bool) \<Rightarrow> HeroSmsSmsOffer \<Rightarrow> 'o purchase_event list \<Rightarrow> 'o purchase_event \<Rightarrow> bool" where
  "request_in_order lost initialOffer p x \<longleftrightarrow>
     (case x of Offered _ \<Rightarrow> True
      | Requested offerId k _ \<Rightarrow>
          (\<exists>offer. (offer = initialOffer \<or> Offered (Inr offer) \<in> set p) \<and> offer_id offer = offerId \<and>
             isSamePurchaseQuote initialOffer offer \<and> \<not> num_lt (inventory offer) (Num 1)) \<and>
          (k \<notin> requested_keys p \<or>
           (\<exists>p' err. p = p' @ [Requested offerId k (Inl err)] \<and> lost err \<and> k \<notin> requested_keys p')))"

fun in_order :: "(request_error \<Rightarrow> bool) \<Rightarrow> HeroSmsSmsOffer \<Rightarrow> 'o purchase_event list \<Rightarrow> 'o purchase_event list \<Rightarrow> bool" where
  "in_order lost initialOffer p [] \<longleftrightarrow> True"
| "in_order lost initialOffer p (x # xs) \<longleftrightarrow>
     request_in_order lost initialOffer p x \<and> in_order lost initialOffer (p @ [x]) xs"

lemma in_order_append:
  "in_order lost initialOffer p (xs @ ys) \<longleftrightarrow> in_order lost initialOffer p xs \<and> in_order lost initialOffer (p @ xs) ys"
  by (induction xs arbitrary: p) auto

lemma requested_keys_simps [simp]:
  "requested_keys [] = {}"
  "requested_keys (xs @ ys) = requested_keys xs \<union> requested_keys ys"
  "requested_keys [Offered r] = {}" "requested_keys (Requested offerId k r' # xs) = insert k (requested_keys xs)"
  by (auto simp: requested_keys_def)

lemma traced_retry:
  assumes "createOrderWithOneSafeRetry (traced deps) offerId k (s, evs) = (a, (s', evs'))"
  shows "\<exists>r. evs' = evs @ [Requested offerId k r] \<or>
    (\<exists>err. isAmbiguousNetworkError deps err \<and> evs' = evs @ [Requested offerId k (Inl err), Requested offerId k r])"
  using assms
  by (auto simp: createOrderWithOneSafeRetry_def traced_def split: prod.splits sum.splits if_splits)

lemma retry_in_order:
  assumes "createOrderWithOneSafeRetry (traced deps) offerId k (s, evs) = (a, (s', evs'))"
    and "in_order (isAmbiguousNetworkError deps) initialOffer [] evs" and "k \<notin> requested_keys evs"
    and "offer = initialOffer \<or> Offered (Inr offer) \<in> set evs" and "offer_id offer = offerId"
    and "isSamePurchaseQuote initialOffer offer" and "\<not> num_lt (inventory offer) (Num 1)"
  shows "in_order (isAmbiguousNetworkError deps) initialOffer [] evs' \<and> requested_keys evs' = insert k (requested_keys evs)"
proof -
  have offered: "\<exists>off. (off = initialOffer \<or> Offered (Inr off) \<in> set (evs @ xs)) \<and> offer_id off = offerId \<and>
      isSamePurchaseQuote initialOffer off \<and> \<not> num_lt (inventory off) (Num 1)" for xs
    using assms(4-7) by auto
  from traced_retry [OF assms(1)] show ?thesis
    using assms(2,3) offered [of "[]"] offered by (elim exE disjE conjE) (auto simp: in_order_append request_in_order_def)
qed

lemma traced_fresh:
  assumes "getFreshOffer (traced deps) (s, evs) = (r, (s', evs'))"
  shows "evs' = evs @ [Offered r]"
  using assms by (auto simp: traced_def split: prod.splits)

lemma purchase_items_in_order:
  assumes "in_order (isAmbiguousNetworkError deps) initialOffer [] evs"
    and "requested_keys evs \<subseteq> item_key key ` {1..i}"
    and "purchase_items (traced deps) initialOffer key req [i..<n] os (s, evs) = (result, (s', evs'))"
  shows "in_order (isAmbiguousNetworkError deps) initialOffer [] evs' \<and> requested_keys evs' \<subseteq> item_key key ` {1..max i n}"
  using assms
proof (induction "n - i" arbitrary: i os s evs)
  case 0
  then show ?case by auto
next
  case (Suc d)
  let ?ok = "\<lambda>evs. in_order (isAmbiguousNetworkError deps) initialOffer [] evs"
  let ?k = "item_key key (Suc i)"
  have list: "[i..<n] = i # [Suc i..<n]" and i: "i < n" using Suc.hyps(2) by (simp_all add: upt_conv_Cons)
  have more: "item_key key ` {1..i} \<subseteq> item_key key ` {1..max i n}" "item_key key ` {1..Suc i} \<subseteq> item_key key ` {1..max i n}"
    using i by auto
  have fresh: "?ok (snd s1)" "requested_keys (snd s1) = requested_keys evs"
      "\<And>offer. r = Inr offer \<Longrightarrow> offer = initialOffer \<or> Offered (Inr offer) \<in> set (snd s1)"
    if "(if i = 0 then (Inr initialOffer, s, evs) else getFreshOffer (traced deps) (s, evs)) = (r, s1)" for r s1
    using that Suc.prems(1) traced_fresh [of deps s evs r "fst s1" "snd s1"]
    by (auto simp: in_order_append request_in_order_def split: if_splits)
  have asked: "?ok (snd s2) \<and> requested_keys (snd s2) \<subseteq> item_key key ` {1..Suc i}"
    if f: "(if i = 0 then (Inr initialOffer, s, evs) else getFreshOffer (traced deps) (s, evs)) = (Inr offer, s1)"
      and "isSamePurchaseQuote initialOffer offer" "\<not> num_lt (inventory offer) (Num 1)"
      and a: "createOrderWithOneSafeRetry (traced deps) (offer_id offer) ?k s1 = (a, s2)" for offer s1 a s2
  proof -
    have "?k \<notin> requested_keys (snd s1)" using Suc.prems(2) fresh(2) [OF f] by auto
    then have "?ok (snd s2) \<and> requested_keys (snd s2) = insert ?k (requested_keys evs)"
      using retry_in_order [of deps "offer_id offer" ?k "fst s1" "snd s1" a "fst s2" "snd s2" initialOffer offer] that
        fresh [OF f] by simp
    then show ?thesis using Suc.prems(2) by (auto simp: atLeastAtMostSuc_conv)
  qed
  from Suc.prems(3) [unfolded list] show ?case
  proof (cases rule: purchase_items_step)
    case (stopped r s1)
    then have "evs' = snd s1" by auto
    then show ?thesis using fresh(1,2) [OF stopped(1)] Suc.prems(2) more(1) by blast
  next
    case (failed offer s1 perr s2)
    then have "evs' = snd s2" by auto
    then show ?thesis using asked [OF failed(1-4)] more(2) by blast
  next
    case (bought offer s1 ord s2)
    have rest: "purchase_items (traced deps) initialOffer key req [Suc i..<n] (os @ [ord])
        (onProgress deps (Suc (length os)) req (fst s2), snd s2) = (result, (s', evs'))"
      using bought(5) by (simp add: traced_def split: prod.splits)
    have "max (Suc i) n = max i n" using i by simp
    then show ?thesis using Suc.hyps(1) [OF _ _ _ rest] asked [OF bought(1-4)] Suc.hyps(2) by simp
  qed
qed

text \<open>C23: Whatever the services answer, a batch only asks for orders of offers that have the quote it was started
  with (country, service, operator and charge) and are in stock. Every item has its own key; a key is used again only
  in the very next request, for the same offer, and only after an answer was lost, so never more than twice. No more
  than ten items are asked for.\<close>

theorem batch_requests_in_order:
  assumes "purchaseHeroSmsBatch (traced deps) initialOffer quantity key (s, []) = (result, (s', evs))"
  shows "in_order (isAmbiguousNetworkError deps) initialOffer [] evs \<and> requested_keys evs \<subseteq> item_key key ` {1..10}"
proof -
  let ?q = "clampHeroSmsQuantity quantity (inventory initialOffer)"
  have run: "purchase_items (traced deps) initialOffer key ?q [0..<nat \<lceil>val ?q\<rceil>] [] (s, []) = (result, (s', evs))"
    using assms by (simp add: purchaseHeroSmsBatch_def loop_indices_def Let_def)
  have "\<lceil>val ?q\<rceil> \<le> 10"
    using clampHeroSmsQuantity_bounds(3) [of quantity "inventory initialOffer"] by linarith
  then have "nat \<lceil>val ?q\<rceil> \<le> 10" by linarith
  then have "{1..max 0 (nat \<lceil>val ?q\<rceil>)} \<subseteq> {1..10}" by auto
  then have "item_key key ` {1..max 0 (nat \<lceil>val ?q\<rceil>)} \<subseteq> item_key key ` {1..10}" by (rule image_mono)
  then show ?thesis using purchase_items_in_order [OF _ _ run] by auto
qed

theorem batch_requests_in_order_witness:
  "\<exists>result s' evs. purchaseHeroSmsBatch (traced forgetful_provider)
       \<lparr>offer_id = js ''o1'', offer_country = Num 6, offer_service = js ''wa'', offer_operator = js ''any'',
        inventory = Num 4, customer_price_usd = js ''0.5'', charge_quota = Num 250, bid = None, tiers = None\<rparr>
       (Num 2) (js ''key'') ([], []) = (result, (s', evs)) \<and>
     in_order isAmbiguousRequestError
       \<lparr>offer_id = js ''o1'', offer_country = Num 6, offer_service = js ''wa'', offer_operator = js ''any'',
        inventory = Num 4, customer_price_usd = js ''0.5'', charge_quota = Num 250, bid = None, tiers = None\<rparr> [] evs \<and>
     length evs = 5"
proof -
  let ?offer = "\<lparr>offer_id = js ''o1'', offer_country = Num 6, offer_service = js ''wa'', offer_operator = js ''any'',
    inventory = Num 4, customer_price_usd = js ''0.5'', charge_quota = Num 250, bid = None, tiers = None\<rparr>"
  obtain result s' evs where run:
    "purchaseHeroSmsBatch (traced forgetful_provider) ?offer (Num 2) (js ''key'') ([], []) = (result, (s', evs))"
    by (metis prod.exhaust)
  have "length (snd (snd (purchaseHeroSmsBatch (traced forgetful_provider) ?offer (Num 2) (js ''key'') ([], [])))) = 5"
    by code_simp
  then have "length evs = 5" using run by simp
  moreover have "isAmbiguousNetworkError forgetful_provider = isAmbiguousRequestError"
    by (simp add: forgetful_provider_def)
  ultimately show ?thesis using batch_requests_in_order [OF run] run by auto
qed

section \<open>Resolving an uncertain purchase\<close>

text \<open>
  Resolving repeats the one request whose outcome is unknown, so against an honest provider it places at most the
  order under that key.
\<close>

lemma reconcile_places_one_key:
  assumes "\<And>offerId k s a s'. createHeroSmsSmsOrder env offerId k s = (a, s') \<Longrightarrow>
      placed s' = placed s \<or> placed s' = (placed s)(k := True)"
    and "reconcile_run env (Some result) s = (result', s')"
  shows "placed s' = placed s \<or>
    (\<exists>f k. failure result = Some f \<and> ambiguous f \<and> failure_idempotencyKey f = Some k \<and> placed s' = (placed s)(k := True))"
  using assms(2) assms(1)
  by (auto simp: reconcile_run_def split: option.splits prod.splits sum.splits if_splits)

text \<open>
  An answer of the gateway with a status of 500 and above counts as definite while a batch runs, and as still
  uncertain while the same request is repeated to resolve it.
\<close>

lemma server_error_definite_in_batch:
  assumes "num_ge st (Num 500)"
  shows "\<not> isAmbiguousRequestError (Axios_error (Some \<lparr>response_status = st, response_data = data\<rparr>) message)"
    and "stillAmbiguous (Axios_error (Some \<lparr>response_status = st, response_data = data\<rparr>) message)"
  using assms by (simp_all add: isAmbiguousRequestError_def stillAmbiguous_def parseHeroSmsError_def Let_def)

end
