(* ===== verification/DrawingStore.thy ===== *)
theory DrawingStore
  imports JsValue "HOL-Library.Product_Lexorder" "HOL-Library.List_Lexorder" "HOL-Library.Multiset"
begin

text \<open>
  The browser cache of generated drawings, \<open>features/drawing/history-storage.ts\<close>: which drawings an account retains
  and the IndexedDB store that keeps them.

  The database is a record of its two object stores, each in key order. A transaction commits as a whole or leaves the
  database as it was; why it fails is an argument, since opening may throw, fail or be blocked and a transaction may
  abort. \<open>collation\<close> is the sort key behind \<open>localeCompare\<close>. Timestamps are the whole milliseconds of
  \<open>Date.now\<close>, whose differences are exact. The lemmas show what is retained, that saving and loading implement
  an account as a list of drawings with an epoch, and that a clear rejects every save that was begun before it, in
  whichever tab.
\<close>

section \<open>Drawings\<close>

definition DRAWING_HISTORY_LIMIT :: nat where
  "DRAWING_HISTORY_LIMIT = 50"

definition DRAWING_HISTORY_BYTES :: nat where
  "DRAWING_HISTORY_BYTES = 100 * 1024 * 1024"

definition DRAWING_IMAGE_BYTES :: nat where
  "DRAWING_IMAGE_BYTES = 32 * 1024 * 1024"

record Blob =
  blob_type :: jsstr
  blob_bytes :: "int list"

definition blob_size :: "Blob \<Rightarrow> nat" where
  "blob_size b = length (blob_bytes b)"

record DrawingMetadata =
  meta_prompt :: jsstr
  meta_model :: jsstr
  meta_group :: jsstr
  meta_createdAt :: int

record StoredDrawing =
  stored_meta :: DrawingMetadata
  stored_userId :: int
  stored_id :: jsstr
  stored_revisedPrompt :: "jsstr option"
  stored_blob :: Blob

record DrawingHistoryData =
  data_epoch :: int
  data_images :: "StoredDrawing list"

section \<open>What is retained\<close>

text \<open>
  \<open>retainDrawings\<close> is used for stored drawings and for previews: \<open>key\<close>, \<open>time\<close> and \<open>weight\<close> read the
  three properties it needs.
\<close>

definition last_by :: "('a \<Rightarrow> 'k) \<Rightarrow> 'a list \<Rightarrow> 'a list" where
  "last_by key xs = map snd (foldl (\<lambda>m x. map_put (key x) x m) [] xs)"

definition newest_first :: "(jsstr \<Rightarrow> int list) \<Rightarrow> ('a \<Rightarrow> jsstr) \<Rightarrow> ('a \<Rightarrow> int) \<Rightarrow> 'a list \<Rightarrow> 'a list" where
  "newest_first collation key time xs = rev (sort_key (\<lambda>x. (time x, collation (key x))) (rev xs))"

fun within_limits :: "('a \<Rightarrow> nat) \<Rightarrow> nat \<Rightarrow> nat \<Rightarrow> 'a list \<Rightarrow> 'a list" where
  "within_limits weight index bytes [] = []"
| "within_limits weight index bytes (x # xs) =
     (let bytes' = bytes + weight x; rest = within_limits weight (index + 1) bytes' xs
      in if index < DRAWING_HISTORY_LIMIT \<and> bytes' \<le> DRAWING_HISTORY_BYTES then x # rest else rest)"

definition retainDrawings ::
  "(jsstr \<Rightarrow> int list) \<Rightarrow> ('a \<Rightarrow> jsstr) \<Rightarrow> ('a \<Rightarrow> int) \<Rightarrow> ('a \<Rightarrow> nat) \<Rightarrow> 'a list \<Rightarrow> 'a list" where
  "retainDrawings collation key time weight images =
     within_limits weight 0 0 (newest_first collation key time (last_by key images))"

definition drawing_time :: "StoredDrawing \<Rightarrow> int" where
  "drawing_time drawing = meta_createdAt (stored_meta drawing)"

definition drawing_size :: "StoredDrawing \<Rightarrow> nat" where
  "drawing_size drawing = blob_size (stored_blob drawing)"

abbreviation retainStored :: "(jsstr \<Rightarrow> int list) \<Rightarrow> StoredDrawing list \<Rightarrow> StoredDrawing list" where
  "retainStored collation \<equiv> retainDrawings collation stored_id drawing_time drawing_size"

section \<open>The database\<close>

type_synonym image_key = "int \<times> jsstr"

record drawing_db =
  db_images :: "(image_key \<times> StoredDrawing) list"
  db_accounts :: "(int \<times> int) list"

definition image_key :: "StoredDrawing \<Rightarrow> image_key" where
  "image_key drawing = (stored_userId drawing, stored_id drawing)"

definition put_image :: "(image_key \<times> StoredDrawing) list \<Rightarrow> StoredDrawing \<Rightarrow> (image_key \<times> StoredDrawing) list" where
  "put_image m drawing = insort_key fst (image_key drawing, drawing) (map_del (image_key drawing) m)"

definition user_images :: "drawing_db \<Rightarrow> int \<Rightarrow> StoredDrawing list" where
  "user_images db userId = map snd (filter (\<lambda>((u, _), _). u = userId) (db_images db))"

definition account_epoch :: "drawing_db \<Rightarrow> int \<Rightarrow> int" where
  "account_epoch db userId = (case map_of (db_accounts db) userId of Some e \<Rightarrow> e | None \<Rightarrow> 0)"

datatype idb_error = Open_threw | Open_failed | Open_blocked | Transaction_threw | Transaction_aborted

definition db_transaction :: "idb_error option \<Rightarrow> (drawing_db \<Rightarrow> 'a \<times> drawing_db) \<Rightarrow> drawing_db \<Rightarrow> (idb_error + 'a) \<times> drawing_db" where
  "db_transaction fault run db =
     (case fault of Some e \<Rightarrow> (Inl e, db) | None \<Rightarrow> (case run db of (value, db') \<Rightarrow> (Inr value, db')))"

definition store_load ::
  "(jsstr \<Rightarrow> int list) \<Rightarrow> idb_error option \<Rightarrow> int \<Rightarrow> drawing_db \<Rightarrow> (idb_error + DrawingHistoryData) \<times> drawing_db" where
  "store_load collation fault userId =
     db_transaction fault (\<lambda>db.
       (\<lparr>data_epoch = account_epoch db userId, data_images = retainStored collation (user_images db userId)\<rparr>, db))"

definition valid_addition :: "int \<Rightarrow> StoredDrawing \<Rightarrow> bool" where
  "valid_addition userId drawing \<longleftrightarrow>
     stored_userId drawing = userId \<and> 0 < drawing_size drawing \<and> drawing_size drawing \<le> DRAWING_IMAGE_BYTES"

definition store_save ::
  "(jsstr \<Rightarrow> int list) \<Rightarrow> idb_error option \<Rightarrow> int \<Rightarrow> int \<Rightarrow> StoredDrawing list \<Rightarrow> drawing_db \<Rightarrow> (idb_error + bool) \<times> drawing_db" where
  "store_save collation fault userId epoch additions =
     db_transaction fault (\<lambda>db.
       if account_epoch db userId \<noteq> epoch then (False, db)
       else
         let valid = filter (valid_addition userId) additions;
             present = user_images db userId;
             ids = set (map stored_id (retainStored collation (present @ valid)));
             deleted = foldl (\<lambda>m drawing. if stored_id drawing \<in> ids then m else map_del (userId, stored_id drawing) m)
               (db_images db) present
         in (True, db\<lparr>db_images := foldl (\<lambda>m drawing. if stored_id drawing \<in> ids then put_image m drawing else m) deleted valid\<rparr>))"

definition store_clear :: "idb_error option \<Rightarrow> int \<Rightarrow> drawing_db \<Rightarrow> (idb_error + int) \<times> drawing_db" where
  "store_clear fault userId =
     db_transaction fault (\<lambda>db.
       let keys = map fst (filter (\<lambda>((u, _), _). u = userId) (db_images db));
           epoch = account_epoch db userId + 1
       in (epoch, \<lparr>db_images = foldl (\<lambda>m k. map_del k m) (db_images db) keys,
                   db_accounts = map_put userId epoch (db_accounts db)\<rparr>))"

section \<open>What is retained: limits and order\<close>

text \<open>\<open>latest key xs k\<close> is the last element of \<open>xs\<close> whose key is \<open>k\<close>.\<close>

definition latest :: "('a \<Rightarrow> 'k) \<Rightarrow> 'a list \<Rightarrow> 'k \<Rightarrow> 'a option" where
  "latest key xs = foldl (\<lambda>m x. m(key x \<mapsto> x)) Map.empty xs"

lemma latest_key: "latest key xs k = Some x \<Longrightarrow> key x = k \<and> x \<in> set xs"
  by (induction xs rule: rev_induct) (auto simp: latest_def split: if_splits)

lemma latest_none: "latest key xs k = None \<longleftrightarrow> k \<notin> key ` set xs"
  by (induction xs rule: rev_induct) (auto simp: latest_def)

lemma last_by_entries:
  fixes key :: "'a \<Rightarrow> 'k" and xs :: "'a list"
  defines "m \<equiv> foldl (\<lambda>m x. map_put (key x) x m) [] xs"
  shows "map_of m = latest key xs" and "distinct (map fst m)" and "map key (last_by key xs) = map fst m"
proof -
  show lookup: "map_of m = latest key xs"
    unfolding m_def latest_def by (induction xs rule: rev_induct) simp_all
  show dist: "distinct (map fst m)"
    unfolding m_def by (induction xs rule: rev_induct) simp_all
  have "key x = k" if "(k, x) \<in> set m" for k x
    using that lookup dist latest_key by (metis map_of_is_SomeI)
  then show "map key (last_by key xs) = map fst m"
    unfolding last_by_def m_def [symmetric] by force
qed

lemma distinct_last_by: "distinct (map key (last_by key xs))"
  using last_by_entries [of key xs] by simp

lemma in_last_by: "x \<in> set (last_by key xs) \<longleftrightarrow> latest key xs (key x) = Some x"
proof -
  let ?m = "foldl (\<lambda>m x. map_put (key x) x m) [] xs"
  have "x \<in> set (last_by key xs) \<longleftrightarrow> (\<exists>k. map_of ?m k = Some x)"
    using last_by_entries(2) [of key xs] by (force simp: last_by_def)
  then show ?thesis unfolding last_by_entries(1) using latest_key by metis
qed

lemma last_by_distinct:
  assumes "distinct (map key xs)"
  shows "set (last_by key xs) = set xs"
proof -
  have "latest key xs (key x) = Some x" if "x \<in> set xs" for x
    using assms that
  proof (induction xs rule: rev_induct)
    case (snoc y ys)
    have step: "latest key (ys @ [y]) = (latest key ys)(key y \<mapsto> y)" by (simp add: latest_def)
    show ?case
    proof (cases "x = y")
      case False
      then have "x \<in> set ys" using snoc.prems by simp
      moreover from this have "key x \<in> key ` set ys" by simp
      then have "key x \<noteq> key y" using snoc.prems by auto
      ultimately show ?thesis using snoc by (simp add: step)
    qed (simp add: step)
  qed simp
  then show ?thesis using latest_key by (fastforce simp: in_last_by)
qed

lemma newest_first_facts:
  "mset (newest_first collation key time xs) = mset xs"
  "sorted_wrt (\<lambda>x y. (time y, collation (key y)) \<le> (time x, collation (key x))) (newest_first collation key time xs)"
  using sorted_sort_key [of "\<lambda>x. (time x, collation (key x))" "rev xs"]
  by (simp_all add: newest_first_def sorted_wrt_rev sorted_wrt_map)

lemma set_newest_first [simp]: "set (newest_first collation key time xs) = set xs"
  by (simp add: newest_first_def)

lemma within_limits_none:
  "\<not> (i < DRAWING_HISTORY_LIMIT \<and> b \<le> DRAWING_HISTORY_BYTES) \<Longrightarrow> within_limits weight i b xs = []"
  by (induction xs arbitrary: i b) auto

lemma within_limits_Cons:
  "within_limits weight i b (x # xs) =
     (if i < DRAWING_HISTORY_LIMIT \<and> b + weight x \<le> DRAWING_HISTORY_BYTES
      then x # within_limits weight (i + 1) (b + weight x) xs else [])"
  by (auto simp: Let_def within_limits_none)

text \<open>
  The running total counts the drawings that are skipped as well, so what is kept is a prefix: as many drawings as fit
  both limits.
\<close>

lemma within_limits_prefix:
  "\<exists>n. within_limits weight i b xs = take n xs \<and>
     (n < length xs \<longrightarrow> DRAWING_HISTORY_LIMIT \<le> i + n \<or> DRAWING_HISTORY_BYTES < b + sum_list (map weight (take (Suc n) xs)))"
proof (induction xs arbitrary: i b)
  case (Cons x xs)
  obtain n where n: "within_limits weight (i + 1) (b + weight x) xs = take n xs"
      "n < length xs \<longrightarrow> DRAWING_HISTORY_LIMIT \<le> i + 1 + n \<or>
         DRAWING_HISTORY_BYTES < b + weight x + sum_list (map weight (take (Suc n) xs))"
    using Cons.IH by blast
  show ?case
  proof (cases "i < DRAWING_HISTORY_LIMIT \<and> b + weight x \<le> DRAWING_HISTORY_BYTES")
    case True
    then show ?thesis using n by (intro exI [of _ "Suc n"]) (simp only: within_limits_Cons, simp add: add.assoc)
  next
    case False
    then show ?thesis by (intro exI [of _ 0]) (simp only: within_limits_Cons, auto)
  qed
qed simp

lemma within_limits_bounds:
  assumes "i \<le> DRAWING_HISTORY_LIMIT" and "b \<le> DRAWING_HISTORY_BYTES"
  shows "i + length (within_limits weight i b xs) \<le> DRAWING_HISTORY_LIMIT \<and>
    b + sum_list (map weight (within_limits weight i b xs)) \<le> DRAWING_HISTORY_BYTES"
  using assms
proof (induction xs arbitrary: i b)
  case (Cons x xs)
  then show ?case
    using Cons.IH [of "i + 1" "b + weight x"] unfolding within_limits_Cons by (auto simp: ac_simps)
qed simp

lemma within_limits_all:
  assumes "i + length xs \<le> DRAWING_HISTORY_LIMIT" and "b + sum_list (map weight xs) \<le> DRAWING_HISTORY_BYTES"
  shows "within_limits weight i b xs = xs"
  using assms
proof (induction xs arbitrary: i b)
  case (Cons x xs)
  then show ?case using Cons.IH [of "i + 1" "b + weight x"] unfolding within_limits_Cons by simp
qed simp

text \<open>What an account may hold: distinct drawings, newest first, within both limits.\<close>

definition retained_ok ::
  "(jsstr \<Rightarrow> int list) \<Rightarrow> ('a \<Rightarrow> jsstr) \<Rightarrow> ('a \<Rightarrow> int) \<Rightarrow> ('a \<Rightarrow> nat) \<Rightarrow> 'a list \<Rightarrow> bool" where
  "retained_ok collation key time weight xs \<longleftrightarrow>
     distinct (map key xs) \<and> length xs \<le> DRAWING_HISTORY_LIMIT \<and> sum_list (map weight xs) \<le> DRAWING_HISTORY_BYTES \<and>
     sorted_wrt (\<lambda>x y. (time y, collation (key y)) \<le> (time x, collation (key x))) xs"

lemma retain_prefix:
  "\<exists>n. retainDrawings collation key time weight xs = take n (newest_first collation key time (last_by key xs)) \<and>
     (n < length (last_by key xs) \<longrightarrow> DRAWING_HISTORY_LIMIT \<le> n \<or>
        DRAWING_HISTORY_BYTES < sum_list (map weight (take (Suc n) (newest_first collation key time (last_by key xs)))))"
  using within_limits_prefix [of weight 0 0 "newest_first collation key time (last_by key xs)"]
  by (simp add: retainDrawings_def newest_first_def)

lemma retained: "retained_ok collation key time weight (retainDrawings collation key time weight xs)"
proof -
  let ?o = "newest_first collation key time (last_by key xs)"
  obtain n where n: "retainDrawings collation key time weight xs = take n ?o" using retain_prefix by blast
  have "mset (map key ?o) = mset (map key (last_by key xs))" by (simp add: newest_first_facts(1))
  then have "distinct (map key ?o)" using distinct_last_by [of key xs] mset_eq_imp_distinct_iff by blast
  then have "distinct (map key (take n ?o))" by (simp add: take_map [symmetric] distinct_take)
  moreover have "sorted_wrt (\<lambda>x y. (time y, collation (key y)) \<le> (time x, collation (key x))) (take n ?o)"
    using newest_first_facts(2) by (rule sorted_wrt_take)
  ultimately show ?thesis
    using within_limits_bounds [of 0 0 weight ?o] n by (simp add: retained_ok_def retainDrawings_def)
qed

lemma set_retain_last: "set (retainDrawings collation key time weight xs) \<subseteq> set (last_by key xs)"
proof -
  obtain n where "retainDrawings collation key time weight xs = take n (newest_first collation key time (last_by key xs))"
    using retain_prefix by blast
  then show ?thesis using set_take_subset set_newest_first by metis
qed

lemma set_retain: "set (retainDrawings collation key time weight xs) \<subseteq> set xs"
  using set_retain_last [of collation key time weight xs] latest_key by (fastforce simp: in_last_by)

lemma newest_first_unique:
  assumes "set xs = set ys" and "distinct (map key xs)" and "distinct (map key ys)" and "inj_on collation (key ` set ys)"
    and "sorted_wrt (\<lambda>x y. (time y, collation (key y)) \<le> (time x, collation (key x))) ys"
  shows "newest_first collation key time xs = ys"
proof -
  let ?f = "\<lambda>x. (time x, collation (key x))"
  have d: "distinct ys" "distinct xs" "inj_on key (set ys)"
    using assms(2,3) by (auto simp: distinct_map)
  have "inj_on (\<lambda>x. collation (key x)) (set ys)"
    using comp_inj_on [OF d(3) assms(4)] by (simp add: o_def)
  then have inj: "inj_on ?f (set ys)" by (auto simp: inj_on_def)
  have "mset (rev xs) = mset (rev ys)"
    using d assms(1) by (simp add: set_eq_iff_mset_eq_distinct)
  moreover have "sorted (map ?f (rev ys))"
    using assms(5) by (simp add: sorted_wrt_map sorted_wrt_rev rev_map [symmetric])
  ultimately have "sort_key ?f (rev xs) = rev ys"
    using inj assms(1) by (intro sort_key_inj_key_eq) simp_all
  then show ?thesis by (simp add: newest_first_def)
qed

lemma retain_unique:
  assumes "set (last_by key xs) = set ys" and "retained_ok collation key time weight ys"
    and "inj_on collation (key ` set ys)"
  shows "retainDrawings collation key time weight xs = ys"
  using newest_first_unique [OF assms(1) distinct_last_by _ assms(3)] assms(2)
  by (simp add: retainDrawings_def retained_ok_def within_limits_all)

lemma retain_cong:
  assumes "set (last_by key xs) = set (last_by key ys)" and "inj_on collation (key ` set (last_by key ys))"
  shows "retainDrawings collation key time weight xs = retainDrawings collation key time weight ys"
proof -
  have d: "distinct (map key (newest_first collation key time (last_by key ys)))"
    using distinct_last_by [of key ys] by (simp add: newest_first_def distinct_map)
  show ?thesis
    using newest_first_unique [OF _ distinct_last_by d _ newest_first_facts(2), of xs] assms
    by (simp add: retainDrawings_def)
qed

text \<open>An account retains distinct drawings, newest first, at most 50 and at most 100 MB of them: of the given
  drawings, the last one of each id, and of these the longest run of newest ones that fits both limits, so whatever is
  dropped is no newer than what is kept.\<close>

lemma retained_are_newest:
  "retained_ok collation stored_id drawing_time drawing_size (retainStored collation images) \<and>
   (\<forall>x. x \<in> set (retainStored collation images) \<longrightarrow> latest stored_id images (stored_id x) = Some x) \<and>
   (\<forall>x y. latest stored_id images (stored_id x) = Some x \<and> x \<notin> set (retainStored collation images) \<longrightarrow>
      (y \<in> set (retainStored collation images) \<longrightarrow> drawing_time x \<le> drawing_time y) \<and>
      (length (retainStored collation images) = DRAWING_HISTORY_LIMIT \<or>
       (\<exists>z. latest stored_id images (stored_id z) = Some z \<and> z \<notin> set (retainStored collation images) \<and>
          DRAWING_HISTORY_BYTES < sum_list (map drawing_size (retainStored collation images)) + drawing_size z)))"
proof -
  define ord where "ord = newest_first collation stored_id drawing_time (last_by stored_id images)"
  define r where "r = retainStored collation images"
  have members: "latest stored_id images (stored_id x) = Some x \<longleftrightarrow> x \<in> set ord" for x
    by (simp add: ord_def in_last_by)
  obtain n where n: "r = take n ord" "n < length ord \<longrightarrow> DRAWING_HISTORY_LIMIT \<le> n \<or>
      DRAWING_HISTORY_BYTES < sum_list (map drawing_size (take (Suc n) ord))"
    using retain_prefix [of collation stored_id drawing_time drawing_size images]
    by (auto simp: r_def ord_def newest_first_def)
  have ok: "retained_ok collation stored_id drawing_time drawing_size r" unfolding r_def by (rule retained)
  have split: "set ord = set (take n ord) \<union> set (drop n ord)" by (metis append_take_drop_id set_append)
  have "sorted_wrt (\<lambda>x y. (drawing_time y, collation (stored_id y)) \<le> (drawing_time x, collation (stored_id x)))
      (take n ord @ drop n ord)"
    unfolding append_take_drop_id ord_def by (rule newest_first_facts(2))
  then have "drawing_time x \<le> drawing_time y" if "x \<in> set (drop n ord)" "y \<in> set (take n ord)" for x y
    using that unfolding sorted_wrt_append less_eq_prod_def by fastforce
  then have older: "drawing_time x \<le> drawing_time y" if "x \<in> set ord" "x \<notin> set r" "y \<in> set r" for x y
    using that split n(1) by blast
  have full: "length r = DRAWING_HISTORY_LIMIT \<or> (\<exists>z. z \<in> set ord \<and> z \<notin> set r \<and>
      DRAWING_HISTORY_BYTES < sum_list (map drawing_size r) + drawing_size z)" if "x \<in> set ord" "x \<notin> set r" for x
  proof -
    have lt: "n < length ord" using that n(1) by (cases "n < length ord") simp_all
    have "distinct ord"
      using distinct_last_by [of stored_id images] by (simp add: ord_def newest_first_def distinct_map)
    then have "ord ! n \<notin> set r" using lt n(1) by (auto simp: in_set_conv_nth nth_eq_iff_index_eq)
    moreover have "length r = DRAWING_HISTORY_LIMIT" if "DRAWING_HISTORY_LIMIT \<le> n"
      using that ok lt n(1) by (simp add: retained_ok_def)
    moreover have "sum_list (map drawing_size (take (Suc n) ord)) = sum_list (map drawing_size r) + drawing_size (ord ! n)"
      using lt n(1) by (simp add: take_Suc_conv_app_nth)
    ultimately show ?thesis using n(2) lt nth_mem [OF lt] by metis
  qed
  have "x \<in> set ord" if "x \<in> set r" for x using that split n(1) by blast
  then show ?thesis using ok older full unfolding members r_def [symmetric] by blast
qed

text \<open>Drawings to apply the theorems to.\<close>

definition sample_drawing :: "string \<Rightarrow> int \<Rightarrow> StoredDrawing" where
  "sample_drawing name time =
     \<lparr>stored_meta = \<lparr>meta_prompt = js ''cat'', meta_model = js ''m'', meta_group = js ''g'', meta_createdAt = time\<rparr>,
      stored_userId = 7, stored_id = js name, stored_revisedPrompt = None,
      stored_blob = \<lparr>blob_type = js ''image/png'', blob_bytes = [1, 2]\<rparr>\<rparr>"

lemmas retain_eval = retainDrawings_def newest_first_def last_by_def drawing_time_def drawing_size_def blob_size_def
  DRAWING_HISTORY_LIMIT_def DRAWING_HISTORY_BYTES_def DRAWING_IMAGE_BYTES_def sample_drawing_def js_def

section \<open>The store as a list of drawings per account\<close>

definition db_ok :: "drawing_db \<Rightarrow> bool" where
  "db_ok db \<longleftrightarrow> distinct (map fst (db_images db)) \<and> sorted (map fst (db_images db)) \<and>
     (\<forall>(k, drawing) \<in> set (db_images db). k = image_key drawing)"

lemma put_image_facts:
  assumes "distinct (map fst m)" and "sorted (map fst m)"
  shows "map_of (put_image m drawing) = (map_of m)(image_key drawing \<mapsto> drawing)"
    and "distinct (map fst (put_image m drawing))" and "sorted (map fst (put_image m drawing))"
proof -
  let ?k = "image_key drawing" and ?d = "map_del (image_key drawing) m"
  have fresh: "?k \<notin> fst ` set ?d" by (auto simp: map_del_def)
  have d: "distinct (map fst ?d)" using assms(1) by simp
  have "mset (map fst (insort_key fst (?k, drawing) ?d)) = mset (?k # map fst ?d)" by simp
  then show dist: "distinct (map fst (put_image m drawing))"
    unfolding put_image_def using d fresh by (metis distinct.simps(2) list.set_map mset_eq_imp_distinct_iff)
  have "map_of (insort_key fst (?k, drawing) ?d) = map_of ((?k, drawing) # ?d)"
    using dist d fresh by (subst map_of_inject_set) (simp_all add: put_image_def set_insort_key)
  then show "map_of (put_image m drawing) = (map_of m)(?k \<mapsto> drawing)"
    by (simp add: put_image_def)
  have "sorted (map fst ?d)" using assms(2) by (simp add: map_del_def sorted_filter)
  then show "sorted (map fst (put_image m drawing))" by (simp add: put_image_def sorted_insort_key)
qed

lemma db_ok_lookup:
  assumes "db_ok db"
  shows "drawing \<in> set (user_images db u) \<longleftrightarrow> map_of (db_images db) (u, stored_id drawing) = Some drawing"
    and "distinct (map stored_id (user_images db u))"
proof -
  let ?mine = "filter (\<lambda>((u', _), _). u' = u) (db_images db)"
  have keys: "fst e = image_key (snd e)" if "e \<in> set (db_images db)" for e
    using assms that by (auto simp: db_ok_def)
  have dist: "distinct (map fst (db_images db))" using assms by (simp add: db_ok_def)
  show "drawing \<in> set (user_images db u) \<longleftrightarrow> map_of (db_images db) (u, stored_id drawing) = Some drawing"
    using keys dist by (auto simp: user_images_def image_key_def image_iff dest!: map_of_SomeD intro!: map_of_is_SomeI)
  have "map fst ?mine = map (\<lambda>e. (u, stored_id (snd e))) ?mine"
    using keys by (fastforce simp: image_key_def)
  moreover have "distinct (map fst ?mine)" using dist by (rule distinct_map_filter)
  ultimately have "distinct (map (\<lambda>e. (u, stored_id (snd e))) ?mine)" by (simp only:)
  then show "distinct (map stored_id (user_images db u))"
    by (simp add: user_images_def distinct_map inj_on_def)
qed

text \<open>The two loops of \<open>save\<close>: drawings that are not retained leave, those that are enter.\<close>

lemma sorted_map_del: "sorted (map fst m) \<Longrightarrow> sorted (map fst (map_del k m))"
  by (simp add: map_del_def sorted_filter)

lemma delete_loop:
  assumes "distinct (map fst m)" and "sorted (map fst m)"
  shows "map_of (foldl (\<lambda>m drawing. if stored_id drawing \<in> ids then m else map_del (u, stored_id drawing) m) m present) (u', k) =
      (if u' = u \<and> k \<notin> ids \<and> k \<in> stored_id ` set present then None else map_of m (u', k))"
    and "distinct (map fst (foldl (\<lambda>m drawing. if stored_id drawing \<in> ids then m else map_del (u, stored_id drawing) m) m present))"
    and "sorted (map fst (foldl (\<lambda>m drawing. if stored_id drawing \<in> ids then m else map_del (u, stored_id drawing) m) m present))"
  using assms by (induction present rule: rev_induct) (auto simp: sorted_map_del)

lemma put_loop:
  assumes "distinct (map fst m)" and "sorted (map fst m)" and "\<forall>drawing \<in> set valid. stored_userId drawing = u"
  shows "map_of (foldl (\<lambda>m drawing. if stored_id drawing \<in> ids then put_image m drawing else m) m valid) (u', k) =
      (if u' = u \<and> k \<in> ids \<and> k \<in> stored_id ` set valid then latest stored_id valid k else map_of m (u', k)) \<and>
    distinct (map fst (foldl (\<lambda>m drawing. if stored_id drawing \<in> ids then put_image m drawing else m) m valid)) \<and>
    sorted (map fst (foldl (\<lambda>m drawing. if stored_id drawing \<in> ids then put_image m drawing else m) m valid))"
  using assms
proof (induction valid rule: rev_induct)
  case (snoc x xs)
  then show ?case by (auto simp: put_image_facts image_key_def latest_def)
qed simp

lemma latest_append: "latest key (xs @ ys) k = (case latest key ys k of Some y \<Rightarrow> Some y | None \<Rightarrow> latest key xs k)"
  by (induction ys rule: rev_induct) (auto simp: latest_def)

lemma latest_user_images:
  assumes "db_ok db"
  shows "latest stored_id (user_images db u) k = map_of (db_images db) (u, k)"
proof (cases "latest stored_id (user_images db u) k")
  case None
  have "map_of (db_images db) (u, k) = None"
  proof (rule ccontr)
    assume "map_of (db_images db) (u, k) \<noteq> None"
    then obtain drawing where d: "map_of (db_images db) (u, k) = Some drawing" by blast
    then have "stored_id drawing = k" using assms by (auto simp: db_ok_def image_key_def dest!: map_of_SomeD)
    then have "drawing \<in> set (user_images db u)" using d db_ok_lookup(1) [OF assms] by simp
    then show False using None \<open>stored_id drawing = k\<close> by (auto simp: latest_none)
  qed
  then show ?thesis using None by simp
next
  case (Some drawing)
  then show ?thesis using latest_key [OF Some] db_ok_lookup(1) [OF assms] by auto
qed

text \<open>What an accepted \<open>save\<close> leaves in the database.\<close>

lemma save_lookup:
  assumes ok: "db_ok db" and "account_epoch db u = epoch"
    and "store_save collation None u epoch additions db = (res, db')"
  defines "after \<equiv> user_images db u @ filter (valid_addition u) additions"
  shows "map_of (db_images db') (u', k) =
      (if u' = u then if k \<in> stored_id ` set (retainStored collation after) then latest stored_id after k else None
       else map_of (db_images db) (u', k))"
    and "db_ok db'" and "db_accounts db' = db_accounts db" and "res = Inr True"
proof -
  let ?ids = "set (map stored_id (retainStored collation after))"
  let ?valid = "filter (valid_addition u) additions"
  let ?del = "foldl (\<lambda>m drawing. if stored_id drawing \<in> ?ids then m else map_del (u, stored_id drawing) m)
    (db_images db) (user_images db u)"
  have run: "res = Inr True" "db' = db\<lparr>db_images := foldl (\<lambda>m drawing. if stored_id drawing \<in> ?ids then put_image m drawing else m) ?del ?valid\<rparr>"
    using assms(2,3) by (auto simp: store_save_def db_transaction_def Let_def after_def)
  have m: "distinct (map fst (db_images db))" "sorted (map fst (db_images db))" using ok by (auto simp: db_ok_def)
  have v: "\<forall>drawing \<in> set ?valid. stored_userId drawing = u" by (auto simp: valid_addition_def)
  note put = put_loop [OF delete_loop(2,3) [OF m] v, where ids = ?ids, of ?ids u "user_images db u"]
  show look: "map_of (db_images db') (u', k) =
      (if u' = u then if k \<in> stored_id ` set (retainStored collation after) then latest stored_id after k else None
       else map_of (db_images db) (u', k))" for u' k
  proof -
    have "latest stored_id after k = (if k \<in> stored_id ` set ?valid then latest stored_id ?valid k else map_of (db_images db) (u, k))"
      unfolding after_def latest_append latest_user_images [OF ok] using latest_none [of stored_id ?valid k]
      by (auto split: option.splits)
    moreover have "map_of (db_images db) (u, k) = None" if "k \<notin> stored_id ` set (user_images db u)"
      using that latest_user_images [OF ok] latest_none by metis
    ultimately show ?thesis
      using put [of u' k] delete_loop(1) [OF m, of ?ids u "user_images db u" u' k] run(2) by auto
  qed
  have owner: "stored_userId drawing = u" if "drawing \<in> set after" for drawing
    using that v ok by (auto simp: after_def user_images_def db_ok_def image_key_def)
  have sorted: "distinct (map fst (db_images db'))" "sorted (map fst (db_images db'))" using put run(2) by simp_all
  have "(v, k) = image_key drawing" if "((v, k), drawing) \<in> set (db_images db')" for v k drawing
  proof -
    have "map_of (db_images db') (v, k) = Some drawing" using that sorted(1) by (simp add: map_of_is_SomeI)
    then have "v = u \<and> latest stored_id after k = Some drawing \<or> map_of (db_images db) (v, k) = Some drawing"
      using look [of v k] by (auto split: if_splits)
    then show ?thesis using owner latest_key ok by (fastforce simp: db_ok_def image_key_def dest: map_of_SomeD)
  qed
  then show "db_ok db'" using sorted by (auto simp: db_ok_def)
  show "db_accounts db' = db_accounts db" "res = Inr True" using run by simp_all
qed

lemma latest_distinct: "distinct (map key xs) \<Longrightarrow> latest key xs k = Some x \<longleftrightarrow> x \<in> set xs \<and> key x = k"
  using last_by_distinct [of key xs] in_last_by [of x key xs] latest_key by metis

lemma latest_cong:
  assumes "distinct (map key xs)" and "distinct (map key ys)" and "set xs = set ys"
  shows "latest key xs = latest key ys"
proof
  fix k
  have "latest key xs k = Some x \<longleftrightarrow> latest key ys k = Some x" for x
    using assms by (simp add: latest_distinct)
  then show "latest key xs k = latest key ys k" by (metis option.exhaust)
qed

lemma retain_append_cong:
  assumes "distinct (map key xs)" and "distinct (map key ys)" and "set xs = set ys"
    and "inj_on collation (key ` (set ys \<union> set zs))"
  shows "retainDrawings collation key time weight (xs @ zs) = retainDrawings collation key time weight (ys @ zs)"
proof (rule retain_cong)
  have "latest key (xs @ zs) = latest key (ys @ zs)"
    unfolding fun_eq_iff latest_append latest_cong [OF assms(1-3)] by blast
  then show "set (last_by key (xs @ zs)) = set (last_by key (ys @ zs))" by (auto simp: in_last_by)
  have "set (last_by key (ys @ zs)) \<subseteq> set ys \<union> set zs"
    by (auto simp: in_last_by dest!: latest_key)
  then show "inj_on collation (key ` set (last_by key (ys @ zs)))"
    using assms(4) by (meson image_mono inj_on_subset)
qed

lemma save_user_images:
  assumes "db_ok db" and "account_epoch db u = epoch" and "store_save collation None u epoch additions db = (res, db')"
  shows "set (user_images db' u) = set (retainStored collation (user_images db u @ filter (valid_addition u) additions))"
    and "u' \<noteq> u \<Longrightarrow> set (user_images db' u') = set (user_images db u')"
proof -
  let ?after = "user_images db u @ filter (valid_addition u) additions"
  note look = save_lookup(1) [OF assms] and ok = save_lookup(2) [OF assms]
  have r: "latest stored_id ?after (stored_id x) = Some x" if "x \<in> set (retainStored collation ?after)" for x
    using that set_retain_last [of collation stored_id drawing_time drawing_size ?after] in_last_by [of x stored_id ?after] by blast
  have "x \<in> set (user_images db' u) \<longleftrightarrow> x \<in> set (retainStored collation ?after)" for x
  proof
    assume "x \<in> set (user_images db' u)"
    then have x: "stored_id x \<in> stored_id ` set (retainStored collation ?after)" "latest stored_id ?after (stored_id x) = Some x"
      unfolding db_ok_lookup(1) [OF ok] look [of u] by (simp_all split: if_splits)
    then obtain y where y: "y \<in> set (retainStored collation ?after)" "stored_id x = stored_id y" by auto
    have "Some y = Some x" using r [OF y(1)] x(2) unfolding y(2) by (rule trans [OF sym])
    then show "x \<in> set (retainStored collation ?after)" using y(1) by (simp only: option.inject)
  next
    assume "x \<in> set (retainStored collation ?after)"
    then show "x \<in> set (user_images db' u)" unfolding db_ok_lookup(1) [OF ok] look [of u] using r [of x] by simp
  qed
  then show "set (user_images db' u) = set (retainStored collation ?after)" by blast
  show "u' \<noteq> u \<Longrightarrow> set (user_images db' u') = set (user_images db u')"
    unfolding set_eq_iff db_ok_lookup(1) [OF ok] db_ok_lookup(1) [OF assms(1)] look [of u'] by simp
qed

lemma clear_images:
  assumes "store_clear None u db = (res, db')"
  shows "db_images db' = filter (\<lambda>((u', _), _). u' \<noteq> u) (db_images db)"
    and "db_accounts db' = map_put u (account_epoch db u + 1) (db_accounts db)" and "res = Inr (account_epoch db u + 1)"
proof -
  have del: "foldl (\<lambda>m k. map_del k m) m keys = filter (\<lambda>e. fst e \<notin> set keys) m" for keys :: "image_key list" and m :: "(image_key \<times> StoredDrawing) list"
    by (induction keys arbitrary: m) (auto simp: map_del_def intro: filter_cong)
  show "db_images db' = filter (\<lambda>((u', _), _). u' \<noteq> u) (db_images db)"
    using assms by (auto simp: store_clear_def db_transaction_def Let_def del intro!: filter_cong)
qed (use assms in \<open>auto simp: store_clear_def db_transaction_def Let_def\<close>)

lemma clear_ok:
  assumes "db_ok db" and "store_clear None u db = (res, db')"
  shows "db_ok db'"
  using assms(1) unfolding db_ok_def clear_images(1) [OF assms(2)] by (auto simp: distinct_map_filter sorted_filter)

section \<open>Refinement\<close>

text \<open>An account as its user sees it: an epoch and a list of drawings.\<close>

definition account_of :: "(jsstr \<Rightarrow> int list) \<Rightarrow> drawing_db \<Rightarrow> int \<Rightarrow> int \<times> StoredDrawing list" where
  "account_of collation db u = (account_epoch db u, retainStored collation (user_images db u))"

definition account_save :: "(jsstr \<Rightarrow> int list) \<Rightarrow> int \<Rightarrow> int \<Rightarrow> StoredDrawing list \<Rightarrow> int \<times> StoredDrawing list \<Rightarrow> int \<times> StoredDrawing list" where
  "account_save collation u epoch additions account =
     (if fst account = epoch
      then (epoch, retainStored collation (snd account @ filter (valid_addition u) additions)) else account)"

text \<open>The database is well formed and holds no drawing that would not be retained.\<close>

definition store_inv :: "(jsstr \<Rightarrow> int list) \<Rightarrow> drawing_db \<Rightarrow> bool" where
  "store_inv collation db \<longleftrightarrow> db_ok db \<and>
     (\<forall>u. set (retainStored collation (user_images db u)) = set (user_images db u))"

lemma save_refines:
  assumes inv: "store_inv collation db" and inj: "inj_on collation (stored_id ` (snd ` set (db_images db) \<union> set additions))"
    and run: "store_save collation None u epoch additions db = (res, db')"
  shows "account_of collation db' = (account_of collation db)(u := account_save collation u epoch additions (account_of collation db u))
    \<and> store_inv collation db' \<and> res = Inr (account_epoch db u = epoch)"
proof (cases "account_epoch db u = epoch")
  case False
  then have "db' = db" "res = Inr False" using run by (auto simp: store_save_def db_transaction_def)
  then show ?thesis using False inv by (auto simp: account_save_def account_of_def fun_eq_iff)
next
  case True
  let ?valid = "filter (valid_addition u) additions" and ?R = "retainStored collation (user_images db u)"
  let ?r = "retainStored collation (user_images db u @ ?valid)"
  have ok: "db_ok db" and kept: "set ?R = set (user_images db u)"
      "\<And>v. set (retainStored collation (user_images db v)) = set (user_images db v)"
    using inv by (auto simp: store_inv_def)
  note saved = save_lookup(2-4) [OF ok True run] and images = save_user_images [OF ok True run]
  have inj': "inj_on collation (stored_id ` A)" if "A \<subseteq> set (user_images db v) \<union> set additions" for v A
    using that by (intro inj_on_subset [OF inj] image_mono) (auto simp: user_images_def)
  have "retainStored collation (?R @ ?valid) = ?r"
  proof (rule retain_append_cong [OF _ db_ok_lookup(2) [OF ok] kept(1)])
    show "distinct (map stored_id ?R)"
      using retained [of collation stored_id drawing_time drawing_size "user_images db u"] by (simp only: retained_ok_def)
    show "inj_on collation (stored_id ` (set (user_images db u) \<union> set ?valid))" by (rule inj' [of _ u]) auto
  qed
  moreover have own: "retainStored collation (user_images db' u) = ?r"
  proof (rule retain_unique)
    show "set (last_by stored_id (user_images db' u)) = set ?r"
      using images(1) last_by_distinct [OF db_ok_lookup(2) [OF saved(1)]] by (simp only:)
    have "set ?r \<subseteq> set (user_images db u) \<union> set additions"
      using set_retain [of collation stored_id drawing_time drawing_size "user_images db u @ ?valid"] by auto
    then show "inj_on collation (stored_id ` set ?r)" by (rule inj')
  qed (rule retained)
  moreover have other: "retainStored collation (user_images db' v) = retainStored collation (user_images db v)" if "v \<noteq> u" for v
  proof (rule retain_cong)
    show "set (last_by stored_id (user_images db' v)) = set (last_by stored_id (user_images db v))"
      unfolding last_by_distinct [OF db_ok_lookup(2) [OF saved(1)]] last_by_distinct [OF db_ok_lookup(2) [OF ok]]
      by (rule images(2) [OF that])
    show "inj_on collation (stored_id ` set (last_by stored_id (user_images db v)))"
      unfolding last_by_distinct [OF db_ok_lookup(2) [OF ok]] by (rule inj' [of _ v]) auto
  qed
  ultimately have "account_of collation db' = (account_of collation db)(u := account_save collation u epoch additions (account_of collation db u))"
    using True saved(2) by (auto simp: account_of_def account_save_def account_epoch_def fun_eq_iff)
  moreover have "store_inv collation db'"
    unfolding store_inv_def
  proof (intro conjI allI saved(1))
    fix v
    show "set (retainStored collation (user_images db' v)) = set (user_images db' v)"
      using own other [of v] images(1) images(2) [of v] kept(2) [of v] by (cases "v = u") (simp_all only: not_False_eq_True simp_thms)
  qed
  ultimately show ?thesis using saved(3) True by simp
qed

text \<open>C16: The IndexedDB store implements accounts that are an epoch and a list of drawings: \<open>load\<close> returns them;
  \<open>save\<close> adds the valid drawings of this account and retains what fits when the epoch is still the one it was begun
  with, and changes nothing otherwise; \<open>clear\<close> empties the list and advances the epoch. No operation touches another
  account, and the database never holds a drawing beyond the limits.\<close>

theorem store_implements_accounts:
  assumes "store_inv collation db" and "inj_on collation (stored_id ` (snd ` set (db_images db) \<union> set additions))"
  shows "store_load collation None u db =
      (Inr \<lparr>data_epoch = fst (account_of collation db u), data_images = snd (account_of collation db u)\<rparr>, db) \<and>
    (\<exists>db'. store_save collation None u epoch additions db = (Inr (fst (account_of collation db u) = epoch), db') \<and>
       account_of collation db' = (account_of collation db)(u := account_save collation u epoch additions (account_of collation db u)) \<and>
       store_inv collation db') \<and>
    (\<exists>db'. store_clear None u db = (Inr (fst (account_of collation db u) + 1), db') \<and>
       account_of collation db' = (account_of collation db)(u := (fst (account_of collation db u) + 1, [])) \<and>
       store_inv collation db')"
proof -
  obtain res db1 where save: "store_save collation None u epoch additions db = (res, db1)" by (metis prod.exhaust)
  obtain res2 db2 where clear: "store_clear None u db = (res2, db2)" by (metis prod.exhaust)
  note cleared = clear_images [OF clear]
  have users: "user_images db2 v = (if v = u then [] else user_images db v)" for v
    unfolding user_images_def cleared(1) by (auto simp: filter_empty_conv intro!: arg_cong [of _ _ "map snd"] filter_cong)
  have epochs: "account_epoch db2 v = (if v = u then account_epoch db u + 1 else account_epoch db v)" for v
    by (simp add: account_epoch_def cleared(2))
  have empty: "retainStored collation [] = []" using set_retain [of collation stored_id drawing_time drawing_size "[]"] by simp
  have "account_of collation db2 = (account_of collation db)(u := (account_epoch db u + 1, []))"
    using users epochs empty by (auto simp: account_of_def fun_eq_iff)
  moreover have "db_ok db2" using clear_ok [OF _ clear] assms(1) by (simp add: store_inv_def)
  then have "store_inv collation db2"
    using assms(1) users empty by (auto simp: store_inv_def)
  ultimately show ?thesis
    using save_refines [OF assms save] save clear cleared(3)
    by (auto simp: account_of_def store_load_def db_transaction_def)
qed

definition sample_db :: drawing_db where
  "sample_db = \<lparr>db_images = [((7, js ''a''), sample_drawing ''a'' 1)], db_accounts = [(7, 2)]\<rparr>"

lemma sample_db_ok: "db_ok sample_db"
  by (simp add: db_ok_def image_key_def sample_db_def sample_drawing_def)

theorem store_implements_accounts_witness:
  "\<exists>db'. store_save id None 7 2 [sample_drawing ''b'' 2] sample_db = (Inr True, db') \<and>
     snd (account_of id db' 7) = [sample_drawing ''b'' 2, sample_drawing ''a'' 1] \<and> store_inv id db'"
proof -
  have "set (retainStored id (user_images sample_db u)) = set (user_images sample_db u)" for u
  proof (cases "u = 7")
    case True
    have "retainStored id (user_images sample_db 7) = user_images sample_db 7" by (simp add: retain_eval user_images_def sample_db_def)
    then show ?thesis using True by simp
  qed (simp add: user_images_def sample_db_def retainDrawings_def newest_first_def last_by_def)
  then have inv: "store_inv id sample_db" using sample_db_ok by (simp add: store_inv_def)
  have epoch: "fst (account_of id sample_db 7) = 2"
    and images: "account_save id 7 2 [sample_drawing ''b'' 2] (account_of id sample_db 7) =
      (2, [sample_drawing ''b'' 2, sample_drawing ''a'' 1])"
    by (simp_all add: retain_eval account_of_def account_save_def account_epoch_def user_images_def sample_db_def
      valid_addition_def)
  obtain db' where "store_save id None 7 2 [sample_drawing ''b'' 2] sample_db = (Inr (fst (account_of id sample_db 7) = 2), db')"
      "account_of id db' = (account_of id sample_db)(7 := account_save id 7 2 [sample_drawing ''b'' 2] (account_of id sample_db 7))"
      "store_inv id db'"
    using store_implements_accounts [OF inv, of "[sample_drawing ''b'' 2]" 7 2] by auto
  then show ?thesis using epoch images by auto
qed

section \<open>Clearing across tabs\<close>

datatype store_op = Load_op int | Save_op int int "StoredDrawing list" | Clear_op int

fun run_op :: "(jsstr \<Rightarrow> int list) \<Rightarrow> idb_error option \<times> store_op \<Rightarrow> drawing_db \<Rightarrow> drawing_db" where
  "run_op collation (fault, Load_op u) db = snd (store_load collation fault u db)"
| "run_op collation (fault, Save_op u epoch additions) db = snd (store_save collation fault u epoch additions db)"
| "run_op collation (fault, Clear_op u) db = snd (store_clear fault u db)"

definition run_ops :: "(jsstr \<Rightarrow> int list) \<Rightarrow> (idb_error option \<times> store_op) list \<Rightarrow> drawing_db \<Rightarrow> drawing_db" where
  "run_ops collation ops db = foldl (\<lambda>db op. run_op collation op db) db ops"

lemma run_op_ok:
  assumes "db_ok db"
  shows "db_ok (run_op collation op db) \<and> account_epoch db u \<le> account_epoch (run_op collation op db) u \<and>
    set (user_images (run_op collation op db) u) \<subseteq> set (user_images db u) \<union>
      {x. \<exists>additions. op = (None, Save_op u (account_epoch db u) additions) \<and> x \<in> set additions}"
proof (cases "fst op")
  case (Some e)
  obtain f x where "op = (f, x)" by (cases op)
  then have "run_op collation op db = db"
    using Some by (cases x) (simp_all add: store_load_def store_save_def store_clear_def db_transaction_def)
  then show ?thesis using assms by simp
next
  case None
  show ?thesis
  proof (cases "snd op")
    case (Load_op v)
    then have "op = (None, Load_op v)" using None by (cases op) simp
    then show ?thesis using assms by (simp add: store_load_def db_transaction_def)
  next
    case (Save_op v epoch additions)
    then have op: "op = (None, Save_op v epoch additions)" using None by (cases op) simp
    obtain res db' where run: "store_save collation None v epoch additions db = (res, db')" by (metis prod.exhaust)
    show ?thesis
    proof (cases "account_epoch db v = epoch")
      case True
      have "set (user_images db' v) \<subseteq> set (user_images db v) \<union> set additions"
        unfolding save_user_images(1) [OF assms True run]
        using set_retain [of collation stored_id drawing_time drawing_size "user_images db v @ filter (valid_addition v) additions"] by auto
      then have "set (user_images db' u) \<subseteq> set (user_images db u) \<union> {x. v = u \<and> x \<in> set additions}"
        using save_user_images(2) [OF assms True run, of u] by (cases "u = v") auto
      then show ?thesis
        using save_lookup(2,3) [OF assms True run] True op run by (auto simp: account_epoch_def)
    next
      case False
      then have "db' = db" using run by (auto simp: store_save_def db_transaction_def)
      then show ?thesis using assms op run by simp
    qed
  next
    case (Clear_op v)
    then have op: "op = (None, Clear_op v)" using None by (cases op) simp
    obtain res db' where run: "store_clear None v db = (res, db')" by (metis prod.exhaust)
    note cleared = clear_images [OF run]
    have "db_ok db'" using assms run by (rule clear_ok)
    moreover have "account_epoch db u \<le> account_epoch db' u" by (simp add: account_epoch_def cleared(2))
    moreover have "set (user_images db' u) \<subseteq> set (user_images db u)" by (auto simp: user_images_def cleared(1))
    ultimately show ?thesis using op run by auto
  qed
qed

lemma run_ops_ok:
  assumes "db_ok db"
  shows "db_ok (run_ops collation ops db) \<and> account_epoch db u \<le> account_epoch (run_ops collation ops db) u \<and>
    set (user_images (run_ops collation ops db) u) \<subseteq> set (user_images db u) \<union>
      {x. \<exists>epoch additions. (None, Save_op u epoch additions) \<in> set ops \<and> account_epoch db u \<le> epoch \<and> x \<in> set additions}"
proof (induction ops rule: rev_induct)
  case Nil
  then show ?case using assms by (simp add: run_ops_def)
next
  case (snoc op ops)
  let ?db = "run_ops collation ops db" and ?old = "{x. \<exists>epoch additions. (None, Save_op u epoch additions) \<in> set ops \<and>
    account_epoch db u \<le> epoch \<and> x \<in> set additions}"
  have step: "run_ops collation (ops @ [op]) db = run_op collation op ?db" by (simp add: run_ops_def)
  have "set (user_images ?db u) \<subseteq> set (user_images db u) \<union> ?old" "account_epoch db u \<le> account_epoch ?db u" "db_ok ?db"
    using snoc by blast+
  moreover have "x \<in> set (user_images db u) \<union> ?old \<or> (\<exists>additions. op = (None, Save_op u (account_epoch ?db u) additions) \<and> x \<in> set additions)"
    if "x \<in> set (user_images (run_op collation op ?db) u)" for x
    using that run_op_ok [of ?db collation op u] calculation by blast
  ultimately show ?case using run_op_ok [of ?db collation op u] unfolding step by fastforce
qed

text \<open>C17: Once an account has been cleared, whatever the tabs do in whichever order and however their transactions
  fail, the cache of the account holds only drawings of saves that were begun with the epoch of that clear or a later
  one, and a save begun with an earlier epoch is refused and changes nothing.\<close>

theorem cleared_drawings_stay_cleared:
  assumes "db_ok db" and "store_clear None u db = (Inr e, db1)"
  shows "(\<forall>x \<in> set (user_images (run_ops collation ops db1) u).
      \<exists>epoch additions. (None, Save_op u epoch additions) \<in> set ops \<and> e \<le> epoch \<and> x \<in> set additions) \<and>
    (\<forall>epoch < e. \<forall>additions.
      store_save collation None u epoch additions (run_ops collation ops db1) = (Inr False, run_ops collation ops db1))"
proof -
  have e: "account_epoch db1 u = e"
    using clear_images(2,3) [OF assms(2)] by (simp add: account_epoch_def)
  have "user_images db1 u = []" using clear_images(1) [OF assms(2)] by (auto simp: user_images_def filter_empty_conv)
  with run_ops_ok [OF clear_ok [OF assms], of collation ops u] have
    "e \<le> account_epoch (run_ops collation ops db1) u"
    "set (user_images (run_ops collation ops db1) u) \<subseteq>
       {x. \<exists>epoch additions. (None, Save_op u epoch additions) \<in> set ops \<and> e \<le> epoch \<and> x \<in> set additions}"
    unfolding e by auto
  then show ?thesis by (auto simp: store_save_def db_transaction_def)
qed

theorem cleared_drawings_stay_cleared_witness:
  "\<exists>db1. store_clear None 7 sample_db = (Inr 3, db1) \<and>
     (\<forall>additions. store_save id None 7 2 additions
        (run_ops id [(None, Save_op 7 3 [sample_drawing ''b'' 2]), (Some Transaction_aborted, Load_op 7)] db1) =
        (Inr False, run_ops id [(None, Save_op 7 3 [sample_drawing ''b'' 2]), (Some Transaction_aborted, Load_op 7)] db1))"
proof -
  obtain res db1 where clear: "store_clear None 7 sample_db = (res, db1)" by (metis prod.exhaust)
  then have "res = Inr 3" using clear_images(3) [OF clear] by (simp add: account_epoch_def sample_db_def)
  then show ?thesis using cleared_drawings_stay_cleared [OF sample_db_ok, of 7 3 db1 id] clear by auto
qed

end
