(* ===== verification/DrawingImage.thy ===== *)
theory DrawingImage
  imports DrawingStore SmsCatalog
begin

text \<open>
  Images a generation returns and the errors it may end with: \<open>features/drawing/image-bytes.ts\<close>,
  \<open>error-state.ts\<close> and \<open>web-access.ts\<close>.

  What the URL parser of the browser reads from a text is a parameter, and so is what the network answers to a
  request for an address: a rejection, or a response whose body arrives in chunks and then ends or fails. Aborting and
  the timeout of fifteen seconds show as rejections and failing bodies. Header values hold Latin-1 text only, so their
  case is folded for ASCII letters. \<open>atob\<close> is the forgiving base64 decoder of the platform.
\<close>

section \<open>Decoding base64\<close>

definition b64_value :: "code_unit \<Rightarrow> int option" where
  "b64_value c =
     (if is_upper c then Some (c - 65) else if is_lower c then Some (c - 71) else if is_digit c then Some (c + 4)
      else if c = 43 then Some 62 else if c = 47 then Some 63 else None)"

fun b64_bytes :: "int list \<Rightarrow> int list" where
  "b64_bytes (a # b # c # d # rest) =
     [a * 4 + b div 16, b mod 16 * 16 + c div 4, c mod 4 * 64 + d] @ b64_bytes rest"
| "b64_bytes [a, b, c] = [a * 4 + b div 16, b mod 16 * 16 + c div 4]"
| "b64_bytes [a, b] = [a * 4 + b div 16]"
| "b64_bytes _ = []"

definition ascii_space :: "code_unit \<Rightarrow> bool" where
  "ascii_space c \<longleftrightarrow> c \<in> {9, 10, 12, 13, 32}"

definition strip_padding :: "jsstr \<Rightarrow> jsstr" where
  "strip_padding s =
     (if length s mod 4 \<noteq> 0 then s
      else if ends_with s [61, 61] then butlast (butlast s) else if ends_with s [61] then butlast s else s)"

fun b64_values :: "jsstr \<Rightarrow> int list option" where
  "b64_values [] = Some []"
| "b64_values (c # s) =
     (case b64_value c of None \<Rightarrow> None | Some v \<Rightarrow> (case b64_values s of None \<Rightarrow> None | Some vs \<Rightarrow> Some (v # vs)))"

definition atob :: "jsstr \<Rightarrow> jsstr option" where
  "atob s =
     (let data = strip_padding (filter (\<lambda>c. \<not> ascii_space c) s)
      in if length data mod 4 = 1 then None
         else (case b64_values data of None \<Rightarrow> None | Some vs \<Rightarrow> Some (b64_bytes vs)))"

section \<open>Sources of images\<close>

record GeneratedDrawing =
  gen_url :: "jsstr option"
  gen_b64_json :: "jsstr option"
  gen_revised_prompt :: "jsstr option"

record parsed_url =
  url_protocol_of :: jsstr
  url_username :: jsstr
  url_password :: jsstr
  url_href :: jsstr

definition rasterTypes :: "jsstr list" where
  "rasterTypes = [js ''image/png'', js ''image/jpeg'', js ''image/webp'', js ''image/gif'']"

definition safeDrawingURL :: "(jsstr \<Rightarrow> parsed_url option) \<Rightarrow> jsstr option \<Rightarrow> jsstr option" where
  "safeDrawingURL parse v =
     (case v of None \<Rightarrow> None
      | Some text \<Rightarrow>
          if text = [] then None
          else (case parse text of None \<Rightarrow> None
            | Some url \<Rightarrow>
                if url_protocol_of url \<noteq> js ''https:'' \<or> url_username url \<noteq> [] \<or> url_password url \<noteq> [] then None
                else Some (url_href url)))"

definition drawingSource :: "(jsstr \<Rightarrow> parsed_url option) \<Rightarrow> GeneratedDrawing \<Rightarrow> jsstr option" where
  "drawingSource parse drawing =
     (case gen_b64_json drawing of
        Some b64 \<Rightarrow> if trim b64 \<noteq> [] then Some (js ''data:image/png;base64,'' @ trim b64) else safeDrawingURL parse (gen_url drawing)
      | None \<Rightarrow> safeDrawingURL parse (gen_url drawing))"

datatype image_error = Exceeds_cache_limit | Invalid_base64 | Empty_image | Unsafe_url | Fetch_rejected | Not_an_image | Stream_broke

definition sniff_type :: "jsstr \<Rightarrow> jsstr" where
  "sniff_type binary =
     (if char_at binary 0 = Some 255 \<and> char_at binary 1 = Some 216 then js ''image/jpeg''
      else if starts_with binary (js ''GIF8'') then js ''image/gif''
      else if starts_with binary (js ''RIFF'') \<and> take 4 (drop 8 binary) = js ''WEBP'' then js ''image/webp''
      else js ''image/png'')"

definition drawingBase64Blob :: "jsstr \<Rightarrow> image_error + Blob" where
  "drawingBase64Blob v =
     (if length v > (DRAWING_IMAGE_BYTES + 2) div 3 * 4 then Inl Exceeds_cache_limit
      else (case atob (trim v) of None \<Rightarrow> Inl Invalid_base64
        | Some binary \<Rightarrow>
            if binary = [] then Inl Empty_image
            else Inr \<lparr>blob_type = sniff_type binary, blob_bytes = binary\<rparr>))"

section \<open>Downloading an image\<close>

datatype stream_end = Stream_done | Stream_failed

record fetch_response =
  response_ok :: bool
  content_type :: "jsstr option"
  content_length :: "jsstr option"
  response_body :: "(int list list \<times> stream_end) option"

fun read_chunks :: "int list list \<Rightarrow> stream_end \<Rightarrow> int list \<Rightarrow> image_error + int list" where
  "read_chunks [] stop got = (if stop = Stream_failed then Inl Stream_broke else Inr got)"
| "read_chunks (chunk # chunks) stop got =
     (if length got + length chunk > DRAWING_IMAGE_BYTES then Inl Exceeds_cache_limit
      else read_chunks chunks stop (got @ chunk))"

definition media_type :: "jsstr \<Rightarrow> jsstr" where
  "media_type header = lower_ascii (trim (hd (split_on 59 header)))"

definition read_response :: "fetch_response \<Rightarrow> image_error + Blob" where
  "read_response response =
     (case (content_type response, response_body response) of
        (Some header, Some (chunks, stop)) \<Rightarrow>
          if \<not> response_ok response \<or> media_type header = [] \<or> media_type header \<notin> set rasterTypes then Inl Not_an_image
          else if num_gt (case content_length response of Some n \<Rightarrow> to_number n | None \<Rightarrow> Num 0) (Num (of_nat DRAWING_IMAGE_BYTES))
          then Inl Exceeds_cache_limit
          else andThen (read_chunks chunks stop []) (\<lambda>bytes.
            if bytes = [] then Inl Empty_image else Inr \<lparr>blob_type = media_type header, blob_bytes = bytes\<rparr>)
      | _ \<Rightarrow> Inl Not_an_image)"

text \<open>The result and the addresses requested.\<close>

definition fetchDrawingBlob ::
  "(jsstr \<Rightarrow> parsed_url option) \<Rightarrow> (jsstr \<Rightarrow> fetch_response option) \<Rightarrow> jsstr \<Rightarrow> (image_error + Blob) \<times> jsstr list" where
  "fetchDrawingBlob parse fetch source =
     (case safeDrawingURL parse (Some source) of None \<Rightarrow> (Inl Unsafe_url, [])
      | Some url \<Rightarrow>
          ((case fetch url of None \<Rightarrow> Inl Fetch_rejected | Some response \<Rightarrow> read_response response), [url]))"

section \<open>Errors of a generation\<close>

definition getDrawingRequestStatus :: "jsval \<Rightarrow> number option" where
  "getDrawingRequestStatus error =
     (if \<not> is_object error then None
      else let response = get_prop error (js ''response'')
           in if \<not> is_object response then None
              else let status = get_prop response (js ''status'')
                   in if val_is_integer status then Some (num_of status) else None)"

datatype DrawingRequestErrorKind = Unauthenticated | Forbidden | Unavailable | Network_error | Http_error

definition getDrawingRequestErrorKind :: "jsval \<Rightarrow> DrawingRequestErrorKind" where
  "getDrawingRequestErrorKind error =
     (case getDrawingRequestStatus error of None \<Rightarrow> Network_error
      | Some status \<Rightarrow>
          if num_eq status (Num 401) then Unauthenticated else if num_eq status (Num 403) then Forbidden
          else if num_ge status (Num 500) then Unavailable else Http_error)"

definition record_of :: "jsval \<Rightarrow> jsval" where
  "record_of v = (case v of Obj ps \<Rightarrow> v | _ \<Rightarrow> Undefined)"

definition message_of :: "jsval \<Rightarrow> jsstr option" where
  "message_of v = (case v of Str s \<Rightarrow> if trim s = [] then None else Some (trim s) | _ \<Rightarrow> None)"

definition getDrawingRequestErrorMessage :: "jsval \<Rightarrow> jsstr \<Rightarrow> jsstr" where
  "getDrawingRequestErrorMessage error fallback =
     (let response = record_of (get_prop (record_of error) (js ''response''));
          data = record_of (get_prop response (js ''data''))
      in case message_of (get_prop (record_of (get_prop data (js ''error''))) (js ''message'')) of
           Some m \<Rightarrow> m
         | None \<Rightarrow> (case message_of (get_prop data (js ''message'')) of Some m \<Rightarrow> m | None \<Rightarrow> fallback))"

definition WEB_DRAWING_MINIMUM_USD :: number where
  "WEB_DRAWING_MINIMUM_USD = Num 10"

record DrawingWebAccess =
  access_allowed :: bool
  access_balance :: "number option"

definition resolveDrawingWebAccess :: "jsval \<Rightarrow> jsval \<Rightarrow> number \<Rightarrow> DrawingWebAccess" where
  "resolveDrawingWebAccess access quota quotaPerUSD =
     (if truthy_val access then
        let given = get_prop access (js ''balance_usd'');
            balance = if val_is_finite given then Some (num_of given) else None
        in \<lparr>access_allowed = get_prop access (js ''allowed'') = Bool True \<and>
              (case balance of Some b \<Rightarrow> num_ge b WEB_DRAWING_MINIMUM_USD | None \<Rightarrow> False),
            access_balance = balance\<rparr>
      else
        \<lparr>access_allowed = False,
         access_balance =
           (if val_is_finite quota \<and> is_finite quotaPerUSD \<and> num_gt quotaPerUSD (Num 0)
            then Some (num_div (num_of quota) quotaPerUSD) else None)\<rparr>)"

definition getDrawingWebDenial :: "jsval \<Rightarrow> DrawingWebAccess option" where
  "getDrawingWebDenial error =
     (let payload = get_prop (get_prop error (js ''response'')) (js ''data'')
      in if get_prop (get_prop payload (js ''error'')) (js ''code'') \<noteq> Str (js ''WEB_DRAWING_MINIMUM_BALANCE'') then None
         else Some ((resolveDrawingWebAccess (get_prop payload (js ''drawing_web_access'')) Undefined (Num 0))\<lparr>access_allowed := False\<rparr>))"

section \<open>Base64 images\<close>

text \<open>The encoder of RFC 4648, as a reference for the decoder.\<close>

definition b64_char :: "int \<Rightarrow> code_unit" where
  "b64_char v = (if v < 26 then v + 65 else if v < 52 then v + 71 else if v < 62 then v - 4 else if v = 62 then 43 else 47)"

fun sextets :: "int list \<Rightarrow> int list" where
  "sextets (a # b # c # rest) = [a div 4, a mod 4 * 16 + b div 16, b mod 16 * 4 + c div 64, c mod 64] @ sextets rest"
| "sextets [a, b] = [a div 4, a mod 4 * 16 + b div 16, b mod 16 * 4]"
| "sextets [a] = [a div 4, a mod 4 * 16]"
| "sextets [] = []"

definition b64_encode :: "int list \<Rightarrow> jsstr" where
  "b64_encode bytes = map b64_char (sextets bytes) @ replicate ((3 - length bytes mod 3) mod 3) 61"

definition are_bytes :: "int list \<Rightarrow> bool" where
  "are_bytes bytes \<longleftrightarrow> (\<forall>b \<in> set bytes. 0 \<le> b \<and> b < 256)"

lemma b64_char_facts:
  assumes "0 \<le> v" and "v < 64"
  shows "b64_value (b64_char v) = Some v" and "\<not> is_space (b64_char v)" and "\<not> ascii_space (b64_char v)" and "b64_char v \<noteq> 61"
  using assms
  by (auto simp: b64_char_def b64_value_def is_upper_def is_lower_def is_digit_def is_space_def ascii_space_def)

lemma b64_quad:
  fixes a b c :: int
  assumes "0 \<le> a" "a < 256" "0 \<le> b" "b < 256" "0 \<le> c" "c < 256"
  shows "a div 4 * 4 + (a mod 4 * 16 + b div 16) div 16 = a"
    and "(a mod 4 * 16 + b div 16) mod 16 * 16 + (b mod 16 * 4 + c div 64) div 4 = b"
    and "(b mod 16 * 4 + c div 64) mod 4 * 64 + c mod 64 = c"
    and "0 \<le> a div 4 \<and> a div 4 < 64 \<and> 0 \<le> a mod 4 * 16 + b div 16 \<and> a mod 4 * 16 + b div 16 < 64 \<and>
      0 \<le> b mod 16 * 4 + c div 64 \<and> b mod 16 * 4 + c div 64 < 64 \<and> 0 \<le> c mod 64 \<and> c mod 64 < 64"
proof -
  have part: "(x * n + y) div n = x" "(x * n + y) mod n = y" if "0 \<le> y" "y < n" for x y n :: int
    using that by simp_all
  have six: "0 \<le> x \<Longrightarrow> x < 4 \<Longrightarrow> 0 \<le> y \<Longrightarrow> y < 16 \<Longrightarrow> 0 \<le> x * 16 + y \<and> x * 16 + y < 64"
    "0 \<le> z \<Longrightarrow> z < 16 \<Longrightarrow> 0 \<le> w \<Longrightarrow> w < 4 \<Longrightarrow> 0 \<le> z * 4 + w \<and> z * 4 + w < 64" for x y z w :: int
    by linarith+
  have p: "0 \<le> b div 16" "b div 16 < 16" "0 \<le> c div 64" "c div 64 < 4" "0 \<le> a div 4" "a div 4 < 64"
    using assms by (simp_all add: div_int_pos_iff pos_imp_zdiv_nonneg_iff int_div_less_self)
  have m: "0 \<le> a mod 4" "a mod 4 < 4" "0 \<le> b mod 16" "b mod 16 < 16" "0 \<le> c mod 64" "c mod 64 < 64" by simp_all
  show "a div 4 * 4 + (a mod 4 * 16 + b div 16) div 16 = a"
    unfolding part(1) [OF p(1,2)] by simp
  show "(a mod 4 * 16 + b div 16) mod 16 * 16 + (b mod 16 * 4 + c div 64) div 4 = b"
    unfolding part(2) [OF p(1,2)] part(1) [OF p(3,4)] by simp
  show "(b mod 16 * 4 + c div 64) mod 4 * 64 + c mod 64 = c"
    unfolding part(2) [OF p(3,4)] by simp
  show "0 \<le> a div 4 \<and> a div 4 < 64 \<and> 0 \<le> a mod 4 * 16 + b div 16 \<and> a mod 4 * 16 + b div 16 < 64 \<and>
      0 \<le> b mod 16 * 4 + c div 64 \<and> b mod 16 * 4 + c div 64 < 64 \<and> 0 \<le> c mod 64 \<and> c mod 64 < 64"
    using p(5,6) m(5,6) six(1) [OF m(1,2) p(1,2)] six(2) [OF m(3,4) p(3,4)] by blast
qed

lemma sextets_facts:
  assumes "are_bytes bytes"
  shows "b64_bytes (sextets bytes) = bytes" and "\<forall>v \<in> set (sextets bytes). 0 \<le> v \<and> v < 64"
  using assms
proof (induction bytes rule: sextets.induct)
  case (1 a b c rest)
  { case 1
    then have rest: "are_bytes rest" and quad: "0 \<le> a" "a < 256" "0 \<le> b" "b < 256" "0 \<le> c" "c < 256"
      by (simp_all add: are_bytes_def)
    show ?case
      unfolding sextets.simps append_Cons append_Nil b64_bytes.simps b64_quad [OF quad] "1.IH"(1) [OF rest] by (rule refl)
  next
    case 2
    then have rest: "are_bytes rest" and quad: "0 \<le> a" "a < 256" "0 \<le> b" "b < 256" "0 \<le> c" "c < 256"
      by (simp_all add: are_bytes_def)
    show ?case
      unfolding sextets.simps append_Cons append_Nil list.set ball_simps using b64_quad(4) [OF quad] "1.IH"(2) [OF rest] by blast }
qed (auto simp: are_bytes_def)

lemma length_sextets: "length (sextets bytes) = (4 * length bytes + 2) div 3"
  by (induction bytes rule: sextets.induct) auto

lemma b64_values_chars: "\<forall>v \<in> set vs. 0 \<le> v \<and> v < 64 \<Longrightarrow> b64_values (map b64_char vs) = Some vs"
  by (induction vs) (auto simp: b64_char_facts)

lemma strip_padding_plain:
  assumes "61 \<notin> set s"
  shows "strip_padding s = s"
    and "length s mod 4 = 2 \<Longrightarrow> strip_padding (s @ [61, 61]) = s"
    and "length s mod 4 = 3 \<Longrightarrow> strip_padding (s @ [61]) = s"
proof -
  have "\<not> ends_with s [61]" "\<not> ends_with s [61, 61]" "\<not> ends_with (s @ [61]) [61, 61]"
    using assms by (auto simp: ends_with_iff append_eq_append_conv2 Cons_eq_append_conv)
  moreover have "ends_with (s @ [61, 61]) [61, 61]" "ends_with (s @ [61]) [61]" by (auto simp: ends_with_iff)
  ultimately show "strip_padding s = s" "length s mod 4 = 2 \<Longrightarrow> strip_padding (s @ [61, 61]) = s"
      "length s mod 4 = 3 \<Longrightarrow> strip_padding (s @ [61]) = s"
    unfolding strip_padding_def by (simp_all add: butlast_append mod_Suc)
qed

lemma atob_encode:
  assumes "are_bytes bytes"
  shows "atob (b64_encode bytes) = Some bytes"
proof -
  let ?s = "map b64_char (sextets bytes)" and ?n = "length bytes"
  note six = sextets_facts [OF assms]
  have plain: "\<not> ascii_space c \<and> c \<noteq> 61" if "c \<in> set ?s" for c using that six(2) b64_char_facts by auto
  then have "filter (\<lambda>c. \<not> ascii_space c) ?s = ?s" by (simp add: filter_id_conv)
  then have kept: "filter (\<lambda>c. \<not> ascii_space c) (b64_encode bytes) = b64_encode bytes"
    by (simp add: b64_encode_def ascii_space_def)
  have len: "length ?s = (4 * ?n + 2) div 3" by (simp add: length_sextets)
  have eq: "61 \<notin> set ?s" using plain by blast
  have "?n mod 3 = 0 \<and> length ?s mod 4 = 0 \<or> ?n mod 3 = 1 \<and> length ?s mod 4 = 2 \<or> ?n mod 3 = 2 \<and> length ?s mod 4 = 3"
    unfolding len by presburger
  then have "strip_padding (b64_encode bytes) = ?s" "length ?s mod 4 \<noteq> 1"
    using strip_padding_plain [OF eq] by (auto simp: b64_encode_def numeral_2_eq_2)
  then show ?thesis using kept b64_values_chars [OF six(2)] six(1) by (simp add: atob_def Let_def)
qed

lemma trim_encode:
  assumes "are_bytes bytes"
  shows "trim (b64_encode bytes) = b64_encode bytes"
  using sextets_facts(2) [OF assms] b64_char_facts(2)
  by (intro trim_no_space) (auto simp: b64_encode_def is_space_def)

lemma length_encode: "length (b64_encode bytes) = (length bytes + 2) div 3 * 4"
proof -
  have "(4 * n + 2) div 3 + (3 - n mod 3) mod 3 = (n + 2) div 3 * 4" for n :: nat
  proof -
    define k where "k = n div 3"
    have "n = 3 * k + n mod 3" "n mod 3 < 3" by (simp_all add: k_def)
    then consider "n mod 3 = 0" "n = 3 * k" | "n mod 3 = 1" "n = 3 * k + 1" | "n mod 3 = 2" "n = 3 * k + 2" by linarith
    then show ?thesis
    proof cases
      case 1
      then have "(4 * n + 2) div 3 = 4 * k" "(n + 2) div 3 = k" by (intro div_nat_eqI; simp)+
      then show ?thesis using 1 by simp
    next
      case 2
      then have "(4 * n + 2) div 3 = 4 * k + 2" "(n + 2) div 3 = k + 1" by (intro div_nat_eqI; simp)+
      then show ?thesis using 2 by simp
    next
      case 3
      then have "(4 * n + 2) div 3 = 4 * k + 3" "(n + 2) div 3 = k + 1" by (intro div_nat_eqI; simp)+
      then show ?thesis using 3 by simp
    qed
  qed
  then show ?thesis unfolding b64_encode_def length_append length_map length_sextets length_replicate .
qed

lemma base64_blob:
  assumes "are_bytes bytes" and "bytes \<noteq> []" and "(length bytes + 2) div 3 \<le> (DRAWING_IMAGE_BYTES + 2) div 3"
  shows "drawingBase64Blob (b64_encode bytes) = Inr \<lparr>blob_type = sniff_type bytes, blob_bytes = bytes\<rparr>"
  using assms by (simp add: drawingBase64Blob_def trim_encode atob_encode length_encode)



lemma length_b64_bytes: "length (b64_bytes vs) \<le> 3 * length vs div 4"
  by (induction vs rule: b64_bytes.induct) auto

lemma length_b64_values: "b64_values s = Some vs \<Longrightarrow> length vs = length s"
  by (induction s arbitrary: vs) (auto split: option.splits)

lemma length_strip_padding: "length (strip_padding s) \<le> length s"
  by (simp add: strip_padding_def)

lemma length_atob:
  assumes "atob s = Some binary"
  shows "length binary \<le> 3 * length s div 4"
proof -
  let ?d = "strip_padding (filter (\<lambda>c. \<not> ascii_space c) s)"
  obtain vs where vs: "b64_values ?d = Some vs" "binary = b64_bytes vs"
    using assms by (auto simp: atob_def Let_def split: if_splits option.splits)
  have "length ?d \<le> length s"
    by (rule le_trans [OF length_strip_padding length_filter_le])
  then have "3 * length vs div 4 \<le> 3 * length s div 4"
    unfolding length_b64_values [OF vs(1)] by (intro div_le_mono mult_le_mono2)
  with length_b64_bytes [of vs] show ?thesis unfolding vs(2) by (rule le_trans)
qed

lemma base64_blob_bounds:
  "(\<forall>v b. drawingBase64Blob v = Inr b \<longrightarrow>
      0 < blob_size b \<and> blob_size b \<le> DRAWING_IMAGE_BYTES + 1 \<and> blob_type b \<in> set rasterTypes) \<and>
   (\<exists>v b. drawingBase64Blob v = Inr b \<and> blob_size b = DRAWING_IMAGE_BYTES + 1)"
proof (intro conjI allI impI)
  fix v b
  assume "drawingBase64Blob v = Inr b"
  then obtain binary where b: "length v \<le> (DRAWING_IMAGE_BYTES + 2) div 3 * 4" "atob (trim v) = Some binary" "binary \<noteq> []"
      "b = \<lparr>blob_type = sniff_type binary, blob_bytes = binary\<rparr>"
    by (auto simp: drawingBase64Blob_def split: if_splits option.splits)
  have "3 * length (trim v) div 4 \<le> 3 * ((DRAWING_IMAGE_BYTES + 2) div 3 * 4) div 4"
    using length_trim [of v] b(1) by (intro div_le_mono mult_le_mono) auto
  also have "\<dots> \<le> DRAWING_IMAGE_BYTES + 1" by (simp add: DRAWING_IMAGE_BYTES_def)
  finally show "blob_size b \<le> DRAWING_IMAGE_BYTES + 1"
    using length_atob [OF b(2)] b(4) by (simp add: blob_size_def)
  show "0 < blob_size b" using b(3,4) by (simp add: blob_size_def)
  show "blob_type b \<in> set rasterTypes" using b(4) by (simp add: sniff_type_def rasterTypes_def)
next
  let ?bytes = "replicate (DRAWING_IMAGE_BYTES + 1) (0 :: int)"
  have "are_bytes ?bytes" "?bytes \<noteq> []" by (auto simp: are_bytes_def)
  moreover have "(length ?bytes + 2) div 3 \<le> (DRAWING_IMAGE_BYTES + 2) div 3" by (simp add: DRAWING_IMAGE_BYTES_def)
  ultimately have "drawingBase64Blob (b64_encode ?bytes) = Inr \<lparr>blob_type = sniff_type ?bytes, blob_bytes = ?bytes\<rparr>"
    by (rule base64_blob)
  then show "\<exists>v b. drawingBase64Blob v = Inr b \<and> blob_size b = DRAWING_IMAGE_BYTES + 1"
    by (intro exI conjI) (assumption, simp add: blob_size_def)
qed

text \<open>A decoded image is never empty and has a raster type; the check of the encoded length admits up to one byte
  more than the 32 MB a drawing may have in the cache, and one such image is admitted.\<close>

lemma base64_image_bounds:
  "blob_size ` {b. Inr b \<in> range drawingBase64Blob} \<subseteq> {1..DRAWING_IMAGE_BYTES + 1} \<and>
   DRAWING_IMAGE_BYTES + 1 \<in> blob_size ` {b. Inr b \<in> range drawingBase64Blob} \<and>
   blob_type ` {b. Inr b \<in> range drawingBase64Blob} \<subseteq> set rasterTypes"
proof (intro conjI subsetI)
  show "DRAWING_IMAGE_BYTES + 1 \<in> blob_size ` {b. Inr b \<in> range drawingBase64Blob}"
    using base64_blob_bounds by (metis (mono_tags, lifting) image_eqI mem_Collect_eq rangeI)
qed (use base64_blob_bounds in \<open>auto simp: Suc_le_eq\<close>)

section \<open>Downloaded images\<close>

lemma read_chunks_bounds:
  assumes "read_chunks chunks stop got = Inr bytes" and "length got \<le> DRAWING_IMAGE_BYTES"
  shows "length bytes \<le> DRAWING_IMAGE_BYTES \<and> bytes = got @ concat chunks \<and> stop = Stream_done"
  using assms
proof (induction chunks arbitrary: got)
  case Nil
  then show ?case by (cases stop) auto
next
  case (Cons chunk chunks)
  then have "read_chunks chunks stop (got @ chunk) = Inr bytes" "length (got @ chunk) \<le> DRAWING_IMAGE_BYTES"
    by (auto split: if_splits)
  from Cons.IH [OF this] show ?case by auto
qed

text \<open>C24: An image is downloaded only from an https address without credentials, the only address requested, and what
  is kept is the whole body of a successful response with a raster type, of one byte to 32 MB.\<close>

theorem downloaded_image_checked:
  assumes "fetchDrawingBlob parse fetch source = (res, requested)"
  shows "(\<forall>url \<in> set requested. \<exists>u. parse source = Some u \<and> url = url_href u \<and> url_protocol_of u = js ''https:'' \<and>
      url_username u = [] \<and> url_password u = []) \<and> length requested \<le> 1 \<and>
    (\<forall>b. res = Inr b \<longrightarrow> 0 < blob_size b \<and> blob_size b \<le> DRAWING_IMAGE_BYTES \<and> blob_type b \<in> set rasterTypes \<and>
      (\<exists>url response chunks. requested = [url] \<and> fetch url = Some response \<and> response_ok response \<and>
         response_body response = Some (chunks, Stream_done) \<and> blob_bytes b = concat chunks))"
proof -
  have body: "0 < blob_size b \<and> blob_size b \<le> DRAWING_IMAGE_BYTES \<and> blob_type b \<in> set rasterTypes \<and> response_ok response \<and>
      (\<exists>chunks. response_body response = Some (chunks, Stream_done) \<and> blob_bytes b = concat chunks)"
    if "read_response response = Inr b" for response b
    using that
    by (auto simp: read_response_def res_simps blob_size_def split: option.splits if_splits prod.splits
        dest!: read_chunks_bounds)
  show ?thesis
  proof (cases "safeDrawingURL parse (Some source)")
    case None
    then show ?thesis using assms by (auto simp: fetchDrawingBlob_def)
  next
    case (Some url)
    then have "\<exists>u. parse source = Some u \<and> url = url_href u \<and> url_protocol_of u = js ''https:'' \<and>
        url_username u = [] \<and> url_password u = []"
      by (auto simp: safeDrawingURL_def split: if_splits option.splits)
    then show ?thesis using assms Some body by (auto simp: fetchDrawingBlob_def split: option.splits)
  qed
qed

theorem downloaded_image_checked_witness:
  "\<exists>b. fetchDrawingBlob (\<lambda>t. Some \<lparr>url_protocol_of = js ''https:'', url_username = [], url_password = [], url_href = t\<rparr>)
       (\<lambda>_. Some \<lparr>response_ok = True, content_type = Some (js ''Image/PNG; q=1''), content_length = None,
          response_body = Some ([[1, 2], [3]], Stream_done)\<rparr>) (js ''https://img'') = (Inr b, [js ''https://img'']) \<and>
     blob_type b \<in> set rasterTypes \<and> blob_size b \<le> DRAWING_IMAGE_BYTES"
proof -
  let ?parse = "\<lambda>t. Some \<lparr>url_protocol_of = js ''https:'', url_username = [], url_password = [], url_href = t\<rparr>"
  let ?fetch = "\<lambda>_ :: jsstr. Some \<lparr>response_ok = True, content_type = Some (js ''Image/PNG; q=1''), content_length = None,
    response_body = Some ([[1, 2], [3]], Stream_done)\<rparr>"
  have m: "media_type (js ''Image/PNG; q=1'') = js ''image/png''" by code_simp
  have "js ''image/png'' \<noteq> []" "js ''https://img'' \<noteq> []" by simp_all
  then have run: "fetchDrawingBlob ?parse ?fetch (js ''https://img'') =
      (Inr \<lparr>blob_type = js ''image/png'', blob_bytes = [1, 2, 3]\<rparr>, [js ''https://img''])"
    by (simp add: fetchDrawingBlob_def safeDrawingURL_def read_response_def m rasterTypes_def DRAWING_IMAGE_BYTES_def num_gt_def)
  show ?thesis using downloaded_image_checked [OF run] run by blast
qed

section \<open>Access to drawing\<close>

text \<open>Drawing in the web page needs a grant of the server and a balance of ten dollars; the wallet alone never grants it.\<close>

lemma web_access_granted:
  "access_allowed (resolveDrawingWebAccess access quota quotaPerUSD) \<longleftrightarrow>
     get_prop access (js ''allowed'') = Bool True \<and>
     (\<exists>b. get_prop access (js ''balance_usd'') = Number b \<and> is_finite b \<and> num_ge b (Num 10))"
  by (cases access) (auto simp: resolveDrawingWebAccess_def WEB_DRAWING_MINIMUM_USD_def val_is_finite_def num_of_def Let_def
      split: jsval.splits option.splits)

end
