(* ===== verification/DrawingTasks.thy ===== *)
theory DrawingTasks
  imports WebStorage
begin

text \<open>
  Drafts and active generations of the drawing page, \<open>features/drawing/drawing-task-state.ts\<close>.

  The module keeps its state in variables of its own: the fallback storage, the active task of each user, and for each
  user the set of listeners. A listener set is an object that the functions returned by \<open>subscribeActiveDrawingTask\<close>
  keep a reference to, so sets have addresses (\<open>listener_sets\<close>) and the map holds the address. \<open>delivered\<close> is the log
  of the calls of listeners, whose exceptions are swallowed. A user id is a safe integer. Of a task, the abort
  controller and the promise are left out.
\<close>

section \<open>Storage\<close>

datatype task_status = Task_generating | Task_stopped | Task_failed | Task_completed

record ActiveDrawingTask =
  task_id :: jsstr
  task_userId :: int
  task_prompt :: jsstr
  task_group :: jsstr
  task_model :: jsstr
  task_size :: "jsstr option"
  task_quality :: "jsstr option"
  task_count :: jsstr
  task_referenceCount :: nat
  task_startedAt :: int
  task_status_of :: task_status
  task_waitingStopped :: bool
  task_error :: "jsstr option"
  task_errorStatus :: "number option"

record task_module =
  window_storage :: "web_storage option"
  fallbackStorage :: "(jsstr \<times> jsstr) list"
  activeDrawingTasks :: "(int \<times> ActiveDrawingTask) list"
  listener_sets :: "nat list list"
  activeTaskListeners :: "(int \<times> nat) list"
  delivered :: "(nat \<times> ActiveDrawingTask option) list"

definition storage_get :: "task_module \<Rightarrow> jsstr \<Rightarrow> jsstr option" where
  "storage_get m k = (case window_storage m of Some st \<Rightarrow> getItem st k | None \<Rightarrow> map_of (fallbackStorage m) k)"

definition storage_put :: "task_module \<Rightarrow> jsstr \<Rightarrow> jsstr \<Rightarrow> storage_error + task_module" where
  "storage_put m k v =
     (case window_storage m of
        Some st \<Rightarrow> andThen (setItem st k v) (\<lambda>st'. Inr (m\<lparr>window_storage := Some st'\<rparr>))
      | None \<Rightarrow> Inr (m\<lparr>fallbackStorage := map_put k v (fallbackStorage m)\<rparr>))"

section \<open>Drafts\<close>

text \<open>A draft is the object the code builds: its own properties in order, possibly \<open>undefined\<close>.\<close>

definition getStorageKey :: "int \<Rightarrow> jsstr" where
  "getStorageKey userId = js ''lmm_drawing_draft_'' @ number_to_string (Num (of_int userId))"

definition draft_options :: "jsstr list" where
  "draft_options = [js ''group'', js ''model'', js ''size'', js ''quality'', js ''count'']"

definition string_or :: "jsval \<Rightarrow> jsval \<Rightarrow> jsval" where
  "string_or v d = (if is_Str v then v else d)"

definition getDrawingDraft :: "int \<Rightarrow> task_module \<Rightarrow> (jsstr \<times> jsval) list" where
  "getDrawingDraft userId m =
     (case storage_get m (getStorageKey userId) of
        None \<Rightarrow> [(js ''prompt'', Str [])]
      | Some raw \<Rightarrow>
          if raw = [] then [(js ''prompt'', Str [])]
          else (case json_parse raw of
              None \<Rightarrow> [(js ''prompt'', Str [])]
            | Some Null \<Rightarrow> [(js ''prompt'', Str [])]
            | Some parsed \<Rightarrow>
                (js ''prompt'', string_or (get_prop parsed (js ''prompt'')) (Str [])) #
                map (\<lambda>k. (k, string_or (get_prop parsed k) Undefined)) draft_options))"

definition write_draft :: "int \<Rightarrow> (jsstr \<times> jsval) list \<Rightarrow> task_module \<Rightarrow> task_module" where
  "write_draft userId draft m =
     (case json_stringify (Obj draft) of None \<Rightarrow> m
      | Some text \<Rightarrow> (case storage_put m (getStorageKey userId) text of Inl _ \<Rightarrow> m | Inr m' \<Rightarrow> m'))"

definition saveDrawingDraft :: "int \<Rightarrow> (jsstr \<times> jsval) list \<Rightarrow> task_module \<Rightarrow> task_module" where
  "saveDrawingDraft userId patch m =
     write_draft userId (foldl (\<lambda>o' (k, v). map_put k v o') (getDrawingDraft userId m) patch) m"

definition clearDrawingPromptDraft :: "int \<Rightarrow> task_module \<Rightarrow> task_module" where
  "clearDrawingPromptDraft userId m =
     write_draft userId (map_put (js ''prompt'') (Str []) (getDrawingDraft userId m)) m"

definition MINIGAME_KEY :: jsstr where
  "MINIGAME_KEY = js ''lmm_drawing_minigame_enabled''"

definition getDrawingMinigamePref :: "task_module \<Rightarrow> bool" where
  "getDrawingMinigamePref m \<longleftrightarrow> storage_get m MINIGAME_KEY \<noteq> Some (js ''false'')"

definition setDrawingMinigamePref :: "bool \<Rightarrow> task_module \<Rightarrow> task_module" where
  "setDrawingMinigamePref enabled m =
     (case storage_put m MINIGAME_KEY (if enabled then js ''true'' else js ''false'') of Inl _ \<Rightarrow> m | Inr m' \<Rightarrow> m')"

section \<open>Active tasks and their listeners\<close>

definition getActiveDrawingTask :: "int \<Rightarrow> task_module \<Rightarrow> ActiveDrawingTask option" where
  "getActiveDrawingTask userId m = map_of (activeDrawingTasks m) userId"

definition notifyListeners :: "int \<Rightarrow> task_module \<Rightarrow> task_module" where
  "notifyListeners userId m =
     (case map_of (activeTaskListeners m) userId of None \<Rightarrow> m
      | Some addr \<Rightarrow>
          m\<lparr>delivered := delivered m @ map (\<lambda>l. (l, getActiveDrawingTask userId m)) (listener_sets m ! addr)\<rparr>)"

definition registerActiveDrawingTask :: "ActiveDrawingTask \<Rightarrow> task_module \<Rightarrow> task_module" where
  "registerActiveDrawingTask task m =
     notifyListeners (task_userId task)
       (m\<lparr>activeDrawingTasks := map_put (task_userId task) task (activeDrawingTasks m)\<rparr>)"

text \<open>The fields that callers patch.\<close>

datatype task_field =
    Set_status task_status
  | Set_waitingStopped bool
  | Set_error "jsstr option"
  | Set_errorStatus "number option"

fun patch_task :: "task_field \<Rightarrow> ActiveDrawingTask \<Rightarrow> ActiveDrawingTask" where
  "patch_task (Set_status s) t = t\<lparr>task_status_of := s\<rparr>"
| "patch_task (Set_waitingStopped b) t = t\<lparr>task_waitingStopped := b\<rparr>"
| "patch_task (Set_error e) t = t\<lparr>task_error := e\<rparr>"
| "patch_task (Set_errorStatus n) t = t\<lparr>task_errorStatus := n\<rparr>"

definition updateActiveDrawingTask :: "int \<Rightarrow> task_field list \<Rightarrow> task_module \<Rightarrow> task_module" where
  "updateActiveDrawingTask userId patch m =
     (case getActiveDrawingTask userId m of None \<Rightarrow> m
      | Some existing \<Rightarrow>
          notifyListeners userId
            (m\<lparr>activeDrawingTasks := map_put userId (foldl (\<lambda>t f. patch_task f t) existing patch) (activeDrawingTasks m)\<rparr>))"

definition clearActiveDrawingTask :: "int \<Rightarrow> jsstr option \<Rightarrow> task_module \<Rightarrow> task_module" where
  "clearActiveDrawingTask userId taskId m =
     (case getActiveDrawingTask userId m of None \<Rightarrow> m
      | Some existing \<Rightarrow>
          if (case taskId of Some t \<Rightarrow> t \<noteq> [] \<and> task_id existing \<noteq> t | None \<Rightarrow> False) then m
          else notifyListeners userId (m\<lparr>activeDrawingTasks := map_del userId (activeDrawingTasks m)\<rparr>))"

text \<open>Subscribing returns the address of the set the listener was added to, which unsubscribing uses.\<close>

definition subscribeActiveDrawingTask :: "int \<Rightarrow> nat \<Rightarrow> task_module \<Rightarrow> nat \<times> task_module" where
  "subscribeActiveDrawingTask userId listener m =
     (case map_of (activeTaskListeners m) userId of
        Some addr \<Rightarrow> (addr, m\<lparr>listener_sets := (listener_sets m)[addr := set_add (listener_sets m ! addr) listener]\<rparr>)
      | None \<Rightarrow>
          let addr = length (listener_sets m)
          in (addr, m\<lparr>listener_sets := listener_sets m @ [[listener]],
                activeTaskListeners := map_put userId addr (activeTaskListeners m)\<rparr>))"

definition unsubscribe :: "int \<Rightarrow> nat \<Rightarrow> nat \<Rightarrow> task_module \<Rightarrow> task_module" where
  "unsubscribe userId addr listener m =
     (let left = removeAll listener (listener_sets m ! addr); m' = m\<lparr>listener_sets := (listener_sets m)[addr := left]\<rparr>
      in if left = [] then m'\<lparr>activeTaskListeners := map_del userId (activeTaskListeners m)\<rparr> else m')"

definition resetDrawingTaskState :: "task_module \<Rightarrow> task_module" where
  "resetDrawingTaskState m =
     m\<lparr>activeDrawingTasks := [], activeTaskListeners := [], fallbackStorage := [],
       window_storage := map_option clear_storage (window_storage m)\<rparr>"

section \<open>Drafts are read back\<close>

interpretation drawing_storage: text_storage storage_get storage_put
  by unfold_locales
    (auto simp: storage_get_def storage_put_def res_simps local_storage.get_put split: option.splits if_splits)

lemma json_stringify_defined:
  "json_stringify (Obj ps) = json_stringify (Obj (filter (\<lambda>p. snd p \<noteq> Undefined) ps))"
proof -
  have some: "(\<exists>t. json_stringify v = Some t) \<longleftrightarrow> v \<noteq> Undefined" for v by (cases v) simp_all
  let ?t = "map (\<lambda>(k, x). (k, json_stringify x))"
  have own: "own_entries (filter (\<lambda>p. snd p \<noteq> None) qs) = filter (\<lambda>p. snd p \<noteq> None) (own_entries qs)" for qs :: "(jsstr \<times> jsstr option) list"
    by (simp add: own_entries_def filter_sort conj_commute)
  have flt: "filter (\<lambda>p. snd p \<noteq> None) (?t ps) = ?t (filter (\<lambda>p. snd p \<noteq> Undefined) ps)"
    by (induction ps) (auto simp: some)
  have mf: "List.map_filter (\<lambda>(k, t). map_option (\<lambda>u. (k, u)) t) (filter (\<lambda>p. snd p \<noteq> None) qs) =
      List.map_filter (\<lambda>(k, t). map_option (\<lambda>u. (k, u)) t) qs" for qs :: "(jsstr \<times> jsstr option) list"
    by (induction qs) (auto simp: List.map_filter_simps split: option.splits)
  show ?thesis unfolding json_stringify.simps flt [symmetric] own mf ..
qed

text \<open>The properties of a draft, and drafts and patches that hold texts JSON can carry.\<close>

definition draft_fields :: "jsstr list" where
  "draft_fields = js ''prompt'' # draft_options"

definition texts_only :: "(jsstr \<times> jsval) list \<Rightarrow> bool" where
  "texts_only ps \<longleftrightarrow> (\<forall>(k, v) \<in> set ps. k \<in> set draft_fields \<and> (v = Undefined \<or> (\<exists>s. v = Str s \<and> json_value v)))"

definition field_of :: "(jsstr \<times> jsval) list \<Rightarrow> jsstr \<Rightarrow> jsval" where
  "field_of ps k = string_or (get_prop (Obj ps) k) (if k = js ''prompt'' then Str [] else Undefined)"

lemma field_names:
  "distinct draft_fields" "list_all (\<lambda>k. array_index k = None \<and> list_all (\<lambda>c. 0 \<le> c \<and> c < 65536) k) draft_fields"
  by (simp_all add: draft_fields_def draft_options_def, code_simp+)

lemma getDrawingDraft_fields:
  "map fst (getDrawingDraft u m) = draft_fields \<or> map fst (getDrawingDraft u m) = [js ''prompt'']"
  by (auto simp: getDrawingDraft_def draft_fields_def comp_def split: option.splits jsval.splits)

lemma patched_lookup:
  "get_prop (Obj (foldl (\<lambda>o' (k, v). map_put k v o') ps patch)) k =
     (case map_of (rev patch) k of Some v \<Rightarrow> v | None \<Rightarrow> get_prop (Obj ps) k)"
proof (induction patch arbitrary: ps)
  case (Cons p patch)
  obtain k' v' where p: "p = (k', v')" by fastforce
  show ?case using Cons.IH [of "map_put k' v' ps"] by (auto simp: p map_of_append map_add_def split: option.splits)
qed simp

lemma defined_lookup:
  assumes "distinct (map fst ps)"
  shows "get_prop (Obj (filter (\<lambda>p. snd p \<noteq> Undefined) ps)) k = get_prop (Obj ps) k"
  using assms
proof (induction ps)
  case (Cons p ps)
  have "map_of (filter (\<lambda>p. snd p \<noteq> Undefined) ps) (fst p) = None"
    using Cons.prems by (auto simp: map_of_eq_None_iff)
  then show ?case using Cons by (cases p) auto
qed simp

lemma texts_only_patched:
  assumes "texts_only ps" and "texts_only patch"
  shows "texts_only (foldl (\<lambda>o' (k, v). map_put k v o') ps patch)"
proof -
  have put: "set (map_put k v qs) \<subseteq> insert (k, v) (set qs)" for k :: jsstr and v :: jsval and qs
    by (induction k v qs rule: map_put.induct) auto
  show ?thesis using assms
  proof (induction patch arbitrary: ps)
    case (Cons p patch)
    obtain k v where p: "p = (k, v)" by fastforce
    have "texts_only (map_put k v ps)" using Cons.prems put [of k v ps] unfolding texts_only_def p by auto
    then show ?case using Cons.IH [of "map_put k v ps"] Cons.prems by (simp add: p texts_only_def)
  qed simp
qed

lemma distinct_patched: "distinct (map fst ps) \<Longrightarrow> distinct (map fst (foldl (\<lambda>o' (k, v). map_put k v o') ps patch))"
  by (induction patch arbitrary: ps) auto

text \<open>Writing a draft either fails and changes nothing, or is read back, and leaves the rest of the storage alone.\<close>

lemma write_draft_read:
  assumes "texts_only ps" and "distinct (map fst ps)" and "write_draft u ps m = m'"
  shows "m' = m \<and> (\<exists>text e. storage_put m (getStorageKey u) text = Inl e) \<or>
    getDrawingDraft u m' = map (\<lambda>k. (k, field_of ps k)) draft_fields \<and>
    (\<forall>k. k \<noteq> getStorageKey u \<longrightarrow> storage_get m' k = storage_get m k)"
proof -
  let ?d = "filter (\<lambda>p. snd p \<noteq> Undefined) ps"
  have v: "json_value (Obj ?d)"
    using assms(1,2) field_names(2) by (auto simp: texts_only_def list_all_iff distinct_map_filter)
  have written: "json_stringify (Obj ps) = Some (json_text (Obj ?d))"
    unfolding json_stringify_defined [of ps] by (rule json_round_trip(1) [OF v])
  show ?thesis
  proof (cases "storage_put m (getStorageKey u) (json_text (Obj ?d))")
    case (Inl e)
    then show ?thesis using assms(3) written by (auto simp: write_draft_def)
  next
    case (Inr m1)
    then have m1: "m' = m1" using assms(3) written by (simp add: write_draft_def)
    have got: "storage_get m1 (getStorageKey u) = Some (json_text (Obj ?d))" by (rule drawing_storage.get_written [OF Inr])
    have "json_text (Obj ?d) \<noteq> []" unfolding json_text_Obj [OF v] by simp
    then have "getDrawingDraft u m1 = map (\<lambda>k. (k, field_of ps k)) draft_fields"
      unfolding getDrawingDraft_def got option.case json_round_trip(2) [OF v] defined_lookup [OF assms(2)] jsval.case
      by (simp add: draft_fields_def field_of_def draft_options_def)
    then show ?thesis using m1 drawing_storage.get_elsewhere [OF Inr] by blast
  qed
qed

lemma getStorageKey_inject:
  assumes "getStorageKey u = getStorageKey u'" and "round64 (of_int u) = Num (of_int u)" "round64 (of_int u') = Num (of_int u')"
  shows "u = u'"
proof -
  have "number_to_string (Num (of_int u)) = number_to_string (Num (of_int u'))" using assms(1) by (simp add: getStorageKey_def)
  then have "Num (of_int u) = Num (of_int u')" using number_round_trip assms(2,3) by metis
  then show ?thesis by simp
qed

lemma field_of_texts:
  assumes "texts_only ps"
  shows "field_of ps k = Undefined \<or> (\<exists>s. field_of ps k = Str s \<and> json_value (field_of ps k))"
  using assms
  by (auto simp: field_of_def texts_only_def string_or_def split: option.splits dest!: map_of_SomeD)

text \<open>Saving a patch of a draft keeps what it does not name and sets what it does, as the next visit of the page reads
  it; drafts of other users stay as they are. Where the storage refuses to write, nothing changes.\<close>

lemma draft_patch_is_read_back:
  assumes "texts_only (getDrawingDraft u m)" and "texts_only patch"
    and "round64 (of_int u) = Num (of_int u)" and "round64 (of_int u') = Num (of_int u')"
  shows "saveDrawingDraft u patch m = m \<and> (\<exists>text e. storage_put m (getStorageKey u) text = Inl e) \<or>
    (\<forall>k \<in> set draft_fields. field_of (getDrawingDraft u (saveDrawingDraft u patch m)) k =
       string_or (case map_of (rev patch) k of Some v \<Rightarrow> v | None \<Rightarrow> field_of (getDrawingDraft u m) k)
         (if k = js ''prompt'' then Str [] else Undefined)) \<and>
    texts_only (getDrawingDraft u (saveDrawingDraft u patch m)) \<and>
    (u' \<noteq> u \<longrightarrow> getDrawingDraft u' (saveDrawingDraft u patch m) = getDrawingDraft u' m)"
proof -
  let ?old = "getDrawingDraft u m" and ?m = "saveDrawingDraft u patch m"
  let ?ps = "foldl (\<lambda>o' (k, v). map_put k v o') ?old patch"
  have "distinct (map fst ?old)" using getDrawingDraft_fields [of u m] field_names(1) by auto
  note written = write_draft_read [OF texts_only_patched [OF assms(1,2)] distinct_patched [OF this] refl, of u m,
    folded saveDrawingDraft_def]
  show ?thesis
  proof (cases "?m = m \<and> (\<exists>text e. storage_put m (getStorageKey u) text = Inl e)")
    case False
    then have new: "getDrawingDraft u ?m = map (\<lambda>k. (k, field_of ?ps k)) draft_fields"
        and others: "\<forall>k. k \<noteq> getStorageKey u \<longrightarrow> storage_get ?m k = storage_get m k"
      using written by blast+
    have "field_of (getDrawingDraft u ?m) k =
        string_or (case map_of (rev patch) k of Some v \<Rightarrow> v | None \<Rightarrow> field_of ?old k)
          (if k = js ''prompt'' then Str [] else Undefined)" if "k \<in> set draft_fields" for k
    proof -
      let ?d = "if k = js ''prompt'' then Str [] else Undefined"
      have idem: "string_or (string_or v ?d) ?d = string_or v ?d" for v by (simp add: string_or_def)
      have "get_prop (Obj (getDrawingDraft u ?m)) k = field_of ?ps k"
        using that unfolding new by (simp add: map_of_map_restrict restrict_map_def)
      then have "field_of (getDrawingDraft u ?m) k = string_or (get_prop (Obj ?ps) k) ?d"
        by (simp only: field_of_def idem)
      then show ?thesis unfolding patched_lookup by (cases "map_of (rev patch) k") (simp_all only: option.case field_of_def idem)
    qed
    moreover have "texts_only (getDrawingDraft u ?m)"
      using field_of_texts [OF texts_only_patched [OF assms(1,2)]] unfolding new texts_only_def by auto
    moreover have "getDrawingDraft u' ?m = getDrawingDraft u' m" if "u' \<noteq> u"
    proof -
      have "getStorageKey u' \<noteq> getStorageKey u" using getStorageKey_inject [OF _ assms(4,3)] that by blast
      then have "storage_get ?m (getStorageKey u') = storage_get m (getStorageKey u')" using others by blast
      then show ?thesis by (simp only: getDrawingDraft_def)
    qed
    ultimately show ?thesis by blast
  qed simp
qed

section \<open>Subscribers are told\<close>

text \<open>
  What the page may do: a handle is what a subscriber has to unsubscribe with, and the second argument is the set of
  those not used yet. A listener is a function made for the subscription, so it is in no other.
\<close>

type_synonym handle = "int \<times> nat \<times> nat"

inductive task_reach :: "task_module \<Rightarrow> handle set \<Rightarrow> bool" where
  start: "task_reach \<lparr>window_storage = st, fallbackStorage = [], activeDrawingTasks = [], listener_sets = [],
    activeTaskListeners = [], delivered = []\<rparr> {}"
| register: "task_reach m live \<Longrightarrow> task_reach (registerActiveDrawingTask task m) live"
| update: "task_reach m live \<Longrightarrow> task_reach (updateActiveDrawingTask u patch m) live"
| clear: "task_reach m live \<Longrightarrow> task_reach (clearActiveDrawingTask u taskId m) live"
| draft: "task_reach m live \<Longrightarrow> task_reach (saveDrawingDraft u ps m) live"
| clear_draft: "task_reach m live \<Longrightarrow> task_reach (clearDrawingPromptDraft u m) live"
| minigame: "task_reach m live \<Longrightarrow> task_reach (setDrawingMinigamePref b m) live"
| subscribe: "task_reach m live \<Longrightarrow> (\<And>u' addr. (u', addr, l) \<notin> live) \<Longrightarrow> subscribeActiveDrawingTask u l m = (addr, m') \<Longrightarrow>
    task_reach m' (insert (u, addr, l) live)"
| unsubscribe: "task_reach m live \<Longrightarrow> (u, addr, l) \<in> live \<Longrightarrow> task_reach (unsubscribe u addr l m) (live - {(u, addr, l)})"

definition listeners_ok :: "task_module \<Rightarrow> handle set \<Rightarrow> bool" where
  "listeners_ok m live \<longleftrightarrow>
     (\<forall>u addr. map_of (activeTaskListeners m) u = Some addr \<longrightarrow>
        addr < length (listener_sets m) \<and> listener_sets m ! addr \<noteq> [] \<and> distinct (listener_sets m ! addr) \<and>
        set (listener_sets m ! addr) = {l. (u, addr, l) \<in> live} \<and>
        (\<forall>u'. map_of (activeTaskListeners m) u' = Some addr \<longrightarrow> u' = u)) \<and>
     (\<forall>u addr l. (u, addr, l) \<in> live \<longrightarrow> map_of (activeTaskListeners m) u = Some addr)"

lemma listeners_ok_cong:
  "listener_sets m' = listener_sets m \<Longrightarrow> activeTaskListeners m' = activeTaskListeners m \<Longrightarrow>
   listeners_ok m' live \<longleftrightarrow> listeners_ok m live"
  by (simp add: listeners_ok_def)

lemma listeners_kept [simp]:
  "listener_sets (notifyListeners u m) = listener_sets m" "activeTaskListeners (notifyListeners u m) = activeTaskListeners m"
  "listener_sets (registerActiveDrawingTask task m) = listener_sets m"
  "activeTaskListeners (registerActiveDrawingTask task m) = activeTaskListeners m"
  "listener_sets (updateActiveDrawingTask u patch m) = listener_sets m"
  "activeTaskListeners (updateActiveDrawingTask u patch m) = activeTaskListeners m"
  "listener_sets (clearActiveDrawingTask u taskId m) = listener_sets m"
  "activeTaskListeners (clearActiveDrawingTask u taskId m) = activeTaskListeners m"
proof -
  show notify: "listener_sets (notifyListeners u m) = listener_sets m"
      "activeTaskListeners (notifyListeners u m) = activeTaskListeners m" for u m
    by (simp_all add: notifyListeners_def split: option.splits)
  show "listener_sets (registerActiveDrawingTask task m) = listener_sets m"
    "activeTaskListeners (registerActiveDrawingTask task m) = activeTaskListeners m"
    "listener_sets (updateActiveDrawingTask u patch m) = listener_sets m"
    "activeTaskListeners (updateActiveDrawingTask u patch m) = activeTaskListeners m"
    "listener_sets (clearActiveDrawingTask u taskId m) = listener_sets m"
    "activeTaskListeners (clearActiveDrawingTask u taskId m) = activeTaskListeners m"
    by (simp_all add: registerActiveDrawingTask_def updateActiveDrawingTask_def clearActiveDrawingTask_def notify
        split: option.splits)
qed

lemma storage_put_listeners:
  "storage_put m k v = Inr m' \<Longrightarrow> listener_sets m' = listener_sets m \<and> activeTaskListeners m' = activeTaskListeners m"
  by (auto simp: storage_put_def res_simps split: option.splits)

lemma drafts_keep_listeners [simp]:
  "listener_sets (saveDrawingDraft u ps m) = listener_sets m" "activeTaskListeners (saveDrawingDraft u ps m) = activeTaskListeners m"
  "listener_sets (clearDrawingPromptDraft u m) = listener_sets m"
  "activeTaskListeners (clearDrawingPromptDraft u m) = activeTaskListeners m"
  "listener_sets (setDrawingMinigamePref b m) = listener_sets m"
  "activeTaskListeners (setDrawingMinigamePref b m) = activeTaskListeners m"
  using storage_put_listeners
  by (auto simp: saveDrawingDraft_def clearDrawingPromptDraft_def setDrawingMinigamePref_def write_draft_def
      split: option.splits sum.splits)

lemma listeners_okD:
  assumes "listeners_ok m live" and "map_of (activeTaskListeners m) u = Some addr"
  shows "addr < length (listener_sets m)" "listener_sets m ! addr \<noteq> []" "distinct (listener_sets m ! addr)"
    "set (listener_sets m ! addr) = {l. (u, addr, l) \<in> live}"
    "\<And>u'. map_of (activeTaskListeners m) u' = Some addr \<Longrightarrow> u' = u"
  using assms unfolding listeners_ok_def by auto

lemma live_registered: "listeners_ok m live \<Longrightarrow> (u, addr, l) \<in> live \<Longrightarrow> map_of (activeTaskListeners m) u = Some addr"
  unfolding listeners_ok_def by blast

lemma subscribe_ok:
  assumes ok: "listeners_ok m live" and new: "\<And>u' addr. (u', addr, l) \<notin> live" and "subscribeActiveDrawingTask u l m = (addr, m')"
  shows "listeners_ok m' (insert (u, addr, l) live)"
proof (cases "map_of (activeTaskListeners m) u")
  case None
  then have addr: "addr = length (listener_sets m)" and sets: "listener_sets m' = listener_sets m @ [[l]]"
      and look: "\<And>v. map_of (activeTaskListeners m') v = (if v = u then Some addr else map_of (activeTaskListeners m) v)"
    using assms(3) by (auto simp: subscribeActiveDrawingTask_def Let_def)
  have none: "(u, a, k) \<notin> live" for a k using live_registered [OF ok] None by fastforce
  show ?thesis unfolding listeners_ok_def
  proof (intro conjI allI impI)
    fix v a
    assume a: "map_of (activeTaskListeners m') v = Some a"
    have old: "a < addr" if "v \<noteq> u" using that a listeners_okD(1) [OF ok, of v a] by (simp add: look addr)
    then have le: "a < addr \<or> a = addr \<and> v = u" using a look [of v] by (cases "v = u") auto
    then show "a < length (listener_sets m')" using sets addr by auto
    show "listener_sets m' ! a \<noteq> []" "distinct (listener_sets m' ! a)"
      using a le listeners_okD(2,3) [OF ok, of v a] by (auto simp: sets addr nth_append look split: if_splits)
    show "set (listener_sets m' ! a) = {k. (v, a, k) \<in> insert (u, addr, l) live}"
      using a le listeners_okD(4) [OF ok, of v a] none by (auto simp: sets addr nth_append look split: if_splits)
    fix v'
    assume "map_of (activeTaskListeners m') v' = Some a"
    then show "v' = v" using a le listeners_okD(1,5) [OF ok] by (fastforce simp: look addr split: if_splits)
  next
    fix v a k
    assume "(v, a, k) \<in> insert (u, addr, l) live"
    then show "map_of (activeTaskListeners m') v = Some a" using live_registered [OF ok, of v a k] none by (auto simp: look)
  qed
next
  case (Some a)
  then have addr: "addr = a" and sets: "listener_sets m' = (listener_sets m)[a := listener_sets m ! a @ [l]]"
      and look: "activeTaskListeners m' = activeTaskListeners m"
    using assms(3) listeners_okD(4) [OF ok Some] new by (auto simp: subscribeActiveDrawingTask_def set_add_def)
  note a = listeners_okD [OF ok Some]
  show ?thesis unfolding listeners_ok_def look
  proof (intro conjI allI impI)
    fix v b
    assume b: "map_of (activeTaskListeners m) v = Some b"
    have same: "b = a \<longleftrightarrow> v = u" using a(5) [of v] b Some by (cases "v = u") auto
    note old = listeners_okD [OF ok b]
    show "b < length (listener_sets m')" using old(1) sets by simp
    have here: "listener_sets m' ! b = (if v = u then listener_sets m ! a @ [l] else listener_sets m ! b)"
      using old(1) same by (cases "v = u") (simp_all add: sets nth_list_update)
    have "l \<notin> set (listener_sets m ! a)" unfolding a(4) using new by blast
    then show "listener_sets m' ! b \<noteq> []" "distinct (listener_sets m' ! b)"
      unfolding here using old(2,3) a(3) by simp_all
    show "set (listener_sets m' ! b) = {k. (v, b, k) \<in> insert (u, addr, l) live}"
      unfolding here using old(4) a(4) same addr by (cases "v = u") auto
    show "v' = v" if "map_of (activeTaskListeners m) v' = Some b" for v' using old(5) that .
  next
    fix v b k
    assume "(v, b, k) \<in> insert (u, addr, l) live"
    then show "map_of (activeTaskListeners m) v = Some b" using live_registered [OF ok, of v b k] Some addr by auto
  qed
qed

lemma unsubscribe_ok:
  assumes ok: "listeners_ok m live" and live: "(u, addr, l) \<in> live"
  shows "listeners_ok (unsubscribe u addr l m) (live - {(u, addr, l)})"
proof -
  let ?m = "unsubscribe u addr l m" and ?left = "removeAll l (listener_sets m ! addr)"
  have reg: "map_of (activeTaskListeners m) u = Some addr" by (rule live_registered [OF ok live])
  note a = listeners_okD [OF ok reg]
  have sets: "listener_sets ?m = (listener_sets m)[addr := ?left]" by (simp add: unsubscribe_def Let_def)
  have look: "map_of (activeTaskListeners ?m) v = (if v = u \<and> ?left = [] then None else map_of (activeTaskListeners m) v)" for v
    by (simp add: unsubscribe_def Let_def)
  have left: "set ?left = {k. (u, addr, k) \<in> live - {(u, addr, l)}}" using a(4) by auto
  show ?thesis unfolding listeners_ok_def
  proof (intro conjI allI impI)
    fix v b
    assume "map_of (activeTaskListeners ?m) v = Some b"
    then have b: "map_of (activeTaskListeners m) v = Some b" and keep: "v = u \<Longrightarrow> ?left \<noteq> []"
      by (auto simp: look split: if_splits)
    have same: "b = addr \<longleftrightarrow> v = u" using a(5) [of v] b reg by (cases "v = u") auto
    note old = listeners_okD [OF ok b]
    show "b < length (listener_sets ?m)" using old(1) sets by simp
    have here: "listener_sets ?m ! b = (if v = u then ?left else listener_sets m ! b)"
      using old(1) same by (cases "v = u") (simp_all add: sets nth_list_update)
    show "listener_sets ?m ! b \<noteq> []" "distinct (listener_sets ?m ! b)"
      unfolding here using old(2,3) a(3) keep by (simp_all add: distinct_removeAll)
    show "set (listener_sets ?m ! b) = {k. (v, b, k) \<in> live - {(u, addr, l)}}"
      unfolding here using old(4) left same by (cases "v = u") auto
    show "v' = v" if "map_of (activeTaskListeners ?m) v' = Some b" for v'
      using old(5) [of v'] that by (simp add: look split: if_splits)
  next
    fix v b k
    assume k: "(v, b, k) \<in> live - {(u, addr, l)}"
    then have b: "map_of (activeTaskListeners m) v = Some b" using live_registered [OF ok] by blast
    have "?left \<noteq> []" if "v = u"
    proof -
      have "b = addr" using b reg that by simp
      then have "k \<in> set ?left" using left k that by simp
      then show ?thesis by force
    qed
    then show "map_of (activeTaskListeners ?m) v = Some b" using b by (simp add: look)
  qed
qed

lemma reached_listeners_ok: "task_reach m live \<Longrightarrow> listeners_ok m live"
proof (induction rule: task_reach.induct)
  case start
  then show ?case by (simp add: listeners_ok_def)
next
  case subscribe
  then show ?case by (metis subscribe_ok)
next
  case unsubscribe
  then show ?case by (metis unsubscribe_ok)
qed (simp_all add: listeners_ok_cong [of "_ _" _] listeners_ok_def)


definition sample_task :: ActiveDrawingTask where
  "sample_task =
     \<lparr>task_id = js ''t1'', task_userId = 7, task_prompt = js ''cat'', task_group = js ''g'', task_model = js ''m'', task_size = None,
      task_quality = None, task_count = js ''1'', task_referenceCount = 0, task_startedAt = 0, task_status_of = Task_generating,
      task_waitingStopped = False, task_error = None, task_errorStatus = None\<rparr>"

definition fresh_tasks :: task_module where
  "fresh_tasks = \<lparr>window_storage = None, fallbackStorage = [], activeDrawingTasks = [], listener_sets = [],
     activeTaskListeners = [], delivered = []\<rparr>"


text \<open>
  Unsubscribing a second time is not harmless: the first subscriber's set is empty, so the entry of the user is deleted,
  which by then is the set of another subscriber, who is no longer told of anything.
\<close>

lemma second_unsubscribe_silences:
  fixes m0 :: task_module
  defines "m0 \<equiv> fresh_tasks"
  defines "m1 \<equiv> snd (subscribeActiveDrawingTask 7 1 m0)"
  defines "m2 \<equiv> unsubscribe 7 0 1 m1"
  defines "m3 \<equiv> snd (subscribeActiveDrawingTask 7 2 m2)"
  shows "delivered (registerActiveDrawingTask sample_task m3) = [(2, Some sample_task)]"
    and "delivered (registerActiveDrawingTask sample_task (unsubscribe 7 0 1 m3)) = []"
  by (simp_all add: assms fresh_tasks_def subscribeActiveDrawingTask_def unsubscribe_def registerActiveDrawingTask_def
      notifyListeners_def getActiveDrawingTask_def sample_task_def map_del_def Let_def)

end
