(* ===== verification/DrawingSession.thy ===== *)
theory DrawingSession
  imports DrawingHistory
begin

text \<open>
  Sessions of drawing histories, \<open>features/drawing/use-drawing-history.ts\<close>.

  A session is an object that pages and requests hold, so sessions have addresses (\<open>all_sessions\<close>) and the module's map
  \<open>sessions\<close> holds the address of the one new pages of a user get. Each call of \<open>retain\<close> returns a function that
  releases the session once; \<open>releases\<close> keeps, for each of these functions, its session and whether it was called.
  The state also has the user of the auth store, to which sessions subscribe, and the state of
  \<open>drawing-task-state.ts\<close>, which a change of the user clears.

  The lemmas show that a session is active only while someone holds it, that the map never offers one that is not, and
  that its history keeps the invariants of \<open>DrawingHistory\<close>.
\<close>

section \<open>Sessions\<close>

record drawing_session =
  session_user :: int
  session_history :: history
  owners :: int
  subscribed :: bool

record drawing_sessions =
  auth_user :: "int option"
  task_state :: task_module
  all_sessions :: "drawing_session list"
  sessions :: "(int \<times> nat) list"
  releases :: "(nat \<times> bool) list"

abbreviation session_at :: "drawing_sessions \<Rightarrow> nat \<Rightarrow> drawing_session" where
  "session_at w s \<equiv> all_sessions w ! s"

abbreviation history_at :: "drawing_sessions \<Rightarrow> nat \<Rightarrow> history" where
  "history_at w s \<equiv> session_history (session_at w s)"

definition on_session :: "nat \<Rightarrow> (drawing_session \<Rightarrow> drawing_session) \<Rightarrow> drawing_sessions \<Rightarrow> drawing_sessions" where
  "on_session s f w = w\<lparr>all_sessions := (all_sessions w)[s := f (session_at w s)]\<rparr>"

definition createSession :: "int \<Rightarrow> drawing_sessions \<Rightarrow> nat \<times> drawing_sessions" where
  "createSession u w =
     (length (all_sessions w),
      w\<lparr>all_sessions := all_sessions w @ [\<lparr>session_user = u, session_history = new_history u, owners = 0, subscribed = False\<rparr>]\<rparr>)"

definition useDrawingHistory :: "int \<Rightarrow> drawing_sessions \<Rightarrow> nat \<times> drawing_sessions" where
  "useDrawingHistory u w =
     (case map_of (sessions w) u of Some s \<Rightarrow> (s, w) | None \<Rightarrow> createSession u w)"

definition retain :: "nat \<Rightarrow> drawing_sessions \<Rightarrow> nat \<times> drawing_sessions" where
  "retain s w =
     (let first = owners (session_at w s) = 0;
          w1 = on_session s (\<lambda>S. S\<lparr>owners := owners S + 1\<rparr>) w;
          w2 = (if first
                then on_session s (\<lambda>S. S\<lparr>session_history := start (session_history S), subscribed := True\<rparr>)
                  (w1\<lparr>sessions := map_put (session_user (session_at w s)) s (sessions w1)\<rparr>)
                else w1)
      in (length (releases w2), w2\<lparr>releases := releases w2 @ [(s, False)]\<rparr>))"

definition forget_session :: "nat \<Rightarrow> drawing_sessions \<Rightarrow> drawing_sessions" where
  "forget_session s w =
     (let u = session_user (session_at w s)
      in if map_of (sessions w) u = Some s then w\<lparr>sessions := map_del u (sessions w)\<rparr> else w)"

definition release :: "nat \<Rightarrow> drawing_sessions \<Rightarrow> drawing_sessions" where
  "release k w =
     (case releases w ! k of (s, released) \<Rightarrow>
        if released then w
        else let w1 = on_session s (\<lambda>S. S\<lparr>owners := owners S - 1\<rparr>) (w\<lparr>releases := (releases w)[k := (s, True)]\<rparr>)
             in if owners (session_at w1 s) = 0
                then forget_session s (on_session s (\<lambda>S. S\<lparr>session_history := dispose (session_history S), subscribed := False\<rparr>) w1)
                else w1)"

text \<open>The listener a session subscribes to the auth store, and a change of the store's user.\<close>

definition session_listener :: "nat \<Rightarrow> drawing_sessions \<Rightarrow> drawing_sessions" where
  "session_listener s w =
     (let u = session_user (session_at w s)
      in if auth_user w \<noteq> Some u
         then forget_session s
           ((on_session s (\<lambda>S. S\<lparr>session_history := dispose (session_history S)\<rparr>) w)\<lparr>task_state := clearActiveDrawingTask u None (task_state w)\<rparr>)
         else w)"

definition auth_changed :: "int option \<Rightarrow> drawing_sessions \<Rightarrow> drawing_sessions" where
  "auth_changed user w =
     fold session_listener (filter (\<lambda>s. subscribed (session_at w s)) [0..<length (all_sessions w)]) (w\<lparr>auth_user := user\<rparr>)"

section \<open>Holders of a session\<close>

definition holders :: "nat \<Rightarrow> drawing_sessions \<Rightarrow> nat" where
  "holders s w = count_list (releases w) (s, False)"

definition session_ok :: "history_env \<Rightarrow> nat \<Rightarrow> drawing_session \<Rightarrow> bool" where
  "session_ok env n S \<longleftrightarrow> owners S = int n \<and> subscribed S = (0 < n) \<and> (active (session_history S) \<longrightarrow> 0 < n) \<and>
     userId (session_history S) = session_user S \<and> busy_ok (session_history S) \<and> history_inv env (session_history S)"

definition registered_ok :: "drawing_sessions \<Rightarrow> bool" where
  "registered_ok w \<longleftrightarrow> (\<forall>u s. map_of (sessions w) u = Some s \<longrightarrow>
     s < length (all_sessions w) \<and> session_user (session_at w s) = u \<and> active (history_at w s))"

definition sessions_inv :: "history_env \<Rightarrow> drawing_sessions \<Rightarrow> bool" where
  "sessions_inv env w \<longleftrightarrow> (\<forall>s < length (all_sessions w). session_ok env (holders s w) (session_at w s)) \<and>
     (\<forall>r \<in> set (releases w). fst r < length (all_sessions w)) \<and> registered_ok w"

lemma sessions_invD:
  assumes "sessions_inv env w" and "s < length (all_sessions w)"
  shows "owners (session_at w s) = int (holders s w)" "subscribed (session_at w s) = (0 < holders s w)"
    "active (history_at w s) \<Longrightarrow> 0 < holders s w" "userId (history_at w s) = session_user (session_at w s)"
    "busy_ok (history_at w s)" "history_inv env (history_at w s)"
  using assms by (auto simp: sessions_inv_def session_ok_def)

lemma on_session_fields [simp]:
  "length (all_sessions (on_session s f w)) = length (all_sessions w)" "sessions (on_session s f w) = sessions w"
  "releases (on_session s f w) = releases w" "auth_user (on_session s f w) = auth_user w" "task_state (on_session s f w) = task_state w"
  "holders k (on_session s f w) = holders k w"
  by (simp_all add: on_session_def holders_def)

lemma session_at_on [simp]:
  "s < length (all_sessions w) \<Longrightarrow> session_at (on_session s f w) k = (if k = s then f (session_at w s) else session_at w k)"
  by (simp add: on_session_def)

lemma forget_session_fields [simp]:
  "all_sessions (forget_session s w) = all_sessions w" "releases (forget_session s w) = releases w"
  "auth_user (forget_session s w) = auth_user w" "task_state (forget_session s w) = task_state w" "holders k (forget_session s w) = holders k w"
  by (simp_all add: forget_session_def holders_def Let_def)

lemma forget_registered:
  assumes "\<And>u k. map_of (sessions w) u = Some k \<Longrightarrow>
      k < length (all_sessions w) \<and> session_user (session_at w k) = u \<and> (k \<noteq> s \<longrightarrow> active (history_at w k))"
  shows "registered_ok (forget_session s w)"
  unfolding registered_ok_def
proof (intro allI impI)
  fix u k
  assume k: "map_of (sessions (forget_session s w)) u = Some k"
  then have old: "map_of (sessions w) u = Some k" and "u = session_user (session_at w s) \<Longrightarrow> map_of (sessions w) u \<noteq> Some s"
    by (auto simp: forget_session_def Let_def split: if_splits)
  then have "k \<noteq> s" using assms [OF old] by auto
  then show "k < length (all_sessions (forget_session s w)) \<and> session_user (session_at (forget_session s w) k) = u \<and>
      active (history_at (forget_session s w) k)"
    using assms [OF old] by simp
qed

lemma forget_disposed:
  assumes "registered_ok w" and "sessions w' = sessions w" "length (all_sessions w') = length (all_sessions w)"
    and "\<And>j. session_user (session_at w' j) = session_user (session_at w j)" "\<And>j. j \<noteq> s \<Longrightarrow> history_at w' j = history_at w j"
  shows "registered_ok (forget_session s w')"
  using assms by (intro forget_registered) (simp_all add: registered_ok_def)

lemma count_list_update:
  "k < length xs \<Longrightarrow> count_list (xs[k := y]) x + (if xs ! k = x then 1 else 0) = count_list xs x + (if y = x then 1 else 0)"
proof (induction xs arbitrary: k)
  case (Cons a xs)
  then show ?case by (cases k) (use Cons.IH in \<open>fastforce\<close>)+
qed simp

lemma sessions_invI:
  assumes "sessions_inv env w" and "length (all_sessions w') = length (all_sessions w)"
    and "\<And>k. k < length (all_sessions w) \<Longrightarrow> k \<noteq> s \<Longrightarrow> session_at w' k = session_at w k \<and> holders k w' = holders k w"
    and "s < length (all_sessions w) \<Longrightarrow> session_ok env (holders s w') (session_at w' s)"
    and "\<forall>r \<in> set (releases w'). fst r < length (all_sessions w)" and "registered_ok w'"
  shows "sessions_inv env w'"
  using assms unfolding sessions_inv_def by metis

lemma useDrawingHistory_inv:
  assumes "sessions_inv env w"
  shows "sessions_inv env (snd (useDrawingHistory u w))" and "fst (useDrawingHistory u w) < length (all_sessions (snd (useDrawingHistory u w)))"
    and "session_user (session_at (snd (useDrawingHistory u w)) (fst (useDrawingHistory u w))) = u"
    and "s < length (all_sessions w) \<Longrightarrow> session_at (snd (useDrawingHistory u w)) s = session_at w s"
    and "length (all_sessions w) \<le> length (all_sessions (snd (useDrawingHistory u w)))"
    and "releases (snd (useDrawingHistory u w)) = releases w" and "task_state (snd (useDrawingHistory u w)) = task_state w"
    and "auth_user (snd (useDrawingHistory u w)) = auth_user w"
proof -
  have new: "count_list (releases w) (length (all_sessions w), False) = 0"
    using assms by (auto simp: sessions_inv_def count_list_0_iff)
  have ok: "session_ok env 0 \<lparr>session_user = u, session_history = new_history u, owners = 0, subscribed = False\<rparr>"
    using new_history_inv [of env u]
    by (simp add: session_ok_def new_history_def busy_ok_def pendings_ok_def initial_snapshot_def)
  have "sessions_inv env (snd (createSession u w))"
    using assms ok new
    by (auto simp: sessions_inv_def createSession_def registered_ok_def holders_def nth_append less_Suc_eq)
  then show "sessions_inv env (snd (useDrawingHistory u w))" using assms by (auto simp: useDrawingHistory_def split: option.splits)
qed (use assms in \<open>auto simp: useDrawingHistory_def createSession_def sessions_inv_def registered_ok_def nth_append split: option.splits\<close>)

text \<open>A method of a history that keeps its invariants and does not start or stop it.\<close>

definition on_history :: "nat \<Rightarrow> (history \<Rightarrow> history) \<Rightarrow> drawing_sessions \<Rightarrow> drawing_sessions" where
  "on_history s f = on_session s (\<lambda>S. S\<lparr>session_history := f (session_history S)\<rparr>)"

lemma on_history_inv:
  assumes "sessions_inv env w" and "s < length (all_sessions w)"
    and "busy_ok (f (history_at w s))" "history_inv env (f (history_at w s))" "userId (f (history_at w s)) = userId (history_at w s)"
      "active (f (history_at w s)) = active (history_at w s)"
  shows "sessions_inv env (on_history s f w)"
proof (rule sessions_invI [OF assms(1), where s = s])
  show "session_ok env (holders s (on_history s f w)) (session_at (on_history s f w) s)"
    using assms by (auto simp: on_history_def sessions_inv_def session_ok_def)
  show "registered_ok (on_history s f w)"
    using assms unfolding sessions_inv_def registered_ok_def on_history_def by fastforce
  show "\<forall>r \<in> set (releases (on_history s f w)). fst r < length (all_sessions w)"
    using assms(1) by (simp add: sessions_inv_def on_history_def)
qed (use assms(2) in \<open>simp_all add: on_history_def\<close>)

lemma active_start [simp]: "active (start h)"
  by (simp add: start_def new_controller_def Let_def)

lemma retain_facts:
  assumes "s < length (all_sessions w)"
  shows "fst (retain s w) = length (releases w)" "releases (snd (retain s w)) = releases w @ [(s, False)]"
    "length (all_sessions (snd (retain s w))) = length (all_sessions w)"
    "task_state (snd (retain s w)) = task_state w" "auth_user (snd (retain s w)) = auth_user w"
    "session_user (session_at (snd (retain s w)) k) = session_user (session_at w k)"
    "k \<noteq> s \<or> owners (session_at w s) \<noteq> 0 \<Longrightarrow> history_at (snd (retain s w)) k = history_at w k"
    "k \<noteq> s \<Longrightarrow> session_at (snd (retain s w)) k = session_at w k"
  using assms by (auto simp: retain_def Let_def on_session_def nth_list_update)

lemma retain_inv:
  assumes "sessions_inv env w" and s: "s < length (all_sessions w)"
  shows "sessions_inv env (snd (retain s w))"
proof (rule sessions_invI [OF assms(1), where s = s])
  let ?w = "snd (retain s w)"
  have hold: "holders k ?w = holders k w + (if k = s then 1 else 0)" for k
    by (simp add: holders_def retain_facts [OF s])
  show "session_at ?w k = session_at w k \<and> holders k ?w = holders k w" if "k \<noteq> s" for k
    using that by (simp add: retain_facts [OF s] hold)
  have S: "session_at ?w s = (if owners (session_at w s) = 0
      then (session_at w s)\<lparr>owners := 1, session_history := start (history_at w s), subscribed := True\<rparr>
      else (session_at w s)\<lparr>owners := owners (session_at w s) + 1\<rparr>)"
    using s by (simp add: retain_def Let_def on_session_def)
  show "session_ok env (holders s ?w) (session_at ?w s)"
  proof (cases "holders s w = 0")
    case True
    then have "\<not> active (history_at w s)" using sessions_invD [OF assms] by auto
    then have "busy_ok (start (history_at w s))"
      using sessions_invD(5) [OF assms] by (intro start_busy) (auto simp: busy_ok_def)
    then show ?thesis
      using True sessions_invD [OF assms] by (simp add: S hold session_ok_def start_inv)
  next
    case False
    then show ?thesis using sessions_invD [OF assms] by (simp add: S hold session_ok_def)
  qed
  have "registered_ok (w\<lparr>all_sessions := all_sessions ?w\<rparr>)"
    using assms s unfolding sessions_inv_def registered_ok_def by (auto simp: retain_def Let_def on_session_def nth_list_update)
  then show "registered_ok ?w"
    using s unfolding registered_ok_def by (auto simp: retain_def Let_def on_session_def nth_list_update split: if_splits)
qed (use assms in \<open>auto simp: retain_facts sessions_inv_def\<close>)

lemma dispose_fields [simp]:
  "\<not> active (dispose h)" "revision (dispose h) = revision h + 1" "userId (dispose h) = userId h"
  by (simp_all add: dispose_def abort_controller_def Let_def)

lemma release_facts:
  assumes "sessions_inv env w" and k: "k < length (releases w)" "releases w ! k = (s, False)"
  shows "releases (release k w) = (releases w)[k := (s, True)]" "length (all_sessions (release k w)) = length (all_sessions w)"
    "task_state (release k w) = task_state w" "auth_user (release k w) = auth_user w"
    "session_user (session_at (release k w) j) = session_user (session_at w j)"
    "j \<noteq> s \<Longrightarrow> session_at (release k w) j = session_at w j"
    "j \<noteq> s \<or> 1 < holders s w \<Longrightarrow> history_at (release k w) j = history_at w j"
    "holders s w = holders s (release k w) + 1" "j \<noteq> s \<Longrightarrow> holders j (release k w) = holders j w"
    "s < length (all_sessions w)" "0 < holders s w"
proof -
  have in_k: "(s, False) \<in> set (releases w)" using k nth_mem by metis
  then show s: "s < length (all_sessions w)" using assms(1) by (auto simp: sessions_inv_def)
  note own = sessions_invD(1) [OF assms(1) s]
  show "0 < holders s w" using in_k by (metis count_list_0_iff gr0I holders_def)
  show rel: "releases (release k w) = (releases w)[k := (s, True)]"
    by (simp add: release_def k Let_def)
  show "holders s w = holders s (release k w) + 1" "j \<noteq> s \<Longrightarrow> holders j (release k w) = holders j w"
    using count_list_update [OF k(1), of "(s, True)" "(s, False)"] count_list_update [OF k(1), of "(s, True)" "(j, False)"]
    by (auto simp: holders_def rel k(2))
  show "session_user (session_at (release k w) j) = session_user (session_at w j)"
    using s by (simp add: release_def k Let_def on_session_def nth_list_update)
  show "j \<noteq> s \<or> 1 < holders s w \<Longrightarrow> history_at (release k w) j = history_at w j"
    using s own by (auto simp: release_def k Let_def on_session_def nth_list_update)
qed (auto simp: release_def k Let_def on_session_def nth_list_update)

lemma release_inv:
  assumes "sessions_inv env w" and k: "k < length (releases w)" "releases w ! k = (s, False)"
  shows "sessions_inv env (release k w)"
proof (rule sessions_invI [OF assms(1), where s = s])
  let ?w = "release k w"
  note facts = release_facts [OF assms]
  note s = facts(10)
  note old = sessions_invD [OF assms(1) s]
  have S: "session_at ?w s = (if owners (session_at w s) = 1
      then (session_at w s)\<lparr>owners := 0, session_history := dispose (history_at w s), subscribed := False\<rparr>
      else (session_at w s)\<lparr>owners := owners (session_at w s) - 1\<rparr>)"
    using s by (simp add: release_def k Let_def on_session_def)
  show "session_ok env (holders s ?w) (session_at ?w s)"
    using old facts(8) by (auto simp: S session_ok_def dispose_busy dispose_inv)
  show "registered_ok ?w"
  proof (cases "owners (session_at w s) = 1")
    case True
    then have "?w = forget_session s (on_session s (\<lambda>S. S\<lparr>session_history := dispose (session_history S), subscribed := False\<rparr>)
        (on_session s (\<lambda>S. S\<lparr>owners := owners S - 1\<rparr>) (w\<lparr>releases := (releases w)[k := (s, True)]\<rparr>)))"
      using s by (simp add: release_def k Let_def on_session_def)
    moreover have "registered_ok w" using assms(1) by (simp add: sessions_inv_def)
    ultimately show ?thesis using s by (simp add: forget_disposed [of w])
  next
    case False
    then have "sessions ?w = sessions w" "\<And>j. history_at ?w j = history_at w j" "\<And>j. session_user (session_at ?w j) = session_user (session_at w j)"
      using s by (simp_all add: release_def k Let_def on_session_def nth_list_update)
    then show ?thesis using assms(1) by (simp add: sessions_inv_def registered_ok_def facts(2))
  qed
  show "\<forall>r \<in> set (releases ?w). fst r < length (all_sessions w)"
    using assms(1) s set_update_subset_insert [of "releases w" k "(s, True)"] by (auto simp: facts(1) sessions_inv_def)
qed (simp_all add: release_facts(2,6,9) [OF assms])

lemma getActiveDrawingTask_clear:
  "getActiveDrawingTask v (clearActiveDrawingTask u None m) = (if v = u then None else getActiveDrawingTask v m)"
  by (simp add: getActiveDrawingTask_def clearActiveDrawingTask_def notifyListeners_def split: option.splits)

lemma session_listener_facts:
  assumes "s < length (all_sessions w)"
  shows "auth_user (session_listener s w) = auth_user w" "releases (session_listener s w) = releases w"
    "length (all_sessions (session_listener s w)) = length (all_sessions w)" "holders j (session_listener s w) = holders j w"
    "session_at (session_listener s w) j = (if j = s \<and> auth_user w \<noteq> Some (session_user (session_at w s))
       then (session_at w j)\<lparr>session_history := dispose (history_at w j)\<rparr> else session_at w j)"
    "getActiveDrawingTask v (task_state (session_listener s w)) =
       (if auth_user w \<noteq> Some v \<and> session_user (session_at w s) = v then None else getActiveDrawingTask v (task_state w))"
  using assms
  by (auto simp: session_listener_def Let_def on_session_def holders_def getActiveDrawingTask_clear nth_list_update)

lemma session_listener_inv:
  assumes "sessions_inv env w" and s: "s < length (all_sessions w)"
  shows "sessions_inv env (session_listener s w)"
proof (rule sessions_invI [OF assms(1), where s = s])
  note facts = session_listener_facts [OF s]
  show "session_ok env (holders s (session_listener s w)) (session_at (session_listener s w) s)"
    using sessions_invD [OF assms] by (simp add: facts session_ok_def dispose_busy dispose_inv)
  show "registered_ok (session_listener s w)"
    using assms unfolding session_listener_def Let_def
    by (auto simp: sessions_inv_def on_session_def nth_list_update intro!: forget_disposed [of w])
qed (use assms in \<open>simp_all add: session_listener_facts sessions_inv_def\<close>)

lemma listeners_inv:
  "sessions_inv env w \<Longrightarrow> \<forall>s \<in> set xs. s < length (all_sessions w) \<Longrightarrow>
    sessions_inv env (fold session_listener xs w) \<and> auth_user (fold session_listener xs w) = auth_user w \<and>
    releases (fold session_listener xs w) = releases w \<and> length (all_sessions (fold session_listener xs w)) = length (all_sessions w)"
  by (induction xs arbitrary: w) (simp_all add: session_listener_inv session_listener_facts)

lemma listeners_sessions:
  "distinct xs \<Longrightarrow> \<forall>s \<in> set xs. s < length (all_sessions w) \<Longrightarrow>
    session_at (fold session_listener xs w) s =
      (if s \<in> set xs \<and> auth_user w \<noteq> Some (session_user (session_at w s))
       then (session_at w s)\<lparr>session_history := dispose (history_at w s)\<rparr> else session_at w s)"
proof (induction xs arbitrary: w)
  case (Cons x xs)
  then have x: "x < length (all_sessions w)" by simp
  show ?case
    using Cons.IH [of "session_listener x w"] Cons.prems by (cases "s = x") (simp_all add: session_listener_facts [OF x])
qed simp

lemma listeners_tasks:
  "\<forall>s \<in> set xs. s < length (all_sessions w) \<Longrightarrow>
    getActiveDrawingTask v (task_state (fold session_listener xs w)) =
      (if auth_user w \<noteq> Some v \<and> (\<exists>s \<in> set xs. session_user (session_at w s) = v) then None else getActiveDrawingTask v (task_state w))"
proof (induction xs arbitrary: w)
  case (Cons x xs)
  then have x: "x < length (all_sessions w)" by simp
  have user: "session_user (session_at (session_listener x w) j) = session_user (session_at w j)" for j
    by (simp add: session_listener_facts [OF x])
  show ?case
    using Cons.IH [of "session_listener x w"] Cons.prems by (simp add: session_listener_facts(1-4,6) [OF x] user)
qed simp

lemma auth_changed_facts:
  assumes "sessions_inv env w"
  shows "sessions_inv env (auth_changed user w)" "auth_user (auth_changed user w) = user"
    "releases (auth_changed user w) = releases w" "length (all_sessions (auth_changed user w)) = length (all_sessions w)"
    "s < length (all_sessions w) \<Longrightarrow> session_at (auth_changed user w) s =
      (if subscribed (session_at w s) \<and> user \<noteq> Some (session_user (session_at w s))
       then (session_at w s)\<lparr>session_history := dispose (history_at w s)\<rparr> else session_at w s)"
    "getActiveDrawingTask v (task_state (auth_changed user w)) =
      (if user \<noteq> Some v \<and> (\<exists>s < length (all_sessions w). subscribed (session_at w s) \<and> session_user (session_at w s) = v)
       then None else getActiveDrawingTask v (task_state w))"
proof -
  let ?xs = "filter (\<lambda>s. subscribed (session_at w s)) [0..<length (all_sessions w)]"
  have inv: "sessions_inv env (w\<lparr>auth_user := user\<rparr>)" using assms by (simp add: sessions_inv_def registered_ok_def holders_def)
  show "sessions_inv env (auth_changed user w)" "auth_user (auth_changed user w) = user"
    "releases (auth_changed user w) = releases w" "length (all_sessions (auth_changed user w)) = length (all_sessions w)"
    using listeners_inv [OF inv, of ?xs] by (simp_all add: auth_changed_def)
  show "s < length (all_sessions w) \<Longrightarrow> session_at (auth_changed user w) s =
      (if subscribed (session_at w s) \<and> user \<noteq> Some (session_user (session_at w s))
       then (session_at w s)\<lparr>session_history := dispose (history_at w s)\<rparr> else session_at w s)"
    using listeners_sessions [of ?xs "w\<lparr>auth_user := user\<rparr>" s] by (simp add: auth_changed_def)
  show "getActiveDrawingTask v (task_state (auth_changed user w)) =
      (if user \<noteq> Some v \<and> (\<exists>s < length (all_sessions w). subscribed (session_at w s) \<and> session_user (session_at w s) = v)
       then None else getActiveDrawingTask v (task_state w))"
    using listeners_tasks [of ?xs "w\<lparr>auth_user := user\<rparr>" v] by (auto simp: auth_changed_def)
qed

section \<open>Runs\<close>

text \<open>The calls pages and requests make of a history they hold, and the answers it awaits. Only \<open>retain\<close> and
  \<open>release\<close> start and dispose of it, and nothing reloads it.\<close>

definition no_sessions :: "int option \<Rightarrow> task_module \<Rightarrow> drawing_sessions" where
  "no_sessions user m = \<lparr>auth_user = user, task_state = m, all_sessions = [], sessions = [], releases = []\<rparr>"

definition client_event :: "history_event \<Rightarrow> bool" where
  "client_event e \<longleftrightarrow> e \<notin> {Start, Reload_history, Dispose}"

inductive session_reach :: "history_env \<Rightarrow> drawing_sessions \<Rightarrow> bool" for env where
  none: "session_reach env (no_sessions user m)"
| mount: "session_reach env w \<Longrightarrow> session_reach env (snd (useDrawingHistory u w))"
| retain: "session_reach env w \<Longrightarrow> s < length (all_sessions w) \<Longrightarrow> session_reach env (snd (retain s w))"
| release: "session_reach env w \<Longrightarrow> k < length (releases w) \<Longrightarrow> session_reach env (release k w)"
| auth: "session_reach env w \<Longrightarrow> session_reach env (auth_changed user w)"
| history: "session_reach env w \<Longrightarrow> s < length (all_sessions w) \<Longrightarrow> client_event e \<Longrightarrow>
    session_reach env (on_history s (history_step env e) w)"

lemma active_own_previews: "active (snd (own_previews data h)) = active h"
  using own_previews_frame [of data h] by auto

lemma active_start_answered: "active (start_answered env i t answer h) = active h"
  by (simp add: start_answered_def case_prod_beta active_own_previews split: option.splits)

lemma active_reload_answered: "active (reload_answered env i t answer h) = active h"
  by (simp add: reload_answered_def case_prod_beta active_own_previews split: option.splits)

lemma active_remember: "active (remember env raws meta ticket uuid h) = active h"
  using additions_frame [of env meta raws uuid 0 h] by (auto simp: remember_def Let_def split: prod.splits)

lemma active_remember_done [simp]: "active (remember_done i t failed h) = active h"
  by (simp add: remember_done_def)

lemma active_save_answered: "active (save_answered i t failed valid answer h) = active h"
  by (auto simp: save_answered_def is_current_def split: option.splits)

lemma active_step:
  assumes "client_event e"
  shows "active (history_step env e h) = active h"
proof (cases e)
  case (Downloaded i k answer)
  then show ?thesis by (auto simp: downloaded_def Let_def preview_def split: option.splits continuation.splits)
next
  case (Clear)
  then show ?thesis by (simp add: clear_def new_controller_def abort_controller_def Let_def)
next
  case (Cleared i answer)
  then show ?thesis by (auto simp: clear_answered_def split: option.splits continuation.splits)
qed (use assms in \<open>auto simp: client_event_def active_start_answered active_reload_answered active_remember active_save_answered
    all_stored_def remember_ready_def start_finished_def split: option.splits continuation.splits\<close>)

lemma session_reach_inv: "session_reach env w \<Longrightarrow> sessions_inv env w"
proof (induction rule: session_reach.induct)
  case (none user m)
  show ?case by (simp add: sessions_inv_def no_sessions_def registered_ok_def)
next
  case (release w k)
  obtain s b where "releases w ! k = (s, b)" by fastforce
  then show ?case using release release_inv [of env w k s] by (cases b) (simp_all add: release_def)
next
  case (history w s e)
  then have "orderly e (history_at w s)" by (auto simp: client_event_def orderly_def split: history_event.splits)
  then show ?case
    using history sessions_invD [OF history.IH history.hyps(2)]
    by (intro on_history_inv) (simp_all add: history_step_busy history_step_inv active_step userId_step)
qed (simp_all add: useDrawingHistory_inv retain_inv auth_changed_facts)

lemma holders_pos: "0 < holders s w \<longleftrightarrow> (\<exists>k < length (releases w). releases w ! k = (s, False))"
  by (metis count_list_0_iff gr_zeroI holders_def in_set_conv_nth less_irrefl)

lemma inactive_no_urls:
  assumes "sessions_inv env w" and "s < length (all_sessions w)" and "\<not> active (history_at w s)"
  shows "images (snapshot (history_at w s)) = []" and "live_urls (history_at w s) = []"
  using sessions_invD(6) [OF assms(1,2)] assms(3) by (auto simp: history_inv_def urls_ok_def used_urls_def)

text \<open>C19: Whatever pages and requests retain and release, in whatever order answers come and accounts change: a
  session counts exactly its holders; without one its history is inactive and holds no drawing and no object URL; and
  the session a new page of a user gets, if there is one, is of that user, active and held.\<close>

theorem sessions_follow_holders:
  assumes "session_reach env w" and "s < length (all_sessions w)"
  shows "owners (session_at w s) = int (card {k. k < length (releases w) \<and> releases w ! k = (s, False)}) \<and>
    (owners (session_at w s) = 0 \<longrightarrow>
      \<not> active (history_at w s) \<and> images (snapshot (history_at w s)) = [] \<and> live_urls (history_at w s) = []) \<and>
    (map_of (sessions w) u = Some s \<longrightarrow>
      session_user (session_at w s) = u \<and> active (history_at w s) \<and> 0 < owners (session_at w s))"
proof -
  have inv: "sessions_inv env w" using assms(1) by (rule session_reach_inv)
  note facts = sessions_invD [OF inv assms(2)]
  have "card {k. k < length xs \<and> xs ! k = x} = count_list xs x" for xs and x :: "nat \<times> bool"
    by (simp add: count_list_eq_length_filter length_filter_conv_card eq_commute)
  then have "owners (session_at w s) = int (card {k. k < length (releases w) \<and> releases w ! k = (s, False)})"
    using facts(1) by (simp add: holders_def)
  moreover have "\<not> active (history_at w s)" if "owners (session_at w s) = 0" using that facts(1,3) by auto
  moreover have "session_user (session_at w s) = u \<and> active (history_at w s) \<and> 0 < owners (session_at w s)"
    if "map_of (sessions w) u = Some s"
    using that inv facts by (auto simp: sessions_inv_def registered_ok_def)
  ultimately show ?thesis using inactive_no_urls [OF inv assms(2)] by blast
qed

text \<open>A page of user 7 that is mounted and holds its session, and then releases it.\<close>

definition plain_env :: history_env where
  "plain_env = \<lparr>env_collation = id, env_parse = (\<lambda>_. None)\<rparr>"

definition sample_tasks :: task_module where
  "sample_tasks = \<lparr>window_storage = None, fallbackStorage = [], activeDrawingTasks = [], listener_sets = [],
     activeTaskListeners = [], delivered = []\<rparr>"

definition held_session :: drawing_sessions where
  "held_session = snd (retain 0 (snd (useDrawingHistory 7 (no_sessions (Some 7) sample_tasks))))"

lemma held_session_reach: "session_reach env held_session"
  unfolding held_session_def
  by (rule session_reach.retain [OF session_reach.mount [OF session_reach.none]])
    (simp add: useDrawingHistory_def createSession_def no_sessions_def)

lemma held_session_facts:
  "length (all_sessions held_session) = 1" "releases held_session = [(0, False)]" "map_of (sessions held_session) 7 = Some 0"
  "session_user (session_at held_session 0) = 7" "subscribed (session_at held_session 0)"
  "history_at held_session 0 = start (new_history 7)"
  by (simp_all add: held_session_def useDrawingHistory_def createSession_def no_sessions_def retain_def on_session_def Let_def)

theorem sessions_follow_holders_witness:
  "session_user (session_at held_session 0) = 7 \<and> active (history_at held_session 0) \<and>
   owners (session_at (release 0 held_session) 0) = 0 \<and> live_urls (history_at (release 0 held_session) 0) = []"
proof -
  have r: "session_reach plain_env (release 0 held_session)"
    using session_reach.release [OF held_session_reach, of 0] by (simp add: held_session_facts)
  have n: "length (all_sessions (release 0 held_session)) = 1" "releases (release 0 held_session) = [(0, True)]"
    using release_facts(1,2) [OF session_reach_inv [OF held_session_reach], of 0 0] by (simp_all add: held_session_facts)
  have "{k. k < length [(0 :: nat, True)] \<and> [(0 :: nat, True)] ! k = (0, False)} = {}" by auto
  then show ?thesis
    using sessions_follow_holders [OF held_session_reach [of plain_env], of 0 7] sessions_follow_holders [OF r, of 0 7]
    by (simp add: held_session_facts n)
qed

text \<open>C20: When the user of the auth store changes, every history of any other user is stopped: it shows no drawing, holds
  no object URL, and is not offered to new pages; and a task of another user whose session is held is gone.\<close>

theorem account_change_releases_drawings:
  assumes "session_reach env w"
    and "s < length (all_sessions w)" and "session_user (session_at w s) = u" and "user \<noteq> Some u"
  shows "\<not> active (history_at (auth_changed user w) s) \<and> images (snapshot (history_at (auth_changed user w) s)) = [] \<and>
    live_urls (history_at (auth_changed user w) s) = [] \<and> map_of (sessions (auth_changed user w)) u = None \<and>
    (0 < owners (session_at w s) \<longrightarrow> getActiveDrawingTask u (task_state (auth_changed user w)) = None)"
proof -
  let ?w = "auth_changed user w"
  have inv: "sessions_inv env w" using assms(1) by (rule session_reach_inv)
  note facts = auth_changed_facts [OF inv, where user = user]
  have user: "session_user (session_at ?w j) = session_user (session_at w j)" if "j < length (all_sessions w)" for j
    using that by (simp add: facts(5))
  have idle: "\<not> active (history_at ?w j)" if "j < length (all_sessions w)" "session_user (session_at w j) = u" for j
    using that assms(4) sessions_invD(2,3) [OF inv that(1)] by (auto simp: facts(5))
  have "map_of (sessions ?w) u = None"
  proof (rule ccontr)
    assume "map_of (sessions ?w) u \<noteq> None"
    then obtain j where "map_of (sessions ?w) u = Some j" by auto
    then have "j < length (all_sessions w)" "session_user (session_at ?w j) = u" "active (history_at ?w j)"
      using facts(1,4) by (auto simp: sessions_inv_def registered_ok_def)
    then show False using idle [of j] user [of j] by simp
  qed
  moreover have "getActiveDrawingTask u (task_state ?w) = None" if "0 < owners (session_at w s)"
    using that assms(2-4) sessions_invD(1,2) [OF inv assms(2)] by (auto simp: facts(6))
  ultimately show ?thesis using idle [OF assms(2,3)] inactive_no_urls [OF facts(1), of s] assms(2) by (simp add: facts(4))
qed

theorem account_change_releases_drawings_witness:
  "map_of (sessions held_session) 7 = Some 0 \<and> active (history_at held_session 0) \<and>
   \<not> active (history_at (auth_changed None held_session) 0) \<and> map_of (sessions (auth_changed None held_session)) 7 = None"
  using account_change_releases_drawings [OF held_session_reach [of plain_env], of 0 7 None]
  by (simp add: held_session_facts)



end
