(* ===== verification/Spec2Isabelle.thy ===== *)
theory Spec2Isabelle
  imports RuleRoundTrip AuthClient StatusRules KeyCreation PaymentQuote ModelMapping LightPuzzle SmsPurchase DrawingSession
begin

text \<open>
  \<^bold>\<open>The client logic of LMM Forge\<close>

  The repository holds a web application (\<open>apps/web\<close>, TypeScript) in front of two services (\<open>apps/api-go\<close>,
  \<open>apps/api-rust\<close>). This library models the parts of the web application that decide something: what a model call
  costs, who is signed in, which request may be sent with which token, what a payment charges and where it takes the
  user, how a key is created, how numbers for activations are bought, what becomes of generated drawings, and how the
  settings of a channel are read. Source paths below are relative to \<open>src/apps/web/src\<close>.

  \<^bold>\<open>How the language is modelled.\<close>
  \<^item> \<open>Prelude\<close>: results of code that may throw (\<open>'e + 'a\<close>, \<open>Inl\<close> the exception), \<open>Set\<close> and \<open>Map\<close> in insertion
    order, the interface \<open>js_map\<close> with its interpretation on association lists, shared list lemmas.
  \<^item> \<open>JsString\<close>: strings as lists of UTF-16 code units; trimming, splitting, joining, searching.
  \<^item> \<open>JsNumber\<close>: binary64 numbers as exact rationals with rounding to nearest even, infinities, NaN and the negative
    zero; \<open>Number(string)\<close> and \<open>String(number)\<close>.
  \<^item> \<open>JsValue\<close>: untyped values, property access, the order of own properties, \<open>JSON.parse\<close> and \<open>JSON.stringify\<close>.
  \<^item> \<open>NumberText\<close>, \<open>JsonText\<close>: numbers and JSON texts are read back as the values they were written from.
  \<^item> \<open>WebStorage\<close>: \<open>localStorage\<close> with a capacity, and the interface \<open>text_storage\<close> of a store of texts, interpreted on it
    and on the storage of the drawing page.

  \<^bold>\<open>Billing expressions\<close> (\<open>features/pricing/lib/billing-expr.ts\<close>).
  \<^item> \<open>BillingLexer\<close>, \<open>BillingParser\<close>: \<open>tokenizeExpr\<close> and the recursive descent behind \<open>parseRestrictedExpr\<close>, with
    the limits on length, tokens and nesting. Tokenizing loses nothing but blanks; the tree is no larger than the
    text allows.
  \<^item> \<open>BillingEval\<close>: \<open>evaluate\<close>, \<open>evaluateBillingExpression\<close>, and the tiers \<open>parseTiersFromExpr\<close> extracts. An
    evaluation stays within its step budget, reads only registered variables, and returns a finite price or one of the
    listed errors; the tier it reports is the first listed tier whose conditions hold.
  \<^item> \<open>RequestRules\<close>, \<open>RuleRoundTrip\<close>: request rules, their parser and the editor that writes them. Rules over plain
    texts are read back as they were written, and a price joined with rules is separated again. The exception, numeric
    and containment conditions on parameters, is proved as a defect.

  \<^bold>\<open>Sessions\<close> (\<open>stores/auth-store.ts\<close>, \<open>lib/auth-session.ts\<close>, \<open>lib/auth-session-sync.ts\<close>,
  \<open>lib/http-client.ts\<close>, \<open>lib/server-error-message.ts\<close>, parts of \<open>features/auth/api.ts\<close> and \<open>routes/__root.tsx\<close>).
  \<^item> \<open>AuthSession\<close>: the store, messages between tabs, validators, session operations, and the refresh as a state machine
    whose states are its awaits.
  \<^item> \<open>AuthRefresh\<close>: the step relation \<open>auth_step\<close> that interleaves session operations with a pending refresh, the
    interface \<open>session_operation\<close> and its interpretations on the operations. The store is consistent in every reachable
    state; a refresh overtaken by a newer operation changes nothing; a refresh sends at most eight requests and settles;
    a switch of session clears the caches, except in the retry after a mismatch, which is proved as a defect.
  \<^item> \<open>AuthClient\<close>: request and response interceptors, shared reads, error messages, signing out. No expired token is
    sent after a failed refresh, a request is sent at most twice, shared reads never cross sessions.

  \<^bold>\<open>Payments\<close> (\<open>features/wallet/lib\<close>, \<open>features/wallet/hooks\<close>, \<open>lib/payment-pricing.ts\<close>,
  \<open>lib/waffo-pancake-checkout.ts\<close>, \<open>i18n/languages.ts\<close>).
  \<^item> \<open>Settlement\<close>: server quotes, settlement rates and discounts. Accepted quotes and rates are positive and finite,
    and incomplete rates are never replaced by legacy ones.
  \<^item> \<open>Checkout\<close>: payment methods, dispatch and the four payment flows with the effects they have. The interface
    \<open>checkout_flow\<close> states how a payment with a reserved window ends, and is interpreted on the three flows that reserve
    one: a success navigates once and to an http or https address only, a failure navigates nowhere and closes the window.
  \<^item> \<open>PaymentQuote\<close>: overlapping price calculations. Only the answer to the newest calculation is ever shown.
  \<^item> This theory joins them: what the server quoted last is what the checkout asks it to charge.

  \<^bold>\<open>Assistant\<close> (\<open>features/assistant\<close>): \<open>KeyCreation\<close> models the reducer, the contract of groups and actions and the hook
  that creates API keys, as a function of events in any order. At most one operation is under way and every operation
  ends; a key is requested only after its action was confirmed and found valid; warnings are acknowledged as often as they
  ask. Two races of the hook are proved as defects.

  \<^bold>\<open>Channel settings\<close>: \<open>StatusRules\<close> (\<open>lib/http-status-code-rules.ts\<close>,
  \<open>features/channels/lib/status-code-risk-guard.ts\<close>) shows that merged rules cover the codes named, that their text is a
  canonical form, and that the guard reports exactly the new forbidden redirects; \<open>ModelMapping\<close>
  (\<open>features/channels/lib/model-mapping-validation.ts\<close>) shows that model lists are read back and that the warnings are
  exact.

  \<^bold>\<open>Activations\<close> (\<open>features/email-activations\<close>).
  \<^item> \<open>SmsCatalog\<close>: countries, services, states of orders, favourites and phone numbers. Favourites are loaded as they
    were saved, at most thirty; a number is split after its longest dialing prefix.
  \<^item> \<open>SmsPurchase\<close>: buying a batch of numbers under idempotency keys, with one retry of a request that got no answer, and
    the resolution of an uncertain purchase. Against a provider that honours the keys, the orders placed are the orders
    reported, and one more at most when the failure says so.

  \<^bold>\<open>Drawings\<close> (\<open>features/drawing\<close>).
  \<^item> \<open>DrawingStore\<close>: the cache in IndexedDB. It implements accounts of an epoch and a list of drawings, and what was
    cleared does not come back from a save begun before, in any tab.
  \<^item> \<open>DrawingImage\<close>: decoding, downloading and checking of images, errors of a generation, access by balance. An image in
    base64 is decoded to its bytes; a download asks for one https address without credentials and keeps a non-empty
    raster image within the limit.
  \<^item> \<open>DrawingTasks\<close>: drafts, the active task of each user and its listeners. Drafts are read back as patched; subscribers
    are told of every change.
  \<^item> \<open>DrawingHistory\<close>: the drawings a page shows, as the steps of the methods between their awaits, run by events in any
    order. Object URLs not revoked are those of the drawings shown, and an answer that comes too late changes nothing.
  \<^item> \<open>DrawingSession\<close>: histories held by pages and requests. They live exactly as long as somebody holds them, a change of
    account stops those of other users, and no busy flag outlives its operation.

  \<^bold>\<open>Waiting screens\<close>: \<open>LightPuzzle\<close> (\<open>lib/light-puzzle.ts\<close>) shows that the solver finds a shortest solution of every board.

  \<^bold>\<open>Loops and bounds.\<close> Loops are structural recursions or have a measure. Fuel occurs in three places.
  \<open>parseConditional\<close> gets two units more than \<open>MAX_EXPR_DEPTH\<close>, which the depth check exhausts first, and the loop
  over binary operators one unit per token; that neither runs out is proved. \<open>read_value\<close> of \<open>JsValue\<close> uses at most two
  units per character, which \<open>json_parse\<close> provides. \<open>shortest\<close> of \<open>JsNumber\<close> tries up to seventeen digits, which
  \<open>NumberText\<close> proves to identify every double. The limits of the expression language are the constants of the source.

  \<^bold>\<open>Parameters.\<close> What the program asks of code outside the repository is an argument: answers of the services, the
  clock and the ids of a tab, the browser's lock, windows and URL parser (\<open>browser\<close>), the verdicts of the schema library
  and the collation order (\<open>key_env\<close>), Unicode normalisation and the names of regions (\<open>region_env\<close>), the provider of
  numbers (\<open>purchase_deps\<close>), the URL parser and the network of a download, and the reasons a database transaction fails.

  \<^bold>\<open>Not modelled.\<close> Rendering, routing and styling; formatting through the locale library; folding of Unicode letters
  (\<open>normalizeTierLabel\<close>); single-request hooks and tables; the assistant's streams; the component of the drawing page with its
  \<open>generate\<close> handler and its game; bounties and the remaining channel forms; the services, which are in other languages; build scripts. Keys inherited from
  \<open>Object.prototype\<close> are not properties of modelled values.
\<close>

section \<open>From the quote to the checkout\<close>

text \<open>
  The options the wallet page passes to \<open>dispatchSelectedPayment\<close> (\<open>features/wallet/index.tsx\<close>): the region
  and language chosen, and the settlement of the quote it shows.
\<close>

definition checkout_options :: "jsstr \<Rightarrow> jsstr \<Rightarrow> SettlementQuote option \<Rightarrow> (jsstr \<times> jsval) list" where
  "checkout_options region language sq =
     [(js ''checkout_region'', Str region), (js ''checkout_language'', Str language)] @
     (case sq of Some q \<Rightarrow> expectedSettlement q | None \<Rightarrow> [])"

lemma answered_settlement:
  assumes "requestPaymentQuote t outcome = Some r" "pq_settlementQuote r = Some q"
  obtains response where "outcome = Inr response" "isWaffoPancakePayment t"
    "get_prop response (js ''data'') = Str (quote_amount q)"
    "get_prop response (js ''settlement_currency'') = Str (quote_currency q)"
    "is_positive_decimal (quote_amount q)" "quote_currency q \<in> {js ''CNY'', js ''USD''}"
proof (cases outcome)
  case (Inl e)
  with assms show ?thesis by (auto simp: requestPaymentQuote_def no_quote_def Let_def)
next
  case (Inr response)
  let ?v = "Obj [(js ''amount'', get_prop response (js ''data'')),
      (js ''currency'', get_prop response (js ''settlement_currency'')),
      (js ''originalAmount'', get_prop response (js ''original_settlement_amount'')),
      (js ''savingsAmount'', get_prop response (js ''savings_settlement_amount''))]"
  have t: "isWaffoPancakePayment t" and v: "parseSettlementQuote ?v = Some q"
    using assms Inr
    by (auto simp: requestPaymentQuote_def no_quote_def Let_def split: if_splits option.splits)
  have look: "get_prop ?v (js ''amount'') = get_prop response (js ''data'')"
    "get_prop ?v (js ''currency'') = get_prop response (js ''settlement_currency'')"
    by (simp_all add: lookup_names lookup_names [symmetric])
  show ?thesis
    using v [unfolded parseSettlementQuote_iff look] t Inr that by blast
qed

lemma echoed_quote:
  assumes "is_positive_decimal (quote_amount q)" "quote_currency q \<in> {js ''CNY'', js ''USD''}"
  shows "parseSettlementQuote (Obj [(js ''amount'', Str (quote_amount q)), (js ''currency'', Str (quote_currency q))]) =
    Some (q\<lparr>quote_originalAmount := None, quote_savingsAmount := None\<rparr>)"
  using assms
  by (simp add: parseSettlementQuote_iff is_object_def lookup_names lookup_names [symmetric]
      readOptionalSettlementAmount_def)

lemma option_names:
  "js ''settlement_amount'' \<noteq> js ''checkout_region''" "js ''settlement_amount'' \<noteq> js ''checkout_language''"
  "js ''settlement_currency'' \<noteq> js ''checkout_region''" "js ''settlement_currency'' \<noteq> js ''checkout_language''"
  "js ''settlement_currency'' \<noteq> js ''settlement_amount''"
  by simp_all

lemma options_settlement:
  "get_prop (Obj (checkout_options r l (Some q))) (js ''settlement_amount'') = Str (quote_amount q)"
  "get_prop (Obj (checkout_options r l (Some q))) (js ''settlement_currency'') = Str (quote_currency q)"
  by (simp_all add: checkout_options_def expectedSettlement_def option_names option_names [symmetric])

text \<open>C8: The amount charged is the amount quoted. When the wallet shows a settlement quote and the hosted checkout is
  chosen, the payment is dispatched, and the request it sends carries the very text and currency the server returned
  for the last calculation of the page.\<close>

theorem quoted_amount_is_charged:
  assumes "shown_quote (quote_run pre es (quote_start sc0)) = Some (amount, Some q)"
    and "get_prop m (js ''type'') = Str (js ''waffo_pancake'')"
  shows "\<exists>es1 a t c es2 response qs props effs.
    es = es1 @ Calculate a t c # es2 \<and> (\<forall>e \<in> set es2. \<not> renews e) \<and>
    Answer (amountRequestId (quote_run pre es (quote_start sc0))) (Inr response) \<in> set es2 \<and>
    dispatchSelectedPayment m n index (Some (checkout_options r l (Some q))) code = To_waffo_pancake n qs \<and>
    snd (processWaffoPancakePayment br lang n (Obj qs) True still outcome) =
      [Set_processing True, Request (js ''waffo_pancake'') props] @ effs \<and>
    (js ''settlement_amount'', get_prop response (js ''data'')) \<in> set props \<and>
    (js ''settlement_currency'', get_prop response (js ''settlement_currency'')) \<in> set props"
proof -
  obtain es1 a t c es2 where es: "es = es1 @ Calculate a t c # es2" "\<forall>e \<in> set es2. \<not> renews e"
    and ans: "answers pre (amountRequestId (quote_run pre es (quote_start sc0))) a t es2 amount (Some q)"
    using shown_quote_origin [OF assms(1)] unfolding last_calculation_def by blast
  then obtain o' u where o': "Answer (amountRequestId (quote_run pre es (quote_start sc0))) o' \<in> set es2"
    "requestPaymentQuote t o' = Some u" "pq_settlementQuote u = Some q"
    by (auto simp: answers_def)
  then obtain response where response: "o' = Inr response" "get_prop response (js ''data'') = Str (quote_amount q)"
    "get_prop response (js ''settlement_currency'') = Str (quote_currency q)"
    and q: "is_positive_decimal (quote_amount q)" "quote_currency q \<in> {js ''CNY'', js ''USD''}"
    by (elim answered_settlement)
  let ?ps = "checkout_options r l (Some q)"
  let ?qs = "if code = [] then ?ps else map_put (js ''discount_code'') (Str code) ?ps"
  let ?q = "q\<lparr>quote_originalAmount := None, quote_savingsAmount := None\<rparr>"
  note echo = echoed_quote [OF q]
  have d: "dispatchSelectedPayment m n index (Some ?ps) code = To_waffo_pancake n ?qs"
    unfolding dispatchSelectedPayment_def Let_def assms(2) option.case options_settlement echo
    by (simp add: isWaffoPayment_def isWaffoPancakePayment_def)
  have "get_prop (Obj ?qs) (js ''settlement_amount'') = Str (quote_amount q)"
    "get_prop (Obj ?qs) (js ''settlement_currency'') = Str (quote_currency q)"
    using options_settlement [of r l q] by (auto simp: get_prop_def)
  then obtain props effs where
    "snd (processWaffoPancakePayment br lang n (Obj ?qs) True still outcome) =
      [Set_processing True, Request (js ''waffo_pancake'') props] @ effs" "set (expectedSettlement ?q) \<subseteq> set props"
    using pancake_request [of "Obj ?qs" ?q br lang n still outcome] echo by auto
  moreover from this(2) have "(js ''settlement_amount'', get_prop response (js ''data'')) \<in> set props"
    "(js ''settlement_currency'', get_prop response (js ''settlement_currency'')) \<in> set props"
    by (simp_all add: expectedSettlement_def response)
  ultimately show ?thesis
    using es o'(1) d unfolding response(1) by blast
qed

definition sample_checkout :: "quote_event list" where
  "sample_checkout =
     [Calculate (Num 10) (Str (js ''waffo_pancake'')) [],
      Answer 1 (Inr (Obj [(js ''success'', Bool True), (js ''data'', Str (js ''9.90'')),
        (js ''settlement_currency'', Str (js ''CNY''))]))]"

definition sample_quote :: SettlementQuote where
  "sample_quote = \<lparr>quote_amount = js ''9.90'', quote_currency = js ''CNY'', quote_originalAmount = None,
     quote_savingsAmount = None\<rparr>"

definition sample_browser :: browser where
  "sample_browser = \<lparr>url_protocol = (\<lambda>_. None), user_agent = [], popup_opens = True, popup_name = []\<rparr>"

theorem quoted_amount_is_charged_witness:
  "\<exists>es1 a t c es2 response qs props effs.
    sample_checkout = es1 @ Calculate a t c # es2 \<and> (\<forall>e \<in> set es2. \<not> renews e) \<and>
    Answer (amountRequestId (quote_run False sample_checkout (quote_start []))) (Inr response) \<in> set es2 \<and>
    dispatchSelectedPayment (Obj [(js ''type'', Str (js ''waffo_pancake''))]) (Num 10) None
      (Some (checkout_options (js ''china'') (js ''zh-Hans'') (Some sample_quote))) [] = To_waffo_pancake (Num 10) qs \<and>
    snd (processWaffoPancakePayment sample_browser Undefined (Num 10) (Obj qs) True True (Inr Null)) =
      [Set_processing True, Request (js ''waffo_pancake'') props] @ effs \<and>
    (js ''settlement_amount'', get_prop response (js ''data'')) \<in> set props \<and>
    (js ''settlement_currency'', get_prop response (js ''settlement_currency'')) \<in> set props"
proof -
  have shown: "shown_quote (quote_run False sample_checkout (quote_start [])) = Some (to_number (js ''9.90''), Some sample_quote)"
    by code_simp
  have "get_prop (Obj [(js ''type'', Str (js ''waffo_pancake''))]) (js ''type'') = Str (js ''waffo_pancake'')"
    by simp
  with shown show ?thesis by (rule quoted_amount_is_charged)
qed

end
